(* ===== verification/Sfx_Prelude.thy ===== *)
theory Sfx_Prelude
  imports Complex_Main "HOL-Library.AList"
begin

text \<open>
  What every component shares: the errors the Python code raises, dictionaries in
  insertion order, the error-propagating loop, the clock, and a locale for machines with
  an invariant. Nothing here models a file of the program.

  A dictionary is an association list with Python's ordering: assigning to an existing key
  keeps its place, a new key goes to the end, which is what \<open>AList.update\<close> does.
\<close>

named_theorems frame_simps \<open>which fields an operation leaves unchanged\<close>

section \<open>Errors\<close>

datatype py_error =
    ValueError string
  | KeyError string
  | IndexError
  | TypeError
  | AttributeError
  | ZeroDivisionError
  | RuntimeError string
  | WritePathError string
  | ForkError string
  | OSError string

section \<open>Dictionaries\<close>

type_synonym ('k, 'v) dict = "('k \<times> 'v) list"

abbreviation dict_get :: "('k, 'v) dict \<Rightarrow> 'k \<Rightarrow> 'v option" where
  "dict_get \<equiv> map_of"

abbreviation dict_set :: "'k \<Rightarrow> 'v \<Rightarrow> ('k, 'v) dict \<Rightarrow> ('k, 'v) dict" where
  "dict_set \<equiv> AList.update"

abbreviation dict_pop :: "'k \<Rightarrow> ('k, 'v) dict \<Rightarrow> ('k, 'v) dict" where
  "dict_pop \<equiv> AList.delete"

definition dict_get_default :: "('k, 'v) dict \<Rightarrow> 'k \<Rightarrow> 'v \<Rightarrow> 'v" where
  "dict_get_default d k v = (case dict_get d k of None \<Rightarrow> v | Some x \<Rightarrow> x)"

lemma dict_get_default_set [simp]:
  "dict_get_default (dict_set k x d) k' v = (if k' = k then x else dict_get_default d k' v)"
  by (simp add: dict_get_default_def update_conv)

lemma dict_get_default_Nil [simp]: "dict_get_default [] k v = v"
  by (simp add: dict_get_default_def)

lemma dict_get_set: "dict_get (dict_set k x d) k' = (if k' = k then Some x else dict_get d k')"
  by (simp add: update_conv)

lemma distinct_dict_set: "distinct (map fst d) \<Longrightarrow> distinct (map fst (dict_set k v d))"
  by (rule distinct_update)

lemma distinct_map_fst_filter: "distinct (map fst d) \<Longrightarrow> distinct (map fst (filter P d))"
  by (induction d) auto

lemma set_dict_set:
  "distinct (map fst d) \<Longrightarrow>
   set (dict_set k v d) = insert (k, v) {p \<in> set d. fst p \<noteq> k}"
proof (induction d)
  case Nil
  then show ?case by simp
next
  case (Cons p d)
  show ?case
  proof (cases "fst p = k")
    case True
    with Cons.prems have "\<forall>q \<in> set d. fst q \<noteq> k" by (auto simp: image_iff)
    with True show ?thesis by (cases p) auto
  next
    case False
    with Cons show ?thesis by (cases p) auto
  qed
qed

lemma map_of_sort_key_fst: "distinct (map fst d) \<Longrightarrow> map_of (sort_key fst d) = map_of d"
proof -
  assume d: "distinct (map fst d)"
  then have "distinct (map fst (sort_key fst d))"
    by (simp add: distinct_map)
  with d show ?thesis by (simp add: map_of_inject_set)
qed

lemma dict_set_fresh: "k \<notin> fst ` set d \<Longrightarrow> dict_set k v d = d @ [(k, v)]"
  by (induction d) (auto simp: image_iff)

section \<open>Steps that may raise\<close>

definition res_bind :: "'e + 'a \<Rightarrow> ('a \<Rightarrow> 'e + 'b) \<Rightarrow> 'e + 'b" where
  "res_bind r k = (case r of Inl e \<Rightarrow> Inl e | Inr x \<Rightarrow> k x)"

lemma res_bind_simps [simp]: "res_bind (Inr x) k = k x" "res_bind (Inl e) k = Inl e"
  by (simp_all add: res_bind_def)

lemma res_bind_Inr_iff: "res_bind r k = Inr y \<longleftrightarrow> (\<exists>x. r = Inr x \<and> k x = Inr y)"
  by (auto simp: res_bind_def split: sum.splits)

section \<open>Loops that may raise\<close>

text \<open>A \<^verbatim>\<open>for\<close> loop over a list whose body may raise; the first error ends it.\<close>

fun fold_res :: "('x \<Rightarrow> 's \<Rightarrow> 'e + 's) \<Rightarrow> 'x list \<Rightarrow> 's \<Rightarrow> 'e + 's" where
  "fold_res f [] s = Inr s"
| "fold_res f (x # xs) s = (case f x s of Inl e \<Rightarrow> Inl e | Inr s' \<Rightarrow> fold_res f xs s')"

lemma fold_res_append:
  "fold_res f (xs @ ys) s = (case fold_res f xs s of Inl e \<Rightarrow> Inl e | Inr s' \<Rightarrow> fold_res f ys s')"
  by (induction xs arbitrary: s) (auto split: sum.splits)

lemma fold_res_invariant:
  assumes "\<And>x s. x \<in> set xs \<Longrightarrow> P s \<Longrightarrow> \<exists>s'. f x s = Inr s' \<and> P s'" and "P s"
  shows "\<exists>s'. fold_res f xs s = Inr s' \<and> P s'"
  using assms
proof (induction xs arbitrary: s)
  case Nil
  then show ?case by simp
next
  case (Cons x xs)
  then obtain s1 where "f x s = Inr s1" and "P s1" by (meson list.set_intros(1))
  with Cons show ?case by (metis (no_types, lifting) fold_res.simps(2) list.set_intros(2) sum.case(2))
qed

section \<open>The clock\<close>

text \<open>
  The daemon is given a clock, a callable that returns a time in milliseconds. Its readings
  are a function \<open>clk\<close> of the number of calls so far, so two calls of the same operation
  may see different times; \<open>ticks\<close> counts the calls. Times are exact rationals: the
  rounding of Python's floats is not modelled.
\<close>

type_synonym clock = "nat \<Rightarrow> rat"

record clocked =
  ticks :: nat

definition now :: "clock \<Rightarrow> 'a clocked_scheme \<Rightarrow> rat" where
  "now clk s = clk (ticks s)"

definition tick :: "'a clocked_scheme \<Rightarrow> 'a clocked_scheme" where
  "tick s = s\<lparr>ticks := Suc (ticks s)\<rparr>"

section \<open>Machines with an invariant\<close>

text \<open>
  The common shape of every component proof: a deterministic step on a state, an invariant
  each step keeps, and facts that, once true, stay true. The components interpret this
  locale on their own operations.
\<close>

fun run_ops :: "('s \<Rightarrow> 'op \<Rightarrow> 's) \<Rightarrow> 's \<Rightarrow> 'op list \<Rightarrow> 's" where
  "run_ops step s [] = s"
| "run_ops step s (x # xs) = run_ops step (step s x) xs"

lemma run_ops_append: "run_ops step s (xs @ ys) = run_ops step (run_ops step s xs) ys"
  by (induction xs arbitrary: s) auto

locale invariant_machine =
  fixes step :: "'s \<Rightarrow> 'op \<Rightarrow> 's"
    and inv :: "'s \<Rightarrow> bool"
  assumes inv_step: "inv s \<Longrightarrow> inv (step s x)"
begin

lemma inv_run: "inv s \<Longrightarrow> inv (run_ops step s xs)"
  by (induction xs arbitrary: s) (auto intro: inv_step)

lemma stable_run:
  assumes "\<And>s x. inv s \<Longrightarrow> P s \<Longrightarrow> P (step s x)" and "inv s" and "P s"
  shows "P (run_ops step s xs)"
  using assms(2,3)
  by (induction xs arbitrary: s) (auto intro: inv_step assms(1))

lemma mono_run:
  assumes "\<And>s x. inv s \<Longrightarrow> f s \<le> (f (step s x) :: 'b :: preorder)" and "inv s"
  shows "f s \<le> f (run_ops step s xs)"
  using assms(2)
proof (induction xs arbitrary: s)
  case Nil
  then show ?case by simp
next
  case (Cons x xs)
  from assms(1) [OF Cons.prems, of x] Cons.IH [OF inv_step [OF Cons.prems, of x]]
  show ?case by (simp add: order_trans)
qed

end

text \<open>
  One-shot events: a machine whose steps hand out tokens, where a token once handed out is
  spent for good. No run hands out a token twice.
\<close>

fun run_emits :: "('s \<Rightarrow> 'op \<Rightarrow> 's) \<Rightarrow> ('s \<Rightarrow> 'op \<Rightarrow> 'i list) \<Rightarrow> 's \<Rightarrow> 'op list \<Rightarrow> 'i list" where
  "run_emits step emit s [] = []"
| "run_emits step emit s (x # xs) = emit s x @ run_emits step emit (step s x) xs"

locale one_shot = invariant_machine +
  fixes emit :: "'s \<Rightarrow> 'op \<Rightarrow> 'i list"
    and spent :: "'s \<Rightarrow> 'i \<Rightarrow> bool"
  assumes emit_distinct: "inv s \<Longrightarrow> distinct (emit s x)"
    and emit_fresh: "inv s \<Longrightarrow> i \<in> set (emit s x) \<Longrightarrow> \<not> spent s i"
    and emit_spends: "inv s \<Longrightarrow> i \<in> set (emit s x) \<Longrightarrow> spent (step s x) i"
    and spent_stays: "inv s \<Longrightarrow> spent s i \<Longrightarrow> spent (step s x) i"
begin

lemma spent_run: "inv s \<Longrightarrow> spent s i \<Longrightarrow> spent (run_ops step s xs) i"
  by (rule stable_run [where P = "\<lambda>s. spent s i"]) (auto intro: spent_stays)

lemma spent_not_emitted: "inv s \<Longrightarrow> spent s i \<Longrightarrow> i \<notin> set (run_emits step emit s xs)"
  by (induction xs arbitrary: s) (auto dest: emit_fresh intro: inv_step spent_stays)

lemma emitted_once: "inv s \<Longrightarrow> distinct (run_emits step emit s xs)"
proof (induction xs arbitrary: s)
  case Nil
  then show ?case by simp
next
  case (Cons x xs)
  have "set (emit s x) \<inter> set (run_emits step emit (step s x) xs) = {}"
    using spent_not_emitted [OF inv_step [OF Cons.prems]] emit_spends [OF Cons.prems] by blast
  with Cons emit_distinct inv_step show ?case by auto
qed

end

end
