(* ===== verification/Py_Value.thy ===== *)
theory Py_Value
  imports Sfx_Prelude "HOL-Library.List_Lexorder" "HOL-Library.Char_ord"
begin

text \<open>
  The JSON-like values that tool-call arguments and results are made of, Python's
  \<open>==\<close> on them, and the key form the cache computes (\<^verbatim>\<open>_freeze\<close> and
  \<^verbatim>\<open>_canon\<close> in sfx/cache.py).

  A dict is an association list in insertion order; its keys are strings and, in a well
  formed value, distinct. A string is a list of bytes (the UTF-8 form of the Python str).
\<close>

datatype pyval =
    PNone
  | PBool bool
  | PInt int
  | PFloat rat
  | PStr string
  | PList "pyval list"
  | PTuple "pyval list"
  | PDict "(string \<times> pyval) list"

text \<open>Truth of a value in a condition, and \<^verbatim>\<open>None\<close> for an absent one.\<close>

fun py_truthy :: "pyval \<Rightarrow> bool" where
  "py_truthy PNone = False"
| "py_truthy (PBool b) = b"
| "py_truthy (PInt i) = (i \<noteq> 0)"
| "py_truthy (PFloat x) = (x \<noteq> 0)"
| "py_truthy (PStr s) = (s \<noteq> [])"
| "py_truthy (PList xs) = (xs \<noteq> [])"
| "py_truthy (PTuple xs) = (xs \<noteq> [])"
| "py_truthy (PDict kvs) = (kvs \<noteq> [])"

definition opt_val :: "pyval option \<Rightarrow> pyval" where
  "opt_val v = (case v of None \<Rightarrow> PNone | Some x \<Rightarrow> x)"

definition val_opt :: "pyval \<Rightarrow> pyval option" where
  "val_opt v = (if v = PNone then None else Some v)"

text \<open>\<^verbatim>\<open>f"{n}"\<close> of a natural number.\<close>

fun nat_digits :: "nat \<Rightarrow> nat \<Rightarrow> string" where
  "nat_digits 0 n = []"
| "nat_digits (Suc fuel) n =
     (if n < 10 then [char_of (48 + n)] else nat_digits fuel (n div 10) @ [char_of (48 + n mod 10)])"

definition nat_str :: "nat \<Rightarrow> string" where
  "nat_str n = nat_digits (Suc n) n"

section \<open>Equality\<close>

text \<open>
  Two Python values are \<open>==\<close> when their forms here are the same: numbers (booleans
  included) compare by value, lists and tuples by position and kind, dicts as maps.
\<close>

datatype pyeq =
    ENone
  | ENum rat
  | EStr string
  | EList "pyeq list"
  | ETuple "pyeq list"
  | EDict "(string \<times> pyeq) list"

primrec eq_form :: "pyval \<Rightarrow> pyeq" where
  "eq_form PNone = ENone"
| "eq_form (PBool b) = ENum (if b then 1 else 0)"
| "eq_form (PInt i) = ENum (of_int i)"
| "eq_form (PFloat x) = ENum x"
| "eq_form (PStr s) = EStr s"
| "eq_form (PList xs) = EList (map eq_form xs)"
| "eq_form (PTuple xs) = ETuple (map eq_form xs)"
| "eq_form (PDict kvs) = EDict (sort_key fst (map (map_prod id eq_form) kvs))"

definition py_eq :: "pyval \<Rightarrow> pyval \<Rightarrow> bool" where
  "py_eq a b \<longleftrightarrow> eq_form a = eq_form b"

lemma py_eq_refl [simp]: "py_eq a a"
  by (simp add: py_eq_def)

lemma py_eq_sym: "py_eq a b \<Longrightarrow> py_eq b a"
  by (simp add: py_eq_def)

lemma py_eq_trans [trans]: "py_eq a b \<Longrightarrow> py_eq b c \<Longrightarrow> py_eq a c"
  by (simp add: py_eq_def)

lemma py_eq_PStr [simp]: "py_eq (PStr a) (PStr b) \<longleftrightarrow> a = b"
  by (simp add: py_eq_def)

section \<open>Cache keys\<close>

text \<open>
  \<^verbatim>\<open>_freeze\<close> turns a dict into a sorted tuple of (key, frozen value) pairs and a list or
  tuple into a tuple. The result is used as a dict key, so what matters of an atom is its
  equality class (\<open>1\<close>, \<open>1.0\<close> and \<open>True\<close> are one key).
\<close>

datatype pykey =
    KNone
  | KNum rat
  | KStr string
  | KTuple "pykey list"

primrec freeze :: "pyval \<Rightarrow> pykey" where
  "freeze PNone = KNone"
| "freeze (PBool b) = KNum (if b then 1 else 0)"
| "freeze (PInt i) = KNum (of_int i)"
| "freeze (PFloat x) = KNum x"
| "freeze (PStr s) = KStr s"
| "freeze (PList xs) = KTuple (map freeze xs)"
| "freeze (PTuple xs) = KTuple (map freeze xs)"
| "freeze (PDict kvs) =
     KTuple (map (\<lambda>(k, x). KTuple [KStr k, x]) (sort_key fst (map (map_prod id freeze) kvs)))"

definition canon :: "pyval \<Rightarrow> pykey" where
  "canon args = freeze args"

text \<open>The key form is a function of the equality form, so equal values get one key.\<close>

primrec key_of_eq :: "pyeq \<Rightarrow> pykey" where
  "key_of_eq ENone = KNone"
| "key_of_eq (ENum x) = KNum x"
| "key_of_eq (EStr s) = KStr s"
| "key_of_eq (EList xs) = KTuple (map key_of_eq xs)"
| "key_of_eq (ETuple xs) = KTuple (map key_of_eq xs)"
| "key_of_eq (EDict kvs) =
     KTuple (map (\<lambda>(k, x). KTuple [KStr k, x]) (map (map_prod id key_of_eq) kvs))"

lemma insort_key_map:
  "insort_key f (g x) (map g xs) = map g (insort_key (\<lambda>y. f (g y)) x xs)"
  by (induction xs) auto

lemma sort_key_map: "sort_key f (map g xs) = map g (sort_key (\<lambda>y. f (g y)) xs)"
  by (induction xs) (simp_all add: insort_key_map)

lemma sort_fst_map_prod:
  "sort_key fst (map (map_prod id g) kvs) = map (map_prod id g) (sort_key fst kvs)"
  by (simp add: sort_key_map)

lemma freeze_eq_form: "freeze v = key_of_eq (eq_form v)"
proof (induction v)
  case (PDict kvs)
  then have "map (map_prod id freeze) (sort_key fst kvs) =
      map (map_prod id key_of_eq \<circ> map_prod id eq_form) (sort_key fst kvs)"
    by (auto simp: map_prod_def snds.simps split: prod.splits)
  then show ?case by (simp add: sort_fst_map_prod)
qed auto

lemma py_eq_canon: "py_eq a b \<Longrightarrow> canon a = canon b"
  by (simp add: py_eq_def canon_def freeze_eq_form)

section \<open>Dicts of strings\<close>

text \<open>
  The arguments the program itself builds, \<open>{"cmd": s}\<close> and
  \<open>{"path": p, "contents": c}\<close>, are dicts from strings to strings.
\<close>

definition str_dict :: "(string \<times> string) list \<Rightarrow> pyval" where
  "str_dict kvs = PDict (map (\<lambda>(k, s). (k, PStr s)) kvs)"

lemma freeze_str_dict:
  "freeze (str_dict kvs) = KTuple (map (\<lambda>(k, s). KTuple [KStr k, KStr s]) (sort_key fst kvs))"
proof -
  have "map (map_prod id freeze) (map (\<lambda>(k, s). (k, PStr s)) kvs) = map (map_prod id KStr) kvs"
    by auto
  then show ?thesis
    by (simp add: str_dict_def sort_fst_map_prod case_prod_unfold comp_def del: map_map)
      (simp add: case_prod_unfold)
qed

lemma map_pair_key_inj:
  "map (\<lambda>(k, s). KTuple [KStr k, KStr s]) xs = map (\<lambda>(k, s). KTuple [KStr k, KStr s]) ys \<longleftrightarrow> xs = ys"
proof -
  have "inj (\<lambda>(k, s). KTuple [KStr k, KStr s])"
    by (auto intro!: injI)
  then show ?thesis by (simp add: inj_map_eq_map)
qed

lemma sort_key_fst_eq_iff:
  assumes "distinct (map fst xs)" and "distinct (map fst ys)"
  shows "sort_key fst xs = sort_key fst ys \<longleftrightarrow> map_of xs = map_of ys"
proof
  assume "sort_key fst xs = sort_key fst ys"
  then have "set xs = set ys" by (metis set_sort)
  with assms show "map_of xs = map_of ys" by (metis map_of_inject_set)
next
  assume "map_of xs = map_of ys"
  with assms have "set xs = set ys" by (metis map_of_inject_set)
  moreover have "inj_on fst (set xs)" "distinct xs" "inj_on fst (set ys)" "distinct ys"
    using assms by (simp_all add: distinct_map)
  ultimately show "sort_key fst xs = sort_key fst ys"
    by (intro map_sorted_distinct_set_unique [of fst]) (simp_all add: distinct_map)
qed

section \<open>Properties\<close>

lemma freeze_str_dict_inj:
  "freeze (str_dict xs) = freeze (str_dict ys) \<longleftrightarrow> sort_key fst xs = sort_key fst ys"
  by (simp only: freeze_str_dict pykey.inject map_pair_key_inj)

text \<open>
  For the arguments the program builds itself, dicts of strings, the cache key is exact:
  two calls share a key just when they have the same entries.
\<close>

theorem canon_exact_on_strings:
  "distinct (map fst xs) \<Longrightarrow> distinct (map fst ys) \<Longrightarrow>
   canon (str_dict xs) = canon (str_dict ys) \<longleftrightarrow> map_of xs = map_of ys"
  by (simp add: canon_def freeze_str_dict_inj sort_key_fst_eq_iff)

theorem canon_exact_on_strings_witness:
  "canon (str_dict [(''path'', ''a''), (''contents'', ''b'')]) =
     canon (str_dict [(''contents'', ''b''), (''path'', ''a'')])"
proof -
  have "map_of [(''path'', ''a''), (''contents'', ''b'')] =
      map_of [(''contents'', ''b''), (''path'', ''a'')]" by auto
  then show ?thesis
    using canon_exact_on_strings [of "[(''path'', ''a''), (''contents'', ''b'')]"
        "[(''contents'', ''b''), (''path'', ''a'')]"] by simp
qed


end
