(* ===== verification/Schema.thy ===== *)
theory Schema
  imports Py_Value
begin

text \<open>
  sfx/schema.py and sfx/verbs.py: the policies and terminal states, tool events with the
  validation of \<^verbatim>\<open>__post_init__\<close>, the prediction context, adapter profiles and what
  a profile degrades to, and the policy table.
\<close>

section \<open>Policies and terminal states\<close>

definition POLICIES :: "string set" where
  "POLICIES = {''free'', ''fork'', ''never''}"

definition SPECULABLE :: "string set" where
  "SPECULABLE = {''free'', ''fork''}"

definition STREAM_ONLY :: "string set" where
  "STREAM_ONLY = {''fork''}"

definition HIT_TERMINALS :: "string set" where
  "HIT_TERMINALS = {''hit_completed'', ''hit_promoted''}"

definition TERMINAL_STATES :: "string set" where
  "TERMINAL_STATES = {''hit_completed'', ''hit_promoted'', ''miss'', ''discarded'',
     ''preempted'', ''epoch_expired''}"

section \<open>Tool events\<close>

record outcome =
  oc_kind :: string
  oc_status :: string

definition klass :: "outcome \<Rightarrow> string" where
  "klass oc = oc_kind oc @ '':'' @ oc_status oc"

record tool_event =
  te_t :: rat
  te_kind :: string
  te_verb :: string
  te_role :: string
  te_epoch :: nat
  te_args :: pyval
  te_outcome :: "outcome option"

text \<open>The dataclass constructor: \<^verbatim>\<open>__post_init__\<close> refuses an unknown policy.\<close>

definition mk_tool_event :: "tool_event \<Rightarrow> py_error + tool_event" where
  "mk_tool_event e =
     (if te_verb e \<notin> POLICIES then Inl (ValueError (''unknown policy: '' @ te_verb e)) else Inr e)"

definition outcome_to_dict :: "outcome option \<Rightarrow> pyval" where
  "outcome_to_dict oc =
     (case oc of None \<Rightarrow> PNone
      | Some c \<Rightarrow> PDict [(''kind'', PStr (oc_kind c)), (''status'', PStr (oc_status c))])"

definition tool_event_to_dict :: "tool_event \<Rightarrow> (string, pyval) dict" where
  "tool_event_to_dict e =
     [(''t'', PFloat (te_t e)), (''kind'', PStr (te_kind e)), (''verb'', PStr (te_verb e)),
      (''role'', PStr (te_role e)), (''epoch'', PInt (int (te_epoch e))), (''args'', te_args e),
      (''outcome'', outcome_to_dict (te_outcome e))]"

text \<open>
  \<^verbatim>\<open>from_dict\<close>: the nested outcome first, then the constructor. Keyword arguments
  that are unknown or missing are a TypeError, as is a value whose type the record cannot
  hold (Python would store it and fail later).
\<close>

definition outcome_from_dict :: "pyval \<Rightarrow> py_error + outcome option" where
  "outcome_from_dict v =
     (case v of
        PNone \<Rightarrow> Inr None
      | PDict d \<Rightarrow>
          (if set (map fst d) \<noteq> {''kind'', ''status''} then Inl TypeError
           else case (dict_get d ''kind'', dict_get d ''status'') of
             (Some (PStr k), Some (PStr st)) \<Rightarrow> Inr (Some \<lparr>oc_kind = k, oc_status = st\<rparr>)
           | _ \<Rightarrow> Inl TypeError)
      | _ \<Rightarrow> Inl TypeError)"

definition tool_event_from_dict :: "(string, pyval) dict \<Rightarrow> py_error + tool_event" where
  "tool_event_from_dict d =
     (case outcome_from_dict (dict_get_default d ''outcome'' PNone) of
        Inl e \<Rightarrow> Inl e
      | Inr oc \<Rightarrow>
          if \<not> set (map fst d) \<subseteq> {''t'', ''kind'', ''verb'', ''role'', ''epoch'', ''args'', ''outcome''}
          then Inl TypeError
          else case (dict_get d ''t'', dict_get d ''kind'', dict_get d ''verb'',
                     dict_get d ''role'', dict_get d ''epoch'') of
            (Some (PFloat t), Some (PStr k), Some (PStr v), Some (PStr r), Some (PInt ep)) \<Rightarrow>
              if ep < 0 then Inl TypeError
              else mk_tool_event \<lparr>te_t = t, te_kind = k, te_verb = v, te_role = r,
                te_epoch = nat ep, te_args = dict_get_default d ''args'' (PDict []),
                te_outcome = oc\<rparr>
          | _ \<Rightarrow> Inl TypeError)"

lemma outcome_dict_roundtrip: "outcome_from_dict (outcome_to_dict oc) = Inr oc"
  by (cases oc) (auto simp: outcome_to_dict_def outcome_from_dict_def)

lemma tool_event_from_to_dict:
  "tool_event_from_dict (tool_event_to_dict e) = mk_tool_event e"
proof -
  have "dict_get_default (tool_event_to_dict e) ''outcome'' PNone = outcome_to_dict (te_outcome e)"
    "dict_get_default (tool_event_to_dict e) ''args'' (PDict []) = te_args e"
    by (simp_all add: dict_get_default_def tool_event_to_dict_def)
  then show ?thesis
    by (cases e) (simp add: tool_event_from_dict_def outcome_dict_roundtrip tool_event_to_dict_def
        dict_get_default_def)
qed

text \<open>
  \<^verbatim>\<open>context_key\<close>: the role and outcome of the last event and the kinds of the last
  \<open>k\<close> (all of them for \<open>k = 0\<close>, since \<open>xs[-0:]\<close> is \<open>xs\<close>).
\<close>

definition last_kinds :: "tool_event list \<Rightarrow> nat \<Rightarrow> string list" where
  "last_kinds es k = map te_kind (if k = 0 then es else drop (length es - k) es)"

definition context_key ::
  "tool_event list \<Rightarrow> nat \<Rightarrow> bool \<Rightarrow> py_error + (string \<times> string list \<times> string)" where
  "context_key es k outcome_visible =
     (if es = [] then Inl IndexError
      else if outcome_visible then
        (case te_outcome (last es) of
           None \<Rightarrow> Inl AttributeError
         | Some oc \<Rightarrow> Inr (te_role (last es), last_kinds es k, klass oc))
      else Inr (te_role (last es), last_kinds es k, ''?''))"

section \<open>Profiles\<close>

definition INTERCEPTION_GRADES :: "string set" where
  "INTERCEPTION_GRADES = {''full'', ''envelope'', ''additive'', ''capture''}"

definition STATE_MODELS :: "string set" where
  "STATE_MODELS = {''fs-only'', ''capture''}"

record profile =
  emission_format :: string
  state_model :: string
  interception_grade :: string
  stream_visibility :: "string option"
  fork_substrate :: string

definition mk_profile :: "profile \<Rightarrow> py_error + profile" where
  "mk_profile p =
     (if state_model p \<notin> STATE_MODELS
        then Inl (ValueError (''unsupported state model: '' @ state_model p))
      else if fork_substrate p \<notin> {''clonefile'', ''none''}
        then Inl (ValueError (''unsupported fork substrate: '' @ fork_substrate p))
      else if interception_grade p \<notin> INTERCEPTION_GRADES
        then Inl (ValueError (''unknown interception grade: '' @ interception_grade p))
      else Inr p)"

definition streams :: "profile \<Rightarrow> bool" where
  "streams p \<longleftrightarrow> stream_visibility p \<notin> {Some ''none'', None}"

definition intercepts :: "profile \<Rightarrow> bool" where
  "intercepts p \<longleftrightarrow> interception_grade p \<in> {''full'', ''envelope''}"

definition profile_outcome_visible :: "profile \<Rightarrow> bool" where
  "profile_outcome_visible p \<longleftrightarrow> state_model p \<noteq> ''capture''"

definition modes :: "profile \<Rightarrow> string list" where
  "modes p =
     [if streams p then ''patch-chains'' else ''get-only'',
      if intercepts p then ''intercept'' else ''additive-tool'',
      if profile_outcome_visible p then ''outcome-conditioned'' else ''outcome-unconditioned'']"

definition degradation_mode :: "profile \<Rightarrow> py_error + string" where
  "degradation_mode p =
     (if interception_grade p = ''capture'' then Inr ''replay''
      else if \<not> streams p then Inr ''get-only''
      else case dict_get [(''full'', ''intercept''), (''envelope'', ''intercept+verify''),
                          (''additive'', ''fallback'')] (interception_grade p) of
             None \<Rightarrow> Inl (KeyError (interception_grade p))
           | Some m \<Rightarrow> Inr m)"

definition PROFILES :: "(string, profile) dict" where
  "PROFILES =
     [(''claude-code'', \<lparr>emission_format = ''json-stream'', state_model = ''fs-only'',
         interception_grade = ''envelope'', stream_visibility = Some ''full'',
         fork_substrate = ''clonefile''\<rparr>),
      (''codex'', \<lparr>emission_format = ''json-stream'', state_model = ''fs-only'',
         interception_grade = ''additive'', stream_visibility = Some ''full'',
         fork_substrate = ''clonefile''\<rparr>),
      (''capture'', \<lparr>emission_format = ''replay'', state_model = ''capture'',
         interception_grade = ''capture'', stream_visibility = Some ''none'',
         fork_substrate = ''none''\<rparr>)]"

text \<open>
  A profile that passed its constructor always has a degradation mode, and the mode says
  exactly whether requests are intercepted.
\<close>

lemma mk_profile_Inr: "mk_profile p = Inr q \<Longrightarrow>
    q = p \<and> interception_grade p \<in> INTERCEPTION_GRADES \<and> state_model p \<in> STATE_MODELS"
  by (auto simp: mk_profile_def split: if_splits)

lemma degradation_mode_total:
  "mk_profile p = Inr q \<Longrightarrow> \<exists>m. degradation_mode q = Inr m"
  by (drule mk_profile_Inr) (auto simp: degradation_mode_def INTERCEPTION_GRADES_def)

lemma PROFILES_valid: "(n, p) \<in> set PROFILES \<Longrightarrow> mk_profile p = Inr p"
  by (auto simp: PROFILES_def mk_profile_def STATE_MODELS_def INTERCEPTION_GRADES_def)

section \<open>The policy table (sfx/verbs.py)\<close>

datatype annotation = DECLARED | INFERRED | VALIDATED

primrec annotation_value :: "annotation \<Rightarrow> nat" where
  "annotation_value DECLARED = 1"
| "annotation_value INFERRED = 2"
| "annotation_value VALIDATED = 3"

text \<open>\<^verbatim>\<open>Annotation\<close> is an IntEnum: its members are ordered by their values.\<close>

instantiation annotation :: linorder
begin

definition less_eq_annotation :: "annotation \<Rightarrow> annotation \<Rightarrow> bool" where
  "a \<le> b \<longleftrightarrow> annotation_value a \<le> annotation_value b"

definition less_annotation :: "annotation \<Rightarrow> annotation \<Rightarrow> bool" where
  "a < b \<longleftrightarrow> annotation_value a < annotation_value b"

instance
proof
  fix a b :: annotation
  show "a \<le> b \<Longrightarrow> b \<le> a \<Longrightarrow> a = b"
    by (cases a; cases b) (auto simp: less_eq_annotation_def)
qed (auto simp: less_eq_annotation_def less_annotation_def)

end

record policy =
  writes_from_stream_only :: bool
  commit :: string

definition POLICY :: "(string, policy) dict" where
  "POLICY =
     [(''free'', \<lparr>writes_from_stream_only = False, commit = ''serve''\<rparr>),
      (''fork'', \<lparr>writes_from_stream_only = True, commit = ''diff-apply-under-epoch''\<rparr>),
      (''never'', \<lparr>writes_from_stream_only = False, commit = ''none''\<rparr>)]"

text \<open>The module's \<^verbatim>\<open>assert set(POLICY) == POLICIES\<close>, and the agreement of the
  table with \<^verbatim>\<open>STREAM_ONLY\<close>.\<close>

lemma POLICY_keys: "set (map fst POLICY) = POLICIES"
  by (auto simp: POLICY_def POLICIES_def)

lemma POLICY_stream_only:
  "dict_get POLICY v = Some p \<Longrightarrow> writes_from_stream_only p \<longleftrightarrow> v \<in> STREAM_ONLY"
  by (auto simp: POLICY_def STREAM_ONLY_def split: if_splits)

fun valid_prefix :: "string list \<Rightarrow> string list" where
  "valid_prefix [] = []"
| "valid_prefix (verb # chain) = (if verb = ''never'' then [] else verb # valid_prefix chain)"

lemma valid_prefix_takeWhile: "valid_prefix chain = takeWhile (\<lambda>v. v \<noteq> ''never'') chain"
  by (induction chain) auto

end
