(* ===== verification/Ledger.thy ===== *)
theory Ledger
  imports Schema
begin

text \<open>
  sfx/ledger.py: the record of what happened to each speculation. A speculation is
  launched once (\<open>spec_launch\<close>) and ends at most once (\<open>spec_end\<close>), with the time it
  saved or wasted added to the totals. Ids are \<^verbatim>\<open>f"spec{n}"\<close> in the code; the model
  keeps the number.
\<close>

datatype spec_id = Spec nat

datatype lrec =
    LEvent (lrec_id: spec_id) string "(string \<times> pyval) list"
  | LEnd (lrec_id: spec_id) string (lrec_saved: rat) (lrec_wasted: rat)
where
  "lrec_saved (LEvent _ _ _) = 0"
| "lrec_wasted (LEvent _ _ _) = 0"

record ledger = clocked +
  records :: "lrec list"
  terminated :: "spec_id set"
  total_saved_ms :: rat
  total_wasted_ms :: rat

definition init_ledger :: ledger where
  "init_ledger = \<lparr>ticks = 0, records = [], terminated = {}, total_saved_ms = 0, total_wasted_ms = 0\<rparr>"

definition ledger_record ::
  "spec_id \<Rightarrow> string \<Rightarrow> (string \<times> pyval) list \<Rightarrow> 'a ledger_scheme \<Rightarrow> 'a ledger_scheme" where
  "ledger_record sid ev fs s = s\<lparr>records := records s @ [LEvent sid ev fs]\<rparr>"

definition terminal ::
  "spec_id \<Rightarrow> string \<Rightarrow> rat \<Rightarrow> rat \<Rightarrow> 'a ledger_scheme \<Rightarrow> py_error + 'a ledger_scheme" where
  "terminal sid state saved wasted s =
     (if state \<notin> TERMINAL_STATES then Inl (ValueError (''unknown terminal state: '' @ state))
      else if sid \<in> terminated s then Inl (ValueError ''speculation already terminal'')
      else Inr (s\<lparr>terminated := insert sid (terminated s),
                  total_saved_ms := total_saved_ms s + saved,
                  total_wasted_ms := total_wasted_ms s + wasted,
                  records := records s @ [LEnd sid state saved wasted]\<rparr>))"

text \<open>\<^verbatim>\<open>terminal_counts\<close>: a Counter of the terminal states, in first-seen order.\<close>

definition counter_add :: "'k \<Rightarrow> nat \<Rightarrow> ('k, nat) dict \<Rightarrow> ('k, nat) dict" where
  "counter_add k n c = dict_set k (dict_get_default c k 0 + n) c"

fun is_end :: "lrec \<Rightarrow> bool" where
  "is_end (LEnd _ _ _ _) = True"
| "is_end (LEvent _ _ _) = False"

fun end_state :: "lrec \<Rightarrow> string" where
  "end_state (LEnd _ st _ _) = st"
| "end_state (LEvent _ ev _) = ev"

definition terminal_counts :: "'a ledger_scheme \<Rightarrow> (string, nat) dict" where
  "terminal_counts s = fold (\<lambda>r. counter_add (end_state r) 1) (filter is_end (records s)) []"

section \<open>The ledger's invariant\<close>

definition ended_ids :: "'a ledger_scheme \<Rightarrow> spec_id list" where
  "ended_ids s = map lrec_id (filter is_end (records s))"

definition ledger_inv :: "'a ledger_scheme \<Rightarrow> bool" where
  "ledger_inv s \<longleftrightarrow>
     distinct (ended_ids s) \<and> set (ended_ids s) = terminated s \<and>
     total_saved_ms s = sum_list (map lrec_saved (records s)) \<and>
     total_wasted_ms s = sum_list (map lrec_wasted (records s)) \<and>
     (\<forall>r \<in> set (records s). is_end r \<longrightarrow> end_state r \<in> TERMINAL_STATES)"

lemma ledger_inv_init: "ledger_inv init_ledger"
  by (simp add: ledger_inv_def init_ledger_def ended_ids_def)

lemma ledger_inv_cong:
  "records s' = records s \<Longrightarrow> terminated s' = terminated s \<Longrightarrow>
   total_saved_ms s' = total_saved_ms s \<Longrightarrow> total_wasted_ms s' = total_wasted_ms s \<Longrightarrow>
   ledger_inv s' = ledger_inv s"
  by (simp add: ledger_inv_def ended_ids_def)

lemma ledger_record_frame [frame_simps]:
  "ticks (ledger_record sid ev fs s) = ticks s"
  "terminated (ledger_record sid ev fs s) = terminated s"
  "total_saved_ms (ledger_record sid ev fs s) = total_saved_ms s"
  "total_wasted_ms (ledger_record sid ev fs s) = total_wasted_ms s"
  "records (ledger_record sid ev fs s) = records s @ [LEvent sid ev fs]"
  by (simp_all add: ledger_record_def)

lemma ended_ids_append:
  "records s' = records s @ [r] \<Longrightarrow>
   ended_ids s' = ended_ids s @ (if is_end r then [lrec_id r] else [])"
  by (simp add: ended_ids_def)

lemma ledger_inv_event:
  assumes "records s' = records s @ [LEvent sid ev fs]" "terminated s' = terminated s"
    "total_saved_ms s' = total_saved_ms s" "total_wasted_ms s' = total_wasted_ms s"
  shows "ledger_inv s' = ledger_inv s"
  using assms ended_ids_append [OF assms(1)] by (simp add: ledger_inv_def ball_Un)

lemma ledger_inv_record [simp]: "ledger_inv (ledger_record sid ev fs s) = ledger_inv s"
  by (rule ledger_inv_event) (simp_all add: frame_simps)

text \<open>When \<^verbatim>\<open>terminal\<close> raises, and what it does when it does not.\<close>

lemma terminal_Inr_iff:
  "(\<exists>s'. terminal sid st sv ws s = Inr s') \<longleftrightarrow> st \<in> TERMINAL_STATES \<and> sid \<notin> terminated s"
  by (auto simp: terminal_def)

lemma terminal_ok:
  "st \<in> TERMINAL_STATES \<Longrightarrow> sid \<notin> terminated s \<Longrightarrow>
   terminal sid st sv ws s =
     Inr (s\<lparr>terminated := insert sid (terminated s),
            total_saved_ms := total_saved_ms s + sv,
            total_wasted_ms := total_wasted_ms s + ws,
            records := records s @ [LEnd sid st sv ws]\<rparr>)"
  by (simp add: terminal_def)

lemma terminal_InrD:
  "terminal sid st sv ws s = Inr s' \<Longrightarrow>
   sid \<notin> terminated s \<and> st \<in> TERMINAL_STATES \<and>
   s' = s\<lparr>terminated := insert sid (terminated s),
          total_saved_ms := total_saved_ms s + sv,
          total_wasted_ms := total_wasted_ms s + ws,
          records := records s @ [LEnd sid st sv ws]\<rparr>"
  by (auto simp: terminal_def split: if_splits)

lemma ledger_inv_terminal:
  assumes "ledger_inv s" and "terminal sid st sv ws s = Inr s'"
  shows "ledger_inv s'"
proof -
  from terminal_InrD [OF assms(2)] have
    t: "sid \<notin> terminated s" "st \<in> TERMINAL_STATES"
      "records s' = records s @ [LEnd sid st sv ws]"
      "terminated s' = insert sid (terminated s)"
      "total_saved_ms s' = total_saved_ms s + sv" "total_wasted_ms s' = total_wasted_ms s + ws"
    by simp_all
  have "ended_ids s' = ended_ids s @ [sid]"
    using ended_ids_append [OF t(3)] by simp
  with t assms(1) show ?thesis by (auto simp: ledger_inv_def)
qed

lemma terminal_states_ok [simp]:
  "''hit_completed'' \<in> TERMINAL_STATES" "''hit_promoted'' \<in> TERMINAL_STATES"
  "''discarded'' \<in> TERMINAL_STATES" "''preempted'' \<in> TERMINAL_STATES"
  "''epoch_expired'' \<in> TERMINAL_STATES"
  by (simp_all add: TERMINAL_STATES_def)

text \<open>The counter counts: each state maps to the number of its \<open>spec_end\<close> records.\<close>

lemma counter_add_get: "dict_get_default (counter_add k n c) k' 0 =
    dict_get_default c k' 0 + (if k' = k then n else 0)"
  by (simp add: counter_add_def)

lemma terminal_counts_fold:
  "dict_get_default (fold (\<lambda>r. counter_add (f r) 1) rs c) k 0 =
   dict_get_default c k 0 + length (filter (\<lambda>r. f r = k) rs)"
  by (induction rs arbitrary: c) (auto simp: counter_add_get)

lemma terminal_counts_correct:
  "dict_get_default (terminal_counts s) k 0 =
   length (filter (\<lambda>r. is_end r \<and> end_state r = k) (records s))"
  by (simp add: terminal_counts_def terminal_counts_fold [simplified] conj_commute)

section \<open>The interface the ledger's clients use\<close>

text \<open>
  Cache, executor and daemon end speculations only behind the test
  \<^verbatim>\<open>spec_id not in ledger._terminated\<close>. The locale states what they need of the ledger,
  and proves once that a guarded run of endings never raises, ends exactly the ids it was
  given, and changes the totals by exactly what it reported.
\<close>

locale once_ledger =
  fixes ended :: "'s \<Rightarrow> 'i set"
    and finish_one :: "'i \<Rightarrow> rat \<Rightarrow> 's \<Rightarrow> 'e + 's"
    and total :: "'s \<Rightarrow> rat"
  assumes finish_fresh: "i \<notin> ended s \<Longrightarrow>
      \<exists>s'. finish_one i w s = Inr s' \<and> ended s' = insert i (ended s) \<and> total s' = total s + w"
    and finish_again: "i \<in> ended s \<Longrightarrow> \<exists>e. finish_one i w s = Inl e"
begin

lemma guarded_run:
  "\<exists>s'. fold_res (\<lambda>(i, w) s. if i \<notin> ended s then finish_one i w s else Inr s) iws s = Inr s' \<and>
        ended s' = ended s \<union> fst ` set iws"
proof (induction iws arbitrary: s)
  case Nil
  then show ?case by simp
next
  case (Cons p iws)
  obtain i w where p: "p = (i, w)" by (cases p)
  show ?case
  proof (cases "i \<in> ended s")
    case True
    with Cons.IH [of s] p show ?thesis by auto
  next
    case False
    then obtain s1 where s1: "finish_one i w s = Inr s1" "ended s1 = insert i (ended s)"
      using finish_fresh by blast
    with Cons.IH [of s1] p False show ?thesis by auto
  qed
qed

lemma no_second_end: "finish_one i w s = Inr s' \<Longrightarrow> \<exists>e. finish_one i w' s' = Inl e"
  by (metis finish_again finish_fresh insertI1 sum.distinct(1) sum.inject(2))

end

interpretation wasted: once_ledger
  "terminated :: 'a ledger_scheme \<Rightarrow> spec_id set"
  "\<lambda>i w. terminal i ''epoch_expired'' 0 w" total_wasted_ms
  by unfold_locales (auto simp: terminal_def)

interpretation saved: once_ledger
  "terminated :: 'a ledger_scheme \<Rightarrow> spec_id set"
  "\<lambda>i w. terminal i ''hit_completed'' w 0" total_saved_ms
  by unfold_locales (auto simp: terminal_def)

end
