(* ===== verification/Cache.thy ===== *)
theory Cache
  imports Ledger
begin

text \<open>
  sfx/cache.py: the store of speculative results. \<^verbatim>\<open>Job\<close> objects are shared with the
  requests that claimed them, so they live in a store of their own (\<open>job_objs\<close>, a job's
  place in it is its identity) and the dict \<open>jobs\<close> maps keys to places. Each operation
  runs under the cache's lock, so it is one step of the machine at the end of the theory;
  waiting for \<^verbatim>\<open>job.done\<close> happens between steps.
\<close>

section \<open>State\<close>

type_synonym slot = "string \<times> pykey \<times> nat"
type_synonym job_key = "string \<times> pykey \<times> nat \<times> nat"

record job =
  jspec :: spec_id
  jkind :: string
  jargs :: pyval
  jocc :: nat
  jepoch :: nat
  jlaunch :: rat
  jduration :: "rat option"
  jresult :: pyval
  jsync :: bool
  jdone :: bool

definition mk_job ::
  "spec_id \<Rightarrow> string \<Rightarrow> pyval \<Rightarrow> nat \<Rightarrow> nat \<Rightarrow> rat \<Rightarrow> bool \<Rightarrow> job" where
  "mk_job sid kind args occ ep launch sync =
     \<lparr>jspec = sid, jkind = kind, jargs = args, jocc = occ, jepoch = ep, jlaunch = launch,
      jduration = None, jresult = PNone, jsync = sync, jdone = False\<rparr>"

definition job_key :: "job \<Rightarrow> job_key" where
  "job_key j = (jkind j, canon (jargs j), jocc j, jepoch j)"

definition job_slot :: "job \<Rightarrow> slot" where
  "job_slot j = (jkind j, canon (jargs j), jepoch j)"

text \<open>\<^verbatim>\<open>done_by\<close>; a job without a duration would raise, which its only caller excludes.\<close>

definition done_by :: "job \<Rightarrow> rat \<Rightarrow> rat \<Rightarrow> bool" where
  "done_by j dur t \<longleftrightarrow> jdone j \<and> jlaunch j + dur \<le> t"

record cache = ledger +
  epoch :: nat
  jobs :: "(job_key, nat) dict"
  put_counts :: "(slot, nat) dict"
  serve_counts :: "(slot, nat) dict"
  spec_n :: nat
  job_objs :: "job list"

definition init_cache :: cache where
  "init_cache = ledger.extend init_ledger
     \<lparr>epoch = 0, jobs = [], put_counts = [], serve_counts = [], spec_n = 0, job_objs = []\<rparr>"

abbreviation job_at :: "'a cache_scheme \<Rightarrow> nat \<Rightarrow> job" where
  "job_at s i \<equiv> job_objs s ! i"

abbreviation puts :: "'a cache_scheme \<Rightarrow> slot \<Rightarrow> nat" where
  "puts s sl \<equiv> dict_get_default (put_counts s) sl 0"

abbreviation serves :: "'a cache_scheme \<Rightarrow> slot \<Rightarrow> nat" where
  "serves s sl \<equiv> dict_get_default (serve_counts s) sl 0"

section \<open>Operations\<close>

definition reserve ::
  "string \<Rightarrow> pyval \<Rightarrow> rat \<Rightarrow> bool \<Rightarrow> 'a cache_scheme \<Rightarrow> (job_key \<times> spec_id) \<times> 'a cache_scheme" where
  "reserve kind args launch sync s =
     (let sl = (kind, canon args, epoch s);
          occ = puts s sl;
          sid = Spec (spec_n s);
          j = mk_job sid kind args occ (epoch s) launch sync
      in ((job_key j, sid),
          ledger_record sid ''spec_launch'' [(''lane'', PStr ''spec'')]
            (s\<lparr>put_counts := dict_set sl (occ + 1) (put_counts s),
               spec_n := spec_n s + 1,
               job_objs := job_objs s @ [j],
               jobs := dict_set (job_key j) (length (job_objs s)) (jobs s)\<rparr>)))"

text \<open>The first entry of the dict whose job has the id, as \<^verbatim>\<open>next(... , None)\<close> finds it.\<close>

definition find_spec :: "spec_id \<Rightarrow> 'a cache_scheme \<Rightarrow> (job_key \<times> nat) option" where
  "find_spec sid s = find (\<lambda>(k, i). jspec (job_at s i) = sid) (jobs s)"

definition complete :: "spec_id \<Rightarrow> pyval \<Rightarrow> rat \<Rightarrow> 'a cache_scheme \<Rightarrow> 'a cache_scheme" where
  "complete sid result duration s =
     (case find_spec sid s of
        None \<Rightarrow> s
      | Some (k, i) \<Rightarrow> s\<lparr>job_objs := (job_objs s)[i :=
          (job_at s i)\<lparr>jresult := result, jduration := Some duration, jdone := True\<rparr>]\<rparr>)"

definition put ::
  "clock \<Rightarrow> string \<Rightarrow> pyval \<Rightarrow> rat \<Rightarrow> pyval \<Rightarrow> rat option \<Rightarrow> bool \<Rightarrow> 'a cache_scheme \<Rightarrow>
   (job_key \<times> spec_id) \<times> 'a cache_scheme" where
  "put clk kind args duration result launch sync s =
     (let (l, s1) = (case launch of None \<Rightarrow> (now clk s, tick s) | Some l \<Rightarrow> (l, s));
          ((key, sid), s2) = reserve kind args l sync s1
      in ((key, sid), complete sid result duration s2))"

text \<open>
  The search loop of \<^verbatim>\<open>claim\<close>: from \<open>occ\<close> up to the number of reservations, the first
  occurrence that still has a job, and where the search stopped.
\<close>

function claim_scan :: "(nat \<Rightarrow> nat option) \<Rightarrow> nat \<Rightarrow> nat \<Rightarrow> nat \<times> nat option" where
  "claim_scan look occ bound =
     (if occ < bound
      then case look occ of Some i \<Rightarrow> (occ, Some i) | None \<Rightarrow> claim_scan look (occ + 1) bound
      else (occ, None))"
  by pat_completeness auto
termination
  by (relation "measure (\<lambda>(look, occ, bound). bound - occ)") auto

declare claim_scan.simps [simp del]

definition claim :: "string \<Rightarrow> pyval \<Rightarrow> 'a cache_scheme \<Rightarrow> nat option \<times> 'a cache_scheme" where
  "claim kind args s =
     (let sl = (kind, canon args, epoch s);
          (occ, found) = claim_scan (\<lambda>oc. dict_get (jobs s) (kind, canon args, oc, epoch s))
                           (serves s sl) (puts s sl)
      in case found of
           None \<Rightarrow> (None, s\<lparr>serve_counts := dict_set sl occ (serve_counts s)\<rparr>)
         | Some i \<Rightarrow> (Some i, s\<lparr>serve_counts :=
             dict_set sl (occ + 1) (dict_set sl occ (serve_counts s))\<rparr>))"

definition saved_of :: "job \<Rightarrow> rat \<Rightarrow> rat \<Rightarrow> rat" where
  "saved_of j dur ask_time = (if jsync j then 0 else max 0 (min dur (ask_time - jlaunch j)))"

type_synonym served = "string \<times> job_key option \<times> pyval"

definition miss :: served where
  "miss = (''miss'', None, PNone)"

definition finish ::
  "nat option \<Rightarrow> rat \<Rightarrow> 'a cache_scheme \<Rightarrow> py_error + (served \<times> 'a cache_scheme)" where
  "finish jo ask_time s =
     (case jo of
        None \<Rightarrow> Inr (miss, s)
      | Some i \<Rightarrow>
          let j = job_at s i in
          case jduration j of
            None \<Rightarrow> Inr (miss, s)
          | Some dur \<Rightarrow>
              if \<not> jdone j \<or> jepoch j \<noteq> epoch s \<or> dict_get (jobs s) (job_key j) \<noteq> Some i
                 \<or> jspec j \<in> terminated s
              then Inr (miss, s)
              else let saved = saved_of j dur ask_time;
                       st = (if done_by j dur ask_time then ''hit_completed'' else ''hit_promoted'')
                   in case terminal (jspec j) st saved 0 s of
                        Inl e \<Rightarrow> Inl e
                      | Inr s' \<Rightarrow> Inr ((st, Some (job_key j), jresult j), s'))"

text \<open>
  \<^verbatim>\<open>serve\<close> is \<^verbatim>\<open>claim\<close>, a wait for the job, and \<^verbatim>\<open>finish\<close>. The outer \<open>None\<close> says
  that the call blocks in \<^verbatim>\<open>job.done.wait()\<close>.
\<close>

definition serve ::
  "string \<Rightarrow> pyval \<Rightarrow> rat \<Rightarrow> 'a cache_scheme \<Rightarrow> (py_error + (served \<times> 'a cache_scheme)) option" where
  "serve kind args ask_time s =
     (case claim kind args s of
        (None, s1) \<Rightarrow> Some (Inr (miss, s1))
      | (Some i, s1) \<Rightarrow> if jdone (job_at s1 i) then Some (finish (Some i) ask_time s1) else None)"

definition discard_spec :: "spec_id \<Rightarrow> 'a cache_scheme \<Rightarrow> 'a cache_scheme" where
  "discard_spec sid s =
     (case find_spec sid s of
        None \<Rightarrow> s
      | Some (k, i) \<Rightarrow> s\<lparr>jobs := dict_pop k (jobs s),
                         job_objs := (job_objs s)[i := (job_at s i)\<lparr>jdone := True\<rparr>]\<rparr>)"

text \<open>One turn of the loop in \<^verbatim>\<open>bump_epoch\<close>, with its readings of the clock.\<close>

definition expire_job :: "clock \<Rightarrow> nat \<Rightarrow> nat \<Rightarrow> 'a cache_scheme \<Rightarrow> py_error + 'a cache_scheme" where
  "expire_job clk old i s =
     (let j = job_at s i in
      if jepoch j \<le> old then
        case (if jspec j \<notin> terminated s then
                let (dur, s1) = (case jduration j of
                                   Some d \<Rightarrow> (d, s)
                                 | None \<Rightarrow> (now clk s - jlaunch j, tick s));
                    wasted = min dur (now clk s1 - jlaunch j)
                in terminal (jspec j) ''epoch_expired'' 0 wasted (tick s1)
              else Inr s) of
          Inl e \<Rightarrow> Inl e
        | Inr s' \<Rightarrow> Inr (s'\<lparr>job_objs := (job_objs s')[i := (job_at s' i)\<lparr>jdone := True\<rparr>]\<rparr>)
      else Inr s)"

definition bump_epoch :: "clock \<Rightarrow> 'a cache_scheme \<Rightarrow> py_error + 'a cache_scheme" where
  "bump_epoch clk s =
     (let old = epoch s; s1 = s\<lparr>epoch := old + 1\<rparr> in
      case fold_res (expire_job clk old) (map snd (jobs s1)) s1 of
        Inl e \<Rightarrow> Inl e
      | Inr s2 \<Rightarrow> Inr (s2\<lparr>jobs := filter (\<lambda>(k, i). old < jepoch (job_at s2 i)) (jobs s2)\<rparr>))"

end
