(* ===== verification/Cache_Proofs.thy ===== *)
theory Cache_Proofs
  imports Cache
begin

text \<open>
  What keeps the cache of sfx/cache.py correct: its invariant and the proof that every
  operation keeps it, the behaviour of each operation, and the cache as a machine, whose
  runs never hand one job to two claims, never end a speculation twice and never serve a
  job across an epoch.
\<close>

section \<open>The invariant\<close>

definition objs_inv :: "'a cache_scheme \<Rightarrow> bool" where
  "objs_inv s \<longleftrightarrow>
     length (job_objs s) = spec_n s \<and>
     (\<forall>i < spec_n s. jspec (job_at s i) = Spec i \<and> jepoch (job_at s i) \<le> epoch s \<and>
        jocc (job_at s i) < puts s (job_slot (job_at s i))) \<and>
     inj_on (\<lambda>i. job_key (job_at s i)) {..<spec_n s}"

definition jobs_inv :: "'a cache_scheme \<Rightarrow> bool" where
  "jobs_inv s \<longleftrightarrow>
     distinct (map fst (jobs s)) \<and>
     (\<forall>(k, i) \<in> set (jobs s). i < spec_n s \<and> job_key (job_at s i) = k \<and>
        jepoch (job_at s i) = epoch s)"

definition counts_inv :: "'a cache_scheme \<Rightarrow> bool" where
  "counts_inv s \<longleftrightarrow> (\<forall>sl. serves s sl \<le> puts s sl)"

definition ended_inv :: "'a cache_scheme \<Rightarrow> bool" where
  "ended_inv s \<longleftrightarrow> terminated s \<subseteq> Spec ` {..<spec_n s}"

definition cache_inv :: "'a cache_scheme \<Rightarrow> bool" where
  "cache_inv s \<longleftrightarrow> ledger_inv s \<and> objs_inv s \<and> jobs_inv s \<and> counts_inv s \<and> ended_inv s"

lemma cache_inv_init: "cache_inv init_cache"
  by (simp add: cache_inv_def init_cache_def ledger.defs init_ledger_def ledger_inv_def
      ended_ids_def objs_inv_def jobs_inv_def counts_inv_def ended_inv_def)

lemmas cache_invs = cache_inv_def objs_inv_def jobs_inv_def counts_inv_def ended_inv_def

lemma cache_invD:
  assumes "cache_inv s"
  shows "ledger_inv s" "objs_inv s" "jobs_inv s" "counts_inv s" "length (job_objs s) = spec_n s"
    "distinct (map fst (jobs s))" "ended_inv s"
  using assms by (simp_all add: cache_inv_def objs_inv_def jobs_inv_def)

lemma counts_le: "cache_inv s \<Longrightarrow> serves s sl \<le> puts s sl"
  unfolding cache_inv_def counts_inv_def by blast

lemma job_objD:
  assumes "cache_inv s" and "i < spec_n s"
  shows "jspec (job_at s i) = Spec i" "jepoch (job_at s i) \<le> epoch s"
    "jocc (job_at s i) < puts s (job_slot (job_at s i))"
  using assms by (simp_all add: cache_inv_def objs_inv_def)

lemma jobs_entryD:
  assumes "cache_inv s" and "(k, i) \<in> set (jobs s)"
  shows "i < spec_n s" "job_key (job_at s i) = k" "jepoch (job_at s i) = epoch s"
    "dict_get (jobs s) k = Some i" "jspec (job_at s i) = Spec i"
proof -
  show i: "i < spec_n s" and "job_key (job_at s i) = k" and "jepoch (job_at s i) = epoch s"
    using assms unfolding cache_inv_def jobs_inv_def by blast+
  show "dict_get (jobs s) k = Some i"
    using assms by (simp add: cache_invD(6))
  show "jspec (job_at s i) = Spec i" by (rule job_objD(1) [OF assms(1) i])
qed

lemma cache_inv_cong:
  assumes "records s' = records s" "terminated s' = terminated s"
    "total_saved_ms s' = total_saved_ms s" "total_wasted_ms s' = total_wasted_ms s"
    "epoch s' = epoch s" "jobs s' = jobs s" "put_counts s' = put_counts s"
    "serve_counts s' = serve_counts s" "spec_n s' = spec_n s" "job_objs s' = job_objs s"
  shows "cache_inv s' = cache_inv s"
  using assms by (simp add: cache_invs ledger_inv_def ended_ids_def)

text \<open>What identifies a job never changes; only its result, duration and completion do.\<close>

definition job_static :: "job \<Rightarrow> job" where
  "job_static j = j\<lparr>jduration := None, jresult := PNone, jdone := False\<rparr>"

text \<open>What a job has recorded: its result and duration, set together on completion.\<close>

definition job_output :: "job \<Rightarrow> pyval \<times> rat option" where
  "job_output j = (jresult j, jduration j)"

lemma job_output_done [simp]: "job_output (j\<lparr>jdone := b\<rparr>) = job_output j"
  by (simp add: job_output_def)

lemma job_static_fields:
  assumes "job_static j = job_static j'"
  shows "jspec j = jspec j'" "jkind j = jkind j'" "jargs j = jargs j'" "jocc j = jocc j'"
    "jepoch j = jepoch j'" "jlaunch j = jlaunch j'" "jsync j = jsync j'"
    "job_key j = job_key j'" "job_slot j = job_slot j'"
  using assms by (cases j; cases j'; simp add: job_static_def job_key_def job_slot_def)+

lemma job_static_update [simp]:
  "job_static (j\<lparr>jdone := b\<rparr>) = job_static j"
  "job_static (j\<lparr>jduration := d\<rparr>) = job_static j"
  "job_static (j\<lparr>jresult := r\<rparr>) = job_static j"
  by (cases j; simp add: job_static_def)+

text \<open>
  A state that differs in the completion of some jobs only, or has dropped dict entries,
  still satisfies the invariant.
\<close>

lemma cache_inv_weaken:
  assumes "cache_inv s" and "ledger_inv s'"
    and "map job_static (job_objs s') = map job_static (job_objs s)"
    and "epoch s' = epoch s" "put_counts s' = put_counts s" "spec_n s' = spec_n s"
    and "set (jobs s') \<subseteq> set (jobs s)" "distinct (map fst (jobs s'))"
    and "\<And>sl. serves s' sl \<le> puts s sl" and "ended_inv s'"
  shows "cache_inv s'"
proof -
  have len: "length (job_objs s') = length (job_objs s)"
    by (rule map_eq_imp_length_eq [OF assms(3)])
  have "job_static (job_at s' i) = job_static (job_at s i)" if "i < spec_n s" for i
  proof -
    have "i < length (job_objs s)" using assms(1) that by (simp add: cache_invs)
    then show ?thesis using len arg_cong [OF assms(3), of "\<lambda>xs. xs ! i"] by simp
  qed
  note st = job_static_fields [OF this]
  have "inj_on (\<lambda>i. job_key (job_at s' i)) {..<spec_n s}"
    using assms(1) st(8) by (simp add: cache_invs inj_on_def)
  then have "objs_inv s'"
    using assms(1,4-6) len st by (simp add: cache_inv_def objs_inv_def)
  moreover have "\<forall>(k, i) \<in> set (jobs s'). i < spec_n s \<and> job_key (job_at s' i) = k \<and>
      jepoch (job_at s' i) = epoch s"
  proof (clarify)
    fix k1 k2 k3 k4 i
    assume "((k1, k2, k3, k4), i) \<in> set (jobs s')"
    with assms(7) have "((k1, k2, k3, k4), i) \<in> set (jobs s)" by blast
    with assms(1) have "i < spec_n s \<and> job_key (job_at s i) = (k1, k2, k3, k4) \<and>
        jepoch (job_at s i) = epoch s"
      unfolding cache_inv_def jobs_inv_def by blast
    with st show "i < spec_n s \<and> job_key (job_at s' i) = (k1, k2, k3, k4) \<and>
        jepoch (job_at s' i) = epoch s" by simp
  qed
  ultimately show ?thesis
    using assms(2,4-6,8-10) by (simp add: cache_inv_def jobs_inv_def counts_inv_def)
qed

lemma map_update_same:
  "f j = f (xs ! i) \<Longrightarrow> map f (xs[i := j]) = map f xs"
proof (cases "i < length xs")
  case True
  assume "f j = f (xs ! i)"
  with True have "map f (xs[i := j]) = (map f xs)[i := map f xs ! i]"
    by (simp add: map_update)
  then show ?thesis by simp
next
  case False
  then show ?thesis by (simp add: list_update_beyond)
qed

section \<open>Reserving\<close>

lemma reserve_simps:
  assumes "reserve kind args launch sync s = ((key, sid), s')"
  defines "j \<equiv> mk_job (Spec (spec_n s)) kind args (puts s (kind, canon args, epoch s))
                (epoch s) launch sync"
  shows "sid = Spec (spec_n s)" "key = job_key j" "job_objs s' = job_objs s @ [j]"
    "jobs s' = dict_set key (length (job_objs s)) (jobs s)" "spec_n s' = spec_n s + 1"
    "put_counts s' = dict_set (kind, canon args, epoch s)
       (puts s (kind, canon args, epoch s) + 1) (put_counts s)"
    "serve_counts s' = serve_counts s" "epoch s' = epoch s" "terminated s' = terminated s"
    "total_saved_ms s' = total_saved_ms s" "total_wasted_ms s' = total_wasted_ms s"
    "records s' = records s @ [LEvent sid ''spec_launch'' [(''lane'', PStr ''spec'')]]"
    "ticks s' = ticks s"
  using assms by (auto simp: reserve_def Let_def ledger_record_def)

lemma mk_job_key [simp]:
  "job_key (mk_job sid kind args occ ep launch sync) = (kind, canon args, occ, ep)"
  "job_slot (mk_job sid kind args occ ep launch sync) = (kind, canon args, ep)"
  by (simp_all add: mk_job_def job_key_def job_slot_def)

lemma mk_job_sel [simp]:
  "jspec (mk_job sid kind args occ ep launch sync) = sid"
  "jocc (mk_job sid kind args occ ep launch sync) = occ"
  "jepoch (mk_job sid kind args occ ep launch sync) = ep"
  "jlaunch (mk_job sid kind args occ ep launch sync) = launch"
  "jsync (mk_job sid kind args occ ep launch sync) = sync"
  "jduration (mk_job sid kind args occ ep launch sync) = None"
  "jdone (mk_job sid kind args occ ep launch sync) = False"
  by (simp_all add: mk_job_def)

lemma job_key_slot: "job_key j = job_key j' \<longleftrightarrow> job_slot j = job_slot j' \<and> jocc j = jocc j'"
  by (auto simp: job_key_def job_slot_def)

text \<open>The occurrence number makes the key of a new job fresh among all jobs there ever were.\<close>

lemma fresh_key:
  assumes "objs_inv s" and "i < spec_n s"
  shows "job_key (job_at s i) \<noteq>
    (kind, canon args, puts s (kind, canon args, epoch s), epoch s)"
proof
  assume "job_key (job_at s i) = (kind, canon args, puts s (kind, canon args, epoch s), epoch s)"
  then have "job_slot (job_at s i) = (kind, canon args, epoch s)"
    and "jocc (job_at s i) = puts s (kind, canon args, epoch s)"
    by (auto simp: job_key_def job_slot_def)
  with assms show False by (auto simp: objs_inv_def)
qed

lemma fresh_key_jobs:
  assumes "cache_inv s"
  shows "(kind, canon args, puts s (kind, canon args, epoch s), epoch s) \<notin> fst ` set (jobs s)"
proof
  assume "(kind, canon args, puts s (kind, canon args, epoch s), epoch s) \<in> fst ` set (jobs s)"
  then obtain i where "i < spec_n s"
    "job_key (job_at s i) = (kind, canon args, puts s (kind, canon args, epoch s), epoch s)"
    using assms by (fastforce simp: cache_inv_def jobs_inv_def)
  with fresh_key [of s i kind args] assms show False by (simp add: cache_inv_def)
qed

lemma objs_inv_reserve:
  assumes "cache_inv s" and r: "reserve kind args launch sync s = ((key, sid), s')"
  shows "objs_inv s'"
proof -
  note R = reserve_simps [OF r]
  let ?n = "spec_n s" and ?sl = "(kind, canon args, epoch s)"
  from assms(1) have o: "objs_inv s" and len: "length (job_objs s) = ?n"
    by (simp_all add: cache_invs)
  have at: "job_at s' i = (if i < ?n then job_at s i else
      mk_job (Spec ?n) kind args (puts s ?sl) (epoch s) launch sync)" if "i < Suc ?n" for i
    using that len by (simp add: R(3) nth_append)
  have "puts s sl \<le> puts s' sl" for sl by (simp add: R(6))
  then have old: "jocc (job_at s i) < puts s' (job_slot (job_at s i))" if "i < ?n" for i
    using o that by (fastforce simp: objs_inv_def intro: less_le_trans)
  have "inj_on (\<lambda>i. job_key (job_at s' i)) {..<Suc ?n}"
    using o fresh_key [OF o, of _ kind args]
    by (auto simp: inj_on_def objs_inv_def at less_Suc_eq dest: not_sym)
  then show ?thesis
    using o old by (auto simp: objs_inv_def R(5,8) at less_Suc_eq)
      (auto simp: R(3,6) len)
qed

lemma cache_inv_reserve:
  assumes "cache_inv s" and r: "reserve kind args launch sync s = ((key, sid), s')"
  shows "cache_inv s'"
proof -
  note R = reserve_simps [OF r]
  have len: "length (job_objs s) = spec_n s" using assms(1) by (simp add: cache_invs)
  have key: "key \<notin> fst ` set (jobs s)"
    using fresh_key_jobs [OF assms(1), of kind args] by (simp add: R(2))
  have "ledger_inv s'"
    using ledger_inv_event [OF R(12,9,10,11)] assms(1) by (simp add: cache_inv_def)
  moreover have "jobs_inv s'"
  proof -
    have J: "jobs s' = jobs s @ [(key, spec_n s)]"
      by (simp add: R(4) dict_set_fresh [OF key] len)
    have "\<forall>(k, i) \<in> set (jobs s). i < spec_n s' \<and> job_key (job_at s' i) = k \<and>
        jepoch (job_at s' i) = epoch s'"
      using assms(1) len by (auto simp: cache_invs R(3,5,8) nth_append split: prod.splits)
    moreover have "job_at s' (spec_n s) = mk_job (Spec (spec_n s)) kind args
        (puts s (kind, canon args, epoch s)) (epoch s) launch sync"
      using len by (simp add: R(3) nth_append)
    ultimately show ?thesis
      using assms(1) key by (auto simp: cache_inv_def jobs_inv_def J R(2,5,8) ball_Un)
  qed
  moreover have "counts_inv s'"
    using assms(1) by (auto simp: cache_invs R(6,7) le_SucI)
  moreover have "ended_inv s'"
    using cache_invD(7) [OF assms(1)] by (auto simp: ended_inv_def R(5,9))
  ultimately show ?thesis using objs_inv_reserve [OF assms] by (simp add: cache_inv_def)
qed

section \<open>Completing and discarding\<close>

lemma find_spec_SomeD:
  "find_spec sid s = Some (k, i) \<Longrightarrow> (k, i) \<in> set (jobs s) \<and> jspec (job_at s i) = sid"
  by (auto simp: find_spec_def find_Some_iff in_set_conv_nth)

lemma find_spec_iff:
  assumes inv: "cache_inv s"
  shows "find_spec (Spec i) s = Some (k, i') \<longleftrightarrow> (k, i) \<in> set (jobs s) \<and> i' = i"
proof
  assume "find_spec (Spec i) s = Some (k, i')"
  then have *: "(k, i') \<in> set (jobs s)" "jspec (job_at s i') = Spec i"
    by (auto dest: find_spec_SomeD)
  then show "(k, i) \<in> set (jobs s) \<and> i' = i"
    using jobs_entryD(5) [OF inv *(1)] by simp
next
  assume r: "(k, i) \<in> set (jobs s) \<and> i' = i"
  then have "jspec (job_at s i) = Spec i" using jobs_entryD(5) [OF inv] by blast
  with r have "find_spec (Spec i) s \<noteq> None"
    unfolding find_spec_def find_None_iff by blast
  then obtain k2 i2 where f: "find_spec (Spec i) s = Some (k2, i2)" by auto
  then have e: "(k2, i2) \<in> set (jobs s)" "jspec (job_at s i2) = Spec i"
    by (auto dest: find_spec_SomeD)
  with jobs_entryD(5) [OF inv e(1)] have "i2 = i" by simp
  moreover from this e r have "k2 = k"
    using jobs_entryD(2) [OF inv] by blast
  ultimately show "find_spec (Spec i) s = Some (k, i')" using f r by simp
qed

lemma complete_frame [frame_simps]:
  "jobs (complete sid r d s) = jobs s" "epoch (complete sid r d s) = epoch s"
  "put_counts (complete sid r d s) = put_counts s" "spec_n (complete sid r d s) = spec_n s"
  "serve_counts (complete sid r d s) = serve_counts s" "records (complete sid r d s) = records s"
  "terminated (complete sid r d s) = terminated s" "ticks (complete sid r d s) = ticks s"
  "total_saved_ms (complete sid r d s) = total_saved_ms s"
  "total_wasted_ms (complete sid r d s) = total_wasted_ms s"
  by (auto simp: complete_def split: option.splits)

lemma complete_static:
  "map job_static (job_objs (complete sid r d s)) = map job_static (job_objs s)"
  by (auto simp: complete_def map_update_same split: option.splits)

lemma ended_inv_complete [simp]: "ended_inv (complete sid r d s) = ended_inv s"
  by (simp add: ended_inv_def frame_simps)

lemma ledger_inv_complete [simp]: "ledger_inv (complete sid r d s) = ledger_inv s"
  by (rule ledger_inv_cong) (simp_all add: frame_simps)

lemma cache_inv_complete:
  assumes "cache_inv s"
  shows "cache_inv (complete sid r d s)"
  by (rule cache_inv_weaken [OF assms])
    (simp_all add: complete_static frame_simps cache_invD [OF assms] counts_le [OF assms])

lemma discard_frame [frame_simps]:
  "epoch (discard_spec sid s) = epoch s"
  "put_counts (discard_spec sid s) = put_counts s" "spec_n (discard_spec sid s) = spec_n s"
  "serve_counts (discard_spec sid s) = serve_counts s" "records (discard_spec sid s) = records s"
  "terminated (discard_spec sid s) = terminated s" "ticks (discard_spec sid s) = ticks s"
  "total_saved_ms (discard_spec sid s) = total_saved_ms s"
  "total_wasted_ms (discard_spec sid s) = total_wasted_ms s"
  by (auto simp: discard_spec_def split: option.splits)

lemma discard_static:
  "map job_static (job_objs (discard_spec sid s)) = map job_static (job_objs s)"
  by (auto simp: discard_spec_def map_update_same split: option.splits)

lemma discard_jobs:
  "jobs (discard_spec sid s) =
     (case find_spec sid s of None \<Rightarrow> jobs s | Some (k, i) \<Rightarrow> filter (\<lambda>p. fst p \<noteq> k) (jobs s))"
  by (auto simp: discard_spec_def AList.delete_eq case_prod_unfold intro!: filter_cong
      split: option.splits)

lemma ended_inv_discard [simp]: "ended_inv (discard_spec sid s) = ended_inv s"
  by (simp add: ended_inv_def frame_simps)

lemma ledger_inv_discard [simp]: "ledger_inv (discard_spec sid s) = ledger_inv s"
  by (rule ledger_inv_cong) (simp_all add: frame_simps)

lemma cache_inv_discard:
  assumes "cache_inv s"
  shows "cache_inv (discard_spec sid s)"
  by (rule cache_inv_weaken [OF assms])
    (auto simp: discard_static frame_simps cache_invD [OF assms] counts_le [OF assms]
      discard_jobs distinct_map_fst_filter split: option.splits)

section \<open>Claiming\<close>

lemma claim_scan_Some: "claim_scan look occ bound = (oc, Some i) \<Longrightarrow>
   look oc = Some i \<and> occ \<le> oc \<and> oc < bound \<and> (\<forall>x. occ \<le> x \<and> x < oc \<longrightarrow> look x = None)"
proof (induction look occ bound rule: claim_scan.induct)
  case (1 look occ bound)
  show ?case
  proof (cases "occ < bound \<and> look occ = None")
    case True
    with "1.prems" have "claim_scan look (occ + 1) bound = (oc, Some i)"
      by (simp add: claim_scan.simps [of look occ bound])
    with "1.IH" True have ih: "look oc = Some i" "occ + 1 \<le> oc" "oc < bound"
        "\<forall>x. occ + 1 \<le> x \<and> x < oc \<longrightarrow> look x = None" by auto
    have "look x = None" if "occ \<le> x" "x < oc" for x
      using ih True that by (cases "x = occ") auto
    with ih show ?thesis by simp
  next
    case False
    with "1.prems" show ?thesis
      by (auto simp: claim_scan.simps [of look occ bound] split: if_splits option.splits)
  qed
qed

lemma claim_scan_None: "claim_scan look occ bound = (oc, None) \<Longrightarrow> occ \<le> bound \<Longrightarrow>
   oc = bound \<and> (\<forall>x. occ \<le> x \<and> x < bound \<longrightarrow> look x = None)"
proof (induction look occ bound rule: claim_scan.induct)
  case (1 look occ bound)
  show ?case
  proof (cases "occ < bound \<and> look occ = None")
    case True
    with "1.prems" have "claim_scan look (occ + 1) bound = (oc, None)"
      by (simp add: claim_scan.simps [of look occ bound])
    with "1.IH" True have ih: "oc = bound" "\<forall>x. occ + 1 \<le> x \<and> x < bound \<longrightarrow> look x = None"
      by auto
    have "look x = None" if "occ \<le> x" "x < bound" for x
      using ih True that by (cases "x = occ") auto
    with ih show ?thesis by simp
  next
    case False
    with "1.prems" show ?thesis
      by (auto simp: claim_scan.simps [of look occ bound] split: if_splits option.splits)
  qed
qed

lemma claim_frame:
  assumes "claim kind args s = (r, s')"
  shows "epoch s' = epoch s" "jobs s' = jobs s" "put_counts s' = put_counts s"
    "spec_n s' = spec_n s" "job_objs s' = job_objs s" "records s' = records s"
    "terminated s' = terminated s" "total_saved_ms s' = total_saved_ms s"
    "total_wasted_ms s' = total_wasted_ms s" "ticks s' = ticks s"
  using assms by (auto simp: claim_def Let_def split: prod.splits option.splits)

lemma claim_SomeD:
  assumes "cache_inv s" and "claim kind args s = (Some i, s')"
  shows "i < spec_n s" "dict_get (jobs s) (job_key (job_at s i)) = Some i"
    "job_slot (job_at s i) = (kind, canon args, epoch s)"
    "serves s (kind, canon args, epoch s) \<le> jocc (job_at s i)"
    "serves s' (kind, canon args, epoch s) = jocc (job_at s i) + 1"
    "sl \<noteq> (kind, canon args, epoch s) \<Longrightarrow> serves s' sl = serves s sl"
proof -
  let ?sl = "(kind, canon args, epoch s)"
  obtain oc where sc: "claim_scan (\<lambda>oc. dict_get (jobs s) (kind, canon args, oc, epoch s))
      (serves s ?sl) (puts s ?sl) = (oc, Some i)"
    and s': "s' = s\<lparr>serve_counts := dict_set ?sl (oc + 1) (dict_set ?sl oc (serve_counts s))\<rparr>"
    using assms(2) by (auto simp: claim_def Let_def split: prod.splits option.splits)
  note c = claim_scan_Some [OF sc]
  then have "((kind, canon args, oc, epoch s), i) \<in> set (jobs s)" by (auto dest: map_of_SomeD)
  note i = jobs_entryD(1,2) [OF assms(1) this]
  show "i < spec_n s" "dict_get (jobs s) (job_key (job_at s i)) = Some i"
    using c i by simp_all
  from i(2) have "jocc (job_at s i) = oc" by (simp add: job_key_def)
  moreover from i(2) show "job_slot (job_at s i) = ?sl" by (simp add: job_key_def job_slot_def)
  ultimately show "serves s ?sl \<le> jocc (job_at s i)" "serves s' ?sl = jocc (job_at s i) + 1"
    using c by (simp_all add: s')
  show "sl \<noteq> ?sl \<Longrightarrow> serves s' sl = serves s sl" by (simp add: s')
qed

lemma claim_NoneD:
  assumes "cache_inv s" and "claim kind args s = (None, s')"
  shows "serves s' sl = (if sl = (kind, canon args, epoch s) then puts s sl else serves s sl)"
    and "\<forall>oc. serves s (kind, canon args, epoch s) \<le> oc \<and> oc < puts s (kind, canon args, epoch s)
          \<longrightarrow> dict_get (jobs s) (kind, canon args, oc, epoch s) = None"
proof -
  let ?sl = "(kind, canon args, epoch s)"
  obtain oc where sc: "claim_scan (\<lambda>oc. dict_get (jobs s) (kind, canon args, oc, epoch s))
      (serves s ?sl) (puts s ?sl) = (oc, None)"
    and s': "s' = s\<lparr>serve_counts := dict_set ?sl oc (serve_counts s)\<rparr>"
    using assms(2) by (auto simp: claim_def Let_def split: prod.splits option.splits)
  have "serves s ?sl \<le> puts s ?sl" by (rule counts_le [OF assms(1)])
  note c = claim_scan_None [OF sc this]
  then show "serves s' sl = (if sl = ?sl then puts s sl else serves s sl)"
    and "\<forall>oc. serves s ?sl \<le> oc \<and> oc < puts s ?sl
          \<longrightarrow> dict_get (jobs s) (kind, canon args, oc, epoch s) = None"
    by (auto simp: s')
qed

lemma serves_claim_mono:
  assumes "cache_inv s" and "claim kind args s = (r, s')"
  shows "serves s sl \<le> serves s' sl"
proof (cases r)
  case None
  with claim_NoneD(1) [OF assms(1), of kind args s' sl] assms(2) counts_le [OF assms(1), of sl]
  show ?thesis by (auto split: if_splits)
next
  case (Some i)
  with claim_SomeD(4,5,6) [OF assms(1), of kind args i s'] assms(2) show ?thesis
    by (cases "sl = (kind, canon args, epoch s)") auto
qed

lemma cache_inv_claim:
  assumes "cache_inv s" and c: "claim kind args s = (r, s')"
  shows "cache_inv s'"
proof -
  have "serves s' sl \<le> puts s sl" for sl
  proof (cases r)
    case None
    with claim_NoneD(1) [OF assms(1), of kind args s' sl] c counts_le [OF assms(1), of sl]
    show ?thesis by (auto split: if_splits)
  next
    case (Some i)
    with c have i: "claim kind args s = (Some i, s')" by simp
    note d = claim_SomeD [OF assms(1) i]
    have "jocc (job_at s i) < puts s (kind, canon args, epoch s)"
      using job_objD(3) [OF assms(1) d(1)] d(3) by simp
    then show ?thesis
      using d(5,6) counts_le [OF assms(1), of sl]
      by (cases "sl = (kind, canon args, epoch s)") simp_all
  qed
  then show ?thesis
    by (intro cache_inv_weaken [OF assms(1)])
      (simp_all add: claim_frame [OF c] cache_invD [OF assms(1)]
        ledger_inv_cong [OF claim_frame(6,7,8,9) [OF c]] ended_inv_def
        cache_invD(7) [OF assms(1), unfolded ended_inv_def])
qed

section \<open>Finishing\<close>

definition servable :: "nat \<Rightarrow> 'a cache_scheme \<Rightarrow> bool" where
  "servable i s \<longleftrightarrow> jdone (job_at s i) \<and> jduration (job_at s i) \<noteq> None \<and>
     jepoch (job_at s i) = epoch s \<and> dict_get (jobs s) (job_key (job_at s i)) = Some i \<and>
     jspec (job_at s i) \<notin> terminated s"

text \<open>The two outcomes of \<^verbatim>\<open>finish\<close>; it never raises, since it checks before it ends.\<close>

lemma finish_miss: "jo = None \<or> jo = Some i \<and> \<not> servable i s \<Longrightarrow> finish jo t s = Inr (miss, s)"
  by (auto simp: finish_def servable_def Let_def split: option.splits)

lemma finish_hit:
  fixes t :: rat
  assumes "servable i s" and "jduration (job_at s i) = Some dur"
  defines "st \<equiv> (if done_by (job_at s i) dur t then ''hit_completed'' else ''hit_promoted'')"
  shows "\<exists>s'. terminal (jspec (job_at s i)) st (saved_of (job_at s i) dur t) 0 s = Inr s' \<and>
    finish (Some i) t s = Inr ((st, Some (job_key (job_at s i)), jresult (job_at s i)), s')"
  using assms by (auto simp: finish_def servable_def Let_def terminal_def TERMINAL_STATES_def)

lemma finish_total: "\<exists>r. finish jo t s = Inr r"
proof (cases "\<exists>i. jo = Some i \<and> servable i s")
  case True
  then obtain i dur where "jo = Some i" "servable i s" "jduration (job_at s i) = Some dur"
    by (auto simp: servable_def)
  with finish_hit [of i s dur t] show ?thesis by blast
next
  case False
  then have "jo = None \<or> (\<exists>i. jo = Some i \<and> \<not> servable i s)" by (cases jo) auto
  then show ?thesis using finish_miss [of jo _ s t] by blast
qed

text \<open>The facts a result of \<^verbatim>\<open>finish\<close> carries.\<close>

lemma finish_cases [consumes 1, case_names miss hit]:
  assumes "finish jo t s = Inr ((oc, k, r), s')"
  obtains "oc = ''miss''" "k = None" "r = PNone" "s' = s"
  | i dur where "jo = Some i" "servable i s" "jduration (job_at s i) = Some dur"
      "oc = (if done_by (job_at s i) dur t then ''hit_completed'' else ''hit_promoted'')"
      "k = Some (job_key (job_at s i))" "r = jresult (job_at s i)"
      "terminal (jspec (job_at s i)) oc (saved_of (job_at s i) dur t) 0 s = Inr s'"
proof (cases "\<exists>i. jo = Some i \<and> servable i s")
  case True
  then obtain i dur where i: "jo = Some i" "servable i s" "jduration (job_at s i) = Some dur"
    by (auto simp: servable_def)
  with finish_hit [OF i(2,3), of t] assms that(2) show ?thesis by auto
next
  case False
  then have "jo = None \<or> (\<exists>i. jo = Some i \<and> \<not> servable i s)" by (cases jo) auto
  then have "finish jo t s = Inr (miss, s)" using finish_miss [of jo _ s t] by blast
  with assms that(1) show ?thesis by (auto simp: miss_def)
qed

lemma finish_frame:
  assumes "finish jo t s = Inr (r, s')"
  shows "epoch s' = epoch s" "jobs s' = jobs s" "put_counts s' = put_counts s"
    "serve_counts s' = serve_counts s" "spec_n s' = spec_n s" "job_objs s' = job_objs s"
    "ticks s' = ticks s" "terminated s \<subseteq> terminated s'" "total_wasted_ms s' = total_wasted_ms s"
proof -
  obtain oc k v where r: "finish jo t s = Inr ((oc, k, v), s')" using assms by (cases r) auto
  show "epoch s' = epoch s" "jobs s' = jobs s" "put_counts s' = put_counts s"
    "serve_counts s' = serve_counts s" "spec_n s' = spec_n s" "job_objs s' = job_objs s"
    "ticks s' = ticks s" "terminated s \<subseteq> terminated s'" "total_wasted_ms s' = total_wasted_ms s"
    using r by (cases rule: finish_cases; auto dest: terminal_InrD)+
qed

lemma servable_index:
  assumes "cache_inv s" and "servable i s"
  shows "i < spec_n s" "jspec (job_at s i) = Spec i"
proof -
  from assms(2) have "(job_key (job_at s i), i) \<in> set (jobs s)"
    by (auto simp: servable_def dest: map_of_SomeD)
  from jobs_entryD(1,5) [OF assms(1) this] show "i < spec_n s" "jspec (job_at s i) = Spec i" .
qed

lemma cache_inv_finish:
  assumes "cache_inv s" and f: "finish jo t s = Inr (r, s')"
  shows "cache_inv s'"
proof -
  obtain oc k v where r: "finish jo t s = Inr ((oc, k, v), s')" using f by (cases r) auto
  then have "ledger_inv s' \<and> ended_inv s'"
  proof (cases rule: finish_cases)
    case miss
    then show ?thesis using assms(1) by (simp add: cache_inv_def)
  next
    case (hit i dur)
    then show ?thesis
      using ledger_inv_terminal [OF cache_invD(1) [OF assms(1)] hit(7)]
        servable_index [OF assms(1) hit(2)] terminal_InrD [OF hit(7)] cache_invD(7) [OF assms(1)]
      by (simp add: ended_inv_def)
  qed
  then show ?thesis
    by (intro cache_inv_weaken [OF assms(1)])
      (simp_all add: finish_frame [OF f] cache_invD [OF assms(1)] counts_le [OF assms(1)])
qed

section \<open>The epoch\<close>

lemma fold_res_collect:
  assumes "\<And>x s. x \<in> set xs \<Longrightarrow> I s \<Longrightarrow>
      \<exists>s'. f x s = Inr s' \<and> I s' \<and> Q x s' \<and> (\<forall>y. Q y s \<longrightarrow> Q y s')" and "I s"
  shows "\<exists>s'. fold_res f xs s = Inr s' \<and> I s' \<and> (\<forall>x \<in> set xs. Q x s') \<and>
    (\<forall>y. Q y s \<longrightarrow> Q y s')"
  using assms
proof (induction xs arbitrary: s)
  case Nil
  then show ?case by simp
next
  case (Cons x xs)
  from Cons.prems(1) [of x s] Cons.prems(2)
  obtain s1 where s1: "f x s = Inr s1" "I s1" "Q x s1" "\<forall>y. Q y s \<longrightarrow> Q y s1" by auto
  have "\<exists>s'. fold_res f xs s1 = Inr s' \<and> I s' \<and> (\<forall>x \<in> set xs. Q x s') \<and> (\<forall>y. Q y s1 \<longrightarrow> Q y s')"
    by (rule Cons.IH [OF Cons.prems(1) s1(2)]) auto
  with s1 show ?case by auto
qed

text \<open>What the loop of \<^verbatim>\<open>bump_epoch\<close> keeps, relative to the state \<open>s0\<close> it starts from.\<close>

definition expire_rel :: "'a cache_scheme \<Rightarrow> 'a cache_scheme \<Rightarrow> bool" where
  "expire_rel s0 s \<longleftrightarrow> ledger_inv s \<and> epoch s = epoch s0 \<and> jobs s = jobs s0 \<and>
     put_counts s = put_counts s0 \<and> serve_counts s = serve_counts s0 \<and> spec_n s = spec_n s0 \<and>
     map job_static (job_objs s) = map job_static (job_objs s0) \<and>
     map job_output (job_objs s) = map job_output (job_objs s0) \<and>
     total_saved_ms s = total_saved_ms s0 \<and> terminated s0 \<subseteq> terminated s \<and> ended_inv s"

definition expired :: "nat \<Rightarrow> nat \<Rightarrow> 'a cache_scheme \<Rightarrow> bool" where
  "expired old i s \<longleftrightarrow> (i < length (job_objs s) \<and> jepoch (job_at s i) \<le> old \<longrightarrow>
     jspec (job_at s i) \<in> terminated s \<and> jdone (job_at s i))"

lemma static_nth:
  assumes "map job_static (xs :: job list) = map job_static ys" and "i < length ys"
  shows "job_static (xs ! i) = job_static (ys ! i)"
  using assms by (metis map_eq_imp_length_eq nth_map)

lemma expire_job_step:
  assumes "expire_rel s0 s" and sp: "jspec (job_at s i) \<in> Spec ` {..<spec_n s0}"
  shows "\<exists>s'. expire_job clk old i s = Inr s' \<and> expire_rel s0 s' \<and> expired old i s' \<and>
    (\<forall>y. expired old y s \<longrightarrow> expired old y s')"
proof (cases "jepoch (job_at s i) \<le> old")
  case False
  with assms show ?thesis by (auto simp: expire_job_def expired_def Let_def)
next
  case True
  obtain s1 where end1: "(if jspec (job_at s i) \<notin> terminated s then
        (let (dur, s1) = (case jduration (job_at s i) of Some d \<Rightarrow> (d, s)
                          | None \<Rightarrow> (now clk s - jlaunch (job_at s i), tick s));
             wasted = min dur (now clk s1 - jlaunch (job_at s i))
         in terminal (jspec (job_at s i)) ''epoch_expired'' 0 wasted (tick s1))
      else Inr s) = Inr s1" and
    s1: "expire_rel s s1" "job_objs s1 = job_objs s" "jspec (job_at s i) \<in> terminated s1"
  proof (cases "jspec (job_at s i) \<in> terminated s")
    case True
    with assms that [of s] show ?thesis by (simp add: expire_rel_def)
  next
    case False
    define p where "p = (case jduration (job_at s i) of Some d \<Rightarrow> (d, s)
                          | None \<Rightarrow> (now clk s - jlaunch (job_at s i), tick s))"
    define s2 where "s2 = tick (snd p)"
    have s2: "\<exists>n. s2 = s\<lparr>ticks := n\<rparr>"
      by (auto simp: s2_def p_def tick_def split: option.splits)
    obtain s3 where s3: "terminal (jspec (job_at s i)) ''epoch_expired'' 0
        (min (fst p) (now clk (snd p) - jlaunch (job_at s i))) s2 = Inr s3"
      using False s2 by (auto simp: terminal_def)
    have "ledger_inv s2" using s2 assms by (auto simp: expire_rel_def ledger_inv_def ended_ids_def)
    with ledger_inv_terminal [OF _ s3] have "ledger_inv s3" .
    moreover have "ended_inv s3"
      using assms terminal_InrD [OF s3] s2 by (auto simp: expire_rel_def ended_inv_def)
    ultimately have "expire_rel s s3" "job_objs s3 = job_objs s"
        "jspec (job_at s i) \<in> terminated s3"
      using terminal_InrD [OF s3] s2 by (auto simp: expire_rel_def)
    with False s3 that [of s3] show ?thesis
      by (simp add: p_def s2_def case_prod_unfold Let_def)
  qed
  let ?s' = "s1\<lparr>job_objs := (job_objs s1)[i := (job_at s1 i)\<lparr>jdone := True\<rparr>]\<rparr>"
  have "expire_job clk old i s = Inr ?s'"
    using True end1 by (simp add: expire_job_def Let_def)
  moreover have "expire_rel s0 ?s'"
    using assms s1
    by (auto simp: expire_rel_def map_update_same ledger_inv_def ended_ids_def ended_inv_def)
  moreover have "expired old i ?s'"
    using s1(3) by (auto simp: expired_def s1(2))
  moreover have "expired old y ?s'" if "expired old y s" for y
    using that s1 by (cases "y = i") (auto simp: expired_def expire_rel_def)
  ultimately show ?thesis by blast
qed

text \<open>
  \<^verbatim>\<open>bump_epoch\<close> never raises; it ends every live job, wakes its waiters, and leaves the
  dict empty in the next epoch.
\<close>

lemma bump_epoch_spec:
  assumes inv: "cache_inv s"
  shows "\<exists>s'. bump_epoch clk s = Inr s' \<and> cache_inv s' \<and> epoch s' = epoch s + 1 \<and> jobs s' = [] \<and>
    spec_n s' = spec_n s \<and> put_counts s' = put_counts s \<and> serve_counts s' = serve_counts s \<and>
    map job_static (job_objs s') = map job_static (job_objs s) \<and>
    map job_output (job_objs s') = map job_output (job_objs s) \<and>
    terminated s \<subseteq> terminated s' \<and> total_saved_ms s' = total_saved_ms s \<and>
    (\<forall>(k, i) \<in> set (jobs s). Spec i \<in> terminated s' \<and> jdone (job_at s' i))"
proof -
  let ?s1 = "s\<lparr>epoch := epoch s + 1\<rparr>"
  have rel1: "expire_rel ?s1 ?s1"
    using cache_invD(1,7) [OF inv]
    by (simp add: expire_rel_def ledger_inv_def ended_ids_def ended_inv_def)
  have "\<exists>s'. expire_job clk (epoch s) i u = Inr s' \<and> expire_rel ?s1 s' \<and> expired (epoch s) i s' \<and>
      (\<forall>y. expired (epoch s) y u \<longrightarrow> expired (epoch s) y s')"
    if "i \<in> set (map snd (jobs s))" "expire_rel ?s1 u" for i u
  proof -
    from that(1) obtain k where "(k, i) \<in> set (jobs s)" by auto
    note e = jobs_entryD(1,5) [OF inv this]
    have "job_static (job_at u i) = job_static (job_at s i)"
      using static_nth [of "job_objs u" "job_objs s" i] that(2) e cache_invD(5) [OF inv]
      by (simp add: expire_rel_def)
    from job_static_fields(1) [OF this] e have "jspec (job_at u i) \<in> Spec ` {..<spec_n ?s1}"
      by simp
    from expire_job_step [OF that(2) this, of clk "epoch s"] show ?thesis .
  qed
  from fold_res_collect [where I = "expire_rel ?s1" and Q = "expired (epoch s)"
      and f = "expire_job clk (epoch s)", OF this rel1]
  obtain s2 where s2: "fold_res (expire_job clk (epoch s)) (map snd (jobs s)) ?s1 = Inr s2"
      "expire_rel ?s1 s2" "\<forall>i \<in> set (map snd (jobs s)). expired (epoch s) i s2"
    by blast
  have st: "job_static (job_at s2 i) = job_static (job_at s i)" if "i < spec_n s" for i
    using static_nth [of "job_objs s2" "job_objs s" i] s2(2) that cache_invD(5) [OF inv]
    by (simp add: expire_rel_def)
  have len: "length (job_objs s2) = spec_n s"
    using map_eq_imp_length_eq [of job_static "job_objs s2" job_static "job_objs s"] s2(2)
      cache_invD(5) [OF inv] by (simp add: expire_rel_def)
  have empty: "filter (\<lambda>(k, i). epoch s < jepoch (job_at s2 i)) (jobs s2) = []"
    using s2(2) jobs_entryD(1,3) [OF inv] job_static_fields(5) [OF st]
    by (fastforce simp: filter_empty_conv expire_rel_def)
  let ?s' = "s2\<lparr>jobs := []\<rparr>"
  have ended: "Spec i \<in> terminated ?s' \<and> jdone (job_at ?s' i)" if "(k, i) \<in> set (jobs s)" for k i
  proof -
    note e = jobs_entryD [OF inv that]
    from that s2(3) have "expired (epoch s) i s2" by force
    with e job_static_fields(1,5) [OF st [OF e(1)]] len show ?thesis
      by (simp add: expired_def)
  qed
  have "cache_inv ?s'"
  proof -
    have "inj_on (\<lambda>i. job_key (job_at s2 i)) {..<spec_n s}"
      using cache_invD(2) [OF inv] job_static_fields(8) [OF st]
      by (simp add: objs_inv_def inj_on_def)
    moreover have "jspec (job_at s2 i) = Spec i" "jepoch (job_at s2 i) \<le> Suc (epoch s)"
        "jocc (job_at s2 i) < puts s (job_slot (job_at s2 i))" if "i < spec_n s" for i
      using job_objD [OF inv that] job_static_fields [OF st [OF that]] by simp_all
    moreover have "ledger_inv ?s'"
      using s2(2) by (simp add: expire_rel_def ledger_inv_def ended_ids_def)
    moreover have "counts_inv ?s'"
      using s2(2) counts_le [OF inv] unfolding counts_inv_def by (auto simp: expire_rel_def)
    moreover have "ended_inv ?s'"
      using s2(2) by (auto simp: expire_rel_def ended_inv_def)
    ultimately show ?thesis
      using s2(2) len
      by (simp add: cache_inv_def objs_inv_def jobs_inv_def expire_rel_def)
  qed
  moreover have "bump_epoch clk s = Inr ?s'"
    using s2(1) empty by (simp add: bump_epoch_def Let_def)
  ultimately show ?thesis
    using s2(2) ended by (intro exI [of _ ?s']) (auto simp: expire_rel_def)
qed

section \<open>What lies above the cache\<close>

text \<open>
  The executor and the session extend the cache's state; no cache operation touches their
  fields, which are the record's \<open>more\<close> part.
\<close>

lemma reserve_more: "cache.more (snd (reserve kind args l sync s)) = cache.more s"
  by (simp add: reserve_def Let_def ledger_record_def)

lemma complete_more: "cache.more (complete sid v d s) = cache.more s"
  by (simp add: complete_def split: option.split)

lemma discard_more: "cache.more (discard_spec sid s) = cache.more s"
  by (simp add: discard_spec_def split: option.split)

lemma claim_more: "cache.more (snd (claim kind args s)) = cache.more s"
  by (simp add: claim_def Let_def split: option.split prod.split)

lemma terminal_more:
  fixes s :: "'a cache_scheme"
  shows "terminal sid st sv ws s = Inr s' \<Longrightarrow> cache.more s' = cache.more s"
  by (auto simp: terminal_def split: if_splits)

lemma finish_more: "finish jo t s = Inr (r, s') \<Longrightarrow> cache.more s' = cache.more s"
  by (auto simp: finish_def Let_def terminal_def split: option.splits if_splits)

lemma expire_more: "expire_job clk old i s = Inr s' \<Longrightarrow> cache.more s' = cache.more s"
  by (auto simp: expire_job_def Let_def terminal_def tick_def split: option.splits if_splits)

lemma fold_expire_more:
  "fold_res (expire_job clk old) is s = Inr s' \<Longrightarrow> cache.more s' = cache.more s"
  by (induction "is" arbitrary: s) (auto dest: expire_more split: sum.splits)

lemma bump_more: "bump_epoch clk s = Inr s' \<Longrightarrow> cache.more s' = cache.more s"
  by (auto simp: bump_epoch_def Let_def dest: fold_expire_more split: sum.splits)

end
