(* ===== verification/Cache_Machine.thy ===== *)
theory Cache_Machine
  imports Cache_Proofs
begin

text \<open>
  The cache of sfx/cache.py as a machine. Requests, worker threads and the daemon call its
  operations in any order, each under the cache's lock, so a run is a list of operations;
  the properties are about every run from every state that satisfies the invariant.
\<close>

section \<open>The machine\<close>

datatype cache_op =
    OpReserve string pyval rat bool
  | OpComplete spec_id pyval rat
  | OpClaim string pyval
  | OpFinish "nat option" rat
  | OpDiscard spec_id
  | OpBump

datatype cache_out =
    OutReserved job_key spec_id
  | OutClaimed "nat option"
  | OutServed served
  | OutRaised py_error
  | OutUnit

fun cache_exec :: "clock \<Rightarrow> 'a cache_scheme \<Rightarrow> cache_op \<Rightarrow> cache_out \<times> 'a cache_scheme" where
  "cache_exec clk s (OpReserve kind args launch sync) =
     (let ((key, sid), s') = reserve kind args launch sync s in (OutReserved key sid, s'))"
| "cache_exec clk s (OpComplete sid result dur) = (OutUnit, complete sid result dur s)"
| "cache_exec clk s (OpClaim kind args) =
     (let (r, s') = claim kind args s in (OutClaimed r, s'))"
| "cache_exec clk s (OpFinish jo t) =
     (case finish jo t s of Inl e \<Rightarrow> (OutRaised e, s) | Inr (r, s') \<Rightarrow> (OutServed r, s'))"
| "cache_exec clk s (OpDiscard sid) = (OutUnit, discard_spec sid s)"
| "cache_exec clk s OpBump =
     (case bump_epoch clk s of Inl e \<Rightarrow> (OutRaised e, s) | Inr s' \<Rightarrow> (OutUnit, s'))"

definition cache_step :: "clock \<Rightarrow> 'a cache_scheme \<Rightarrow> cache_op \<Rightarrow> 'a cache_scheme" where
  "cache_step clk s x = snd (cache_exec clk s x)"

definition cache_run :: "clock \<Rightarrow> 'a cache_scheme \<Rightarrow> cache_op list \<Rightarrow> 'a cache_scheme" where
  "cache_run clk = run_ops (cache_step clk)"

text \<open>Jobs handed to a claim, and speculations ended by a hit, in one step.\<close>

definition claimed_by :: "clock \<Rightarrow> 'a cache_scheme \<Rightarrow> cache_op \<Rightarrow> nat list" where
  "claimed_by clk s x = (case fst (cache_exec clk s x) of OutClaimed (Some i) \<Rightarrow> [i] | _ \<Rightarrow> [])"

definition is_hit :: "served \<Rightarrow> bool" where
  "is_hit r \<longleftrightarrow> fst r \<in> HIT_TERMINALS"

definition hit_by :: "clock \<Rightarrow> 'a cache_scheme \<Rightarrow> cache_op \<Rightarrow> nat list" where
  "hit_by clk s x =
     (case x of
        OpFinish (Some i) t \<Rightarrow>
          (case fst (cache_exec clk s x) of OutServed r \<Rightarrow> if is_hit r then [i] else [] | _ \<Rightarrow> [])
      | _ \<Rightarrow> [])"

section \<open>The invariant is kept\<close>

lemma cache_exec_bump [simp]:
  "cache_inv s \<Longrightarrow> \<exists>s'. cache_exec clk s OpBump = (OutUnit, s') \<and> bump_epoch clk s = Inr s'"
  using bump_epoch_spec [of s clk] by auto

lemma cache_inv_step: "cache_inv s \<Longrightarrow> cache_inv (cache_step clk s x)"
proof (cases x)
  case (OpReserve kind args launch sync)
  moreover assume "cache_inv s"
  ultimately show ?thesis
    using cache_inv_reserve [of s kind args launch sync]
    by (auto simp: cache_step_def split: prod.splits)
next
  case (OpFinish jo t)
  obtain r s' where f: "finish jo t s = Inr (r, s')" using finish_total [of jo t s] by auto
  moreover assume "cache_inv s"
  ultimately show ?thesis
    using OpFinish cache_inv_finish [OF _ f] by (simp add: cache_step_def)
next
  case OpBump
  moreover assume "cache_inv s"
  ultimately show ?thesis
    using bump_epoch_spec [of s clk] by (auto simp: cache_step_def)
qed (auto simp: cache_step_def cache_inv_complete cache_inv_discard cache_inv_claim
      split: prod.splits)

interpretation cache_machine: invariant_machine "cache_step clk" cache_inv for clk
  by unfold_locales (rule cache_inv_step)

text \<open>No operation of the machine raises.\<close>

lemma cache_never_raises: "cache_inv s \<Longrightarrow> fst (cache_exec clk s x) \<noteq> OutRaised e"
proof (cases x)
  case (OpFinish jo t)
  moreover obtain r s' where "finish jo t s = Inr (r, s')" using finish_total [of jo t s] by auto
  ultimately show ?thesis by simp
next
  case OpBump
  moreover assume "cache_inv s"
  ultimately show ?thesis using cache_exec_bump [of s clk] by auto
qed (auto split: prod.splits)

section \<open>What no step undoes\<close>

text \<open>Jobs are only added, their identity never changes, counters and the epoch only grow.\<close>

definition grows :: "'a cache_scheme \<Rightarrow> 'a cache_scheme \<Rightarrow> bool" where
  "grows s s' \<longleftrightarrow> spec_n s \<le> spec_n s' \<and> epoch s \<le> epoch s' \<and>
     (\<forall>i < spec_n s. job_static (job_at s' i) = job_static (job_at s i)) \<and>
     (\<forall>sl. serves s sl \<le> serves s' sl) \<and> terminated s \<subseteq> terminated s'"

lemma growsI:
  assumes "spec_n s' = spec_n s" "epoch s \<le> epoch s'" "serve_counts s' = serve_counts s"
    "terminated s \<subseteq> terminated s'" "length (job_objs s) = spec_n s"
    "map job_static (job_objs s') = map job_static (job_objs s)"
  shows "grows s s'"
  using assms static_nth [OF assms(6)] by (simp add: grows_def)

lemma grows_step:
  assumes inv: "cache_inv s"
  shows "grows s (cache_step clk s x)"
proof (cases x)
  case (OpReserve kind args launch sync)
  obtain key sid s' where r: "reserve kind args launch sync s = ((key, sid), s')"
    by (metis prod.exhaust)
  with OpReserve reserve_simps [OF r] cache_invD(5) [OF inv] show ?thesis
    by (simp add: cache_step_def grows_def nth_append)
next
  case (OpComplete sid result dur)
  then show ?thesis
    by (intro growsI) (simp_all add: cache_step_def frame_simps complete_static cache_invD [OF inv])
next
  case (OpClaim kind args)
  obtain r s' where c: "claim kind args s = (r, s')" by (metis prod.exhaust)
  with OpClaim claim_frame [OF c] serves_claim_mono [OF inv c] show ?thesis
    unfolding grows_def by (simp add: cache_step_def)
next
  case (OpFinish jo t)
  obtain r s' where f: "finish jo t s = Inr (r, s')" using finish_total [of jo t s] by auto
  show ?thesis
    using OpFinish f finish_frame [OF f]
    by (intro growsI) (simp_all add: cache_step_def cache_invD [OF inv])
next
  case (OpDiscard sid)
  then show ?thesis
    by (intro growsI) (simp_all add: cache_step_def frame_simps discard_static cache_invD [OF inv])
next
  case OpBump
  obtain s' where "bump_epoch clk s = Inr s'" "epoch s' = epoch s + 1" "spec_n s' = spec_n s"
      "serve_counts s' = serve_counts s" "terminated s \<subseteq> terminated s'"
      "map job_static (job_objs s') = map job_static (job_objs s)"
    using bump_epoch_spec [OF inv, of clk] by auto
  with OpBump show ?thesis
    by (intro growsI) (simp_all add: cache_step_def cache_invD [OF inv])
qed

lemma growsD:
  assumes "grows s s'" and "i < spec_n s"
  shows "i < spec_n s'" "job_key (job_at s' i) = job_key (job_at s i)"
    "job_slot (job_at s' i) = job_slot (job_at s i)" "jocc (job_at s' i) = jocc (job_at s i)"
    "jepoch (job_at s' i) = jepoch (job_at s i)" "jkind (job_at s' i) = jkind (job_at s i)"
    "jargs (job_at s' i) = jargs (job_at s i)"
proof -
  from assms have "job_static (job_at s' i) = job_static (job_at s i)" by (simp add: grows_def)
  note st = job_static_fields [OF this]
  show "i < spec_n s'" using assms by (simp add: grows_def)
  show "job_key (job_at s' i) = job_key (job_at s i)"
    "job_slot (job_at s' i) = job_slot (job_at s i)" "jocc (job_at s' i) = jocc (job_at s i)"
    "jepoch (job_at s' i) = jepoch (job_at s i)" "jkind (job_at s' i) = jkind (job_at s i)"
    "jargs (job_at s' i) = jargs (job_at s i)"
    by (rule st)+
qed

lemma grows_refl: "grows s s"
  by (simp add: grows_def)

lemma grows_trans:
  assumes "grows s t" and "grows t u"
  shows "grows s u"
  unfolding grows_def
proof (intro conjI allI impI)
  show "spec_n s \<le> spec_n u" "epoch s \<le> epoch u" "terminated s \<subseteq> terminated u"
    using assms by (auto simp: grows_def)
  show "job_static (job_at u i) = job_static (job_at s i)" if "i < spec_n s" for i
    using assms that by (simp add: grows_def)
  show "serves s sl \<le> serves u sl" for sl
    using assms unfolding grows_def by (blast intro: order_trans)
qed

lemma grows_run:
  assumes "cache_inv s"
  shows "grows s (cache_run clk s xs)"
  using assms unfolding cache_run_def
proof (induction xs arbitrary: s)
  case Nil
  then show ?case by (simp add: grows_refl)
next
  case (Cons x xs)
  have "grows (cache_step clk s x) (run_ops (cache_step clk) (cache_step clk s x) xs)"
    by (rule Cons.IH [OF cache_inv_step [OF Cons.prems]])
  with grows_trans [OF grows_step [OF Cons.prems]] show ?case by simp
qed

lemma cache_inv_run: "cache_inv s \<Longrightarrow> cache_inv (cache_run clk s xs)"
  unfolding cache_run_def by (rule cache_machine.inv_run)

section \<open>Claims and hits are one-shot\<close>

definition claimed_already :: "'a cache_scheme \<Rightarrow> nat \<Rightarrow> bool" where
  "claimed_already s i \<longleftrightarrow> i < spec_n s \<and> jocc (job_at s i) < serves s (job_slot (job_at s i))"

lemma claimed_by_simps [simp]:
  "claimed_by clk s (OpReserve kind args launch sync) = []"
  "claimed_by clk s (OpComplete sid v d) = []"
  "claimed_by clk s (OpClaim kind args) =
     (case fst (claim kind args s) of None \<Rightarrow> [] | Some i \<Rightarrow> [i])"
  "claimed_by clk s (OpFinish jo t) = []" "claimed_by clk s (OpDiscard sid) = []"
  "claimed_by clk s OpBump = []"
  by (simp_all add: claimed_by_def Let_def split: prod.split sum.split)

lemma cache_step_claim: "cache_step clk s (OpClaim kind args) = snd (claim kind args s)"
  by (simp add: cache_step_def split: prod.split)

lemma claimed_by_SomeD:
  assumes "i \<in> set (claimed_by clk s x)"
  shows "\<exists>kind args. x = OpClaim kind args \<and> claim kind args s = (Some i, cache_step clk s x)"
proof (cases x)
  case (OpClaim kind args)
  with assms have "fst (claim kind args s) = Some i" by (simp split: option.splits)
  with OpClaim show ?thesis by (auto simp: cache_step_claim intro: prod_eqI)
qed (use assms in simp_all)

lemma grows_claimed:
  assumes "grows s s'" and "claimed_already s i"
  shows "claimed_already s' i"
proof -
  from assms(2) have i: "i < spec_n s" "jocc (job_at s i) < serves s (job_slot (job_at s i))"
    by (simp_all add: claimed_already_def)
  have "serves s (job_slot (job_at s i)) \<le> serves s' (job_slot (job_at s i))"
    using assms(1) unfolding grows_def by blast
  with i growsD [OF assms(1) i(1)] show ?thesis by (simp add: claimed_already_def)
qed

interpretation claims: one_shot "cache_step clk" cache_inv "claimed_by clk" claimed_already for clk
proof unfold_locales
  fix s :: "'a cache_scheme" and x i
  assume inv: "cache_inv s"
  show "distinct (claimed_by clk s x)"
    by (simp add: claimed_by_def split: cache_out.split option.split)
  show "claimed_already s i \<Longrightarrow> claimed_already (cache_step clk s x) i"
    by (rule grows_claimed [OF grows_step [OF inv]])
  assume "i \<in> set (claimed_by clk s x)"
  then obtain kind args where c: "claim kind args s = (Some i, cache_step clk s x)"
    using claimed_by_SomeD by blast
  note d = claim_SomeD [OF inv c]
  show "\<not> claimed_already s i" using d(3,4) by (simp add: claimed_already_def)
  show "claimed_already (cache_step clk s x) i"
    using d claim_frame [OF c] by (simp add: claimed_already_def)
qed

lemma hit_by_simps [simp]:
  "hit_by clk s (OpReserve kind args launch sync) = []" "hit_by clk s (OpComplete sid v d) = []"
  "hit_by clk s (OpClaim kind args) = []" "hit_by clk s (OpFinish None t) = []"
  "hit_by clk s (OpFinish (Some i) t) =
     (case finish (Some i) t s of Inl e \<Rightarrow> [] | Inr (r, s') \<Rightarrow> if is_hit r then [i] else [])"
  "hit_by clk s (OpDiscard sid) = []" "hit_by clk s OpBump = []"
  by (simp_all add: hit_by_def split: prod.split sum.split)

lemma hit_byD:
  assumes "i \<in> set (hit_by clk s x)"
  shows "\<exists>t oc k r. x = OpFinish (Some i) t \<and>
    finish (Some i) t s = Inr ((oc, k, r), cache_step clk s x) \<and> oc \<noteq> ''miss''"
proof (cases x)
  case (OpFinish jo t)
  with assms obtain i' where jo: "jo = Some i'" by (cases jo) auto
  obtain oc k r s' where f: "finish (Some i') t s = Inr ((oc, k, r), s')"
    using finish_total [of "Some i'" t s] by (metis prod.exhaust)
  with assms OpFinish jo have "i' = i" "is_hit (oc, k, r)" by (auto split: if_splits)
  with f OpFinish jo show ?thesis by (auto simp: cache_step_def is_hit_def HIT_TERMINALS_def)
qed (use assms in simp_all)

interpretation hits: one_shot "cache_step clk" cache_inv "hit_by clk" "\<lambda>s i. Spec i \<in> terminated s" for clk
proof unfold_locales
  fix s :: "'a cache_scheme" and x i
  assume inv: "cache_inv s"
  show "distinct (hit_by clk s x)"
    by (simp add: hit_by_def split: cache_op.split cache_out.split option.split)
  show "Spec i \<in> terminated s \<Longrightarrow> Spec i \<in> terminated (cache_step clk s x)"
    using grows_step [OF inv, of clk x] by (auto simp: grows_def)
  assume "i \<in> set (hit_by clk s x)"
  then obtain t oc k r where
    f: "finish (Some i) t s = Inr ((oc, k, r), cache_step clk s x)" "oc \<noteq> ''miss''"
    using hit_byD by blast
  from f show "Spec i \<notin> terminated s"
  proof (cases rule: finish_cases)
    case (hit i' dur)
    then show ?thesis using servable_index(2) [OF inv] by (auto simp: servable_def)
  qed simp
  from f show "Spec i \<in> terminated (cache_step clk s x)"
  proof (cases rule: finish_cases)
    case (hit i' dur)
    then show ?thesis using servable_index(2) [OF inv] by (auto dest!: terminal_InrD)
  qed simp
qed

section \<open>Epochs separate results from requests\<close>

definition stale :: "nat \<Rightarrow> 'a cache_scheme \<Rightarrow> bool" where
  "stale i s \<longleftrightarrow> i < spec_n s \<and> jepoch (job_at s i) < epoch s"

lemma grows_stale: "grows s s' \<Longrightarrow> stale i s \<Longrightarrow> stale i s'"
  using growsD(1,5) [of s s' i] by (auto simp: stale_def grows_def)

lemma stale_finish: "stale i s \<Longrightarrow> finish (Some i) t s = Inr (miss, s)"
  by (rule finish_miss [of _ i]) (auto simp: stale_def servable_def)

lemma bump_makes_stale:
  assumes "cache_inv s" and "bump_epoch clk s = Inr s1" and "i < spec_n s"
  shows "stale i s1"
proof -
  obtain s' where s': "bump_epoch clk s = Inr s'" "epoch s' = epoch s + 1" "spec_n s' = spec_n s"
      "map job_static (job_objs s') = map job_static (job_objs s)"
    using bump_epoch_spec [OF assms(1), of clk] by auto
  then have "job_static (job_at s' i) = job_static (job_at s i)"
    using static_nth [of "job_objs s'" "job_objs s" i] assms(3) cache_invD(5) [OF assms(1)] by simp
  then have "jepoch (job_at s' i) = jepoch (job_at s i)" by (rule job_static_fields(5))
  with s' assms(2,3) job_objD(2) [OF assms(1,3)] show ?thesis
    by (simp add: stale_def)
qed

section \<open>Where a served result comes from\<close>

lemma complete_job_at:
  assumes "cache_inv s" and "i < spec_n s"
  shows "job_at (complete sid v d s) i =
     (if sid = Spec i \<and> i \<in> snd ` set (jobs s)
      then (job_at s i)\<lparr>jresult := v, jduration := Some d, jdone := True\<rparr> else job_at s i)"
proof (cases "find_spec sid s")
  case None
  have "i \<notin> snd ` set (jobs s)" if "sid = Spec i"
  proof
    assume "i \<in> snd ` set (jobs s)"
    then obtain k where "(k, i) \<in> set (jobs s)" by force
    with find_spec_iff [OF assms(1), of i k i] None that show False by simp
  qed
  with None show ?thesis by (cases "sid = Spec i") (simp_all add: complete_def)
next
  case (Some p)
  then obtain k i' where p: "find_spec sid s = Some (k, i')" by (cases p) auto
  then have e: "(k, i') \<in> set (jobs s)" "jspec (job_at s i') = sid" by (auto dest: find_spec_SomeD)
  then have "i' \<in> snd ` set (jobs s)" by force
  with jobs_entryD(1,5) [OF assms(1) e(1)] e p assms cache_invD(5) [OF assms(1)] show ?thesis
    by (cases "i' = i") (simp_all add: complete_def)
qed

lemma discard_output: "map job_output (job_objs (discard_spec sid s)) = map job_output (job_objs s)"
  by (auto simp: discard_spec_def map_update_same split: option.splits)

lemma output_nth:
  assumes "map job_output (xs :: job list) = map job_output ys" and "i < length ys"
  shows "job_output (xs ! i) = job_output (ys ! i)"
  using assms by (metis map_eq_imp_length_eq nth_map)

lemma step_output:
  assumes inv: "cache_inv s" and i: "i < spec_n s"
  shows "job_output (job_at (cache_step clk s x) i) = job_output (job_at s i) \<or>
    (\<exists>v d. x = OpComplete (Spec i) v d \<and>
       job_output (job_at (cache_step clk s x) i) = (v, Some d))"
proof (cases x)
  case (OpReserve kind args launch sync)
  obtain key sid s' where r: "reserve kind args launch sync s = ((key, sid), s')"
    by (metis prod.exhaust)
  with OpReserve reserve_simps(3) [OF r] cache_invD(5) [OF inv] i show ?thesis
    by (simp add: cache_step_def nth_append)
next
  case (OpComplete sid v d)
  then show ?thesis
    using complete_job_at [OF inv i, of sid v d] by (auto simp: cache_step_def job_output_def)
next
  case (OpClaim kind args)
  obtain r s' where c: "claim kind args s = (r, s')" by (metis prod.exhaust)
  with OpClaim claim_frame(5) [OF c] show ?thesis by (simp add: cache_step_claim)
next
  case (OpFinish jo t)
  obtain r s' where f: "finish jo t s = Inr (r, s')" using finish_total [of jo t s] by auto
  with OpFinish finish_frame(6) [OF f] show ?thesis by (simp add: cache_step_def)
next
  case (OpDiscard sid)
  then show ?thesis
    using output_nth [OF discard_output [of sid s], of i] i cache_invD(5) [OF inv]
    by (simp add: cache_step_def)
next
  case OpBump
  obtain s' where "bump_epoch clk s = Inr s'"
      "map job_output (job_objs s') = map job_output (job_objs s)"
    using bump_epoch_spec [OF inv, of clk] by auto
  with OpBump output_nth [of "job_objs s'" "job_objs s" i] i cache_invD(5) [OF inv] show ?thesis
    by (simp add: cache_step_def)
qed

lemma cache_run_simps [simp]:
  "cache_run clk s [] = s" "cache_run clk s (x # xs) = cache_run clk (cache_step clk s x) xs"
  by (simp_all add: cache_run_def)

lemma run_output:
  assumes "cache_inv s" and "i < spec_n s"
  shows "job_output (job_at (cache_run clk s xs) i) = job_output (job_at s i) \<or>
    (\<exists>v d. OpComplete (Spec i) v d \<in> set xs \<and>
       job_output (job_at (cache_run clk s xs) i) = (v, Some d))"
  using assms
proof (induction xs arbitrary: s)
  case Nil
  then show ?case by simp
next
  case (Cons x xs)
  have "i < spec_n (cache_step clk s x)"
    using growsD(1) [OF grows_step [OF Cons.prems(1)] Cons.prems(2)] .
  from Cons.IH [OF cache_inv_step [OF Cons.prems(1)] this] step_output [OF Cons.prems, of clk x]
  show ?case by auto
qed

section \<open>Properties\<close>

definition cache_claims :: "clock \<Rightarrow> 'a cache_scheme \<Rightarrow> cache_op list \<Rightarrow> nat list" where
  "cache_claims clk = run_emits (cache_step clk) (claimed_by clk)"

definition cache_hits :: "clock \<Rightarrow> 'a cache_scheme \<Rightarrow> cache_op list \<Rightarrow> nat list" where
  "cache_hits clk = run_emits (cache_step clk) (hit_by clk)"

text \<open>C3: however the operations interleave, no job is handed to two claims.\<close>

theorem no_job_claimed_twice:
  "cache_inv s \<Longrightarrow> distinct (cache_claims clk s xs)"
  unfolding cache_claims_def by (rule claims.emitted_once)

definition demo_args :: pyval where
  "demo_args = PDict [(''cmd'', PStr ''pytest'')]"

definition demo_ops :: "cache_op list" where
  "demo_ops = [OpReserve ''test'' demo_args 0 False, OpReserve ''test'' demo_args 1 False,
     OpComplete (Spec 0) (PStr ''ok'') 5, OpClaim ''test'' demo_args, OpClaim ''test'' demo_args,
     OpFinish (Some 0) 3, OpFinish (Some 0) 9, OpClaim ''test'' demo_args]"

theorem no_job_claimed_twice_witness:
  "cache_claims (\<lambda>_. 0) init_cache demo_ops = [0, 1] \<and>
   distinct (cache_claims (\<lambda>_. 0) init_cache demo_ops)"
proof
  show "distinct (cache_claims (\<lambda>_. 0) init_cache demo_ops)"
    by (rule no_job_claimed_twice [OF cache_inv_init])
  show "cache_claims (\<lambda>_. 0) init_cache demo_ops = [0, 1]"
    by code_simp
qed

text \<open>C2: a speculation is served at most once, in any run.\<close>

theorem no_speculation_hit_twice:
  "cache_inv s \<Longrightarrow> distinct (cache_hits clk s xs)"
  unfolding cache_hits_def by (rule hits.emitted_once)

theorem no_speculation_hit_twice_witness:
  "cache_hits (\<lambda>_. 0) init_cache demo_ops = [0] \<and>
   distinct (cache_hits (\<lambda>_. 0) init_cache demo_ops)"
proof
  show "distinct (cache_hits (\<lambda>_. 0) init_cache demo_ops)"
    by (rule no_speculation_hit_twice [OF cache_inv_init])
  show "cache_hits (\<lambda>_. 0) init_cache demo_ops = [0]"
    by code_simp
qed

text \<open>
  C1: no result crosses an epoch. Once the epoch is bumped, a job reserved before can never
  be served, whatever happens afterwards, even to a request that had already claimed it.
\<close>

theorem no_result_crosses_epoch:
  assumes "cache_inv s" and "bump_epoch clk s = Inr s1" and "i < spec_n s"
  shows "finish (Some i) t (cache_run clk s1 xs) = Inr (miss, cache_run clk s1 xs)"
proof -
  have "cache_inv s1" using bump_epoch_spec [OF assms(1), of clk] assms(2) by auto
  from grows_stale [OF grows_run [OF this] bump_makes_stale [OF assms]]
  show ?thesis by (rule stale_finish)
qed

definition demo_before_bump :: cache where
  "demo_before_bump = cache_run (\<lambda>_. 0) init_cache
     [OpReserve ''test'' demo_args 0 False, OpComplete (Spec 0) (PStr ''ok'') 5,
      OpClaim ''test'' demo_args]"

definition demo_after_bump :: cache where
  "demo_after_bump = cache_step (\<lambda>_. 7) demo_before_bump OpBump"

lemma demo_bump: "cache_inv demo_before_bump"
    "bump_epoch (\<lambda>_. 7) demo_before_bump = Inr demo_after_bump" "0 < spec_n demo_before_bump"
proof -
  show inv: "cache_inv demo_before_bump"
    unfolding demo_before_bump_def by (rule cache_inv_run [OF cache_inv_init])
  obtain s' where "bump_epoch (\<lambda>_. 7) demo_before_bump = Inr s'"
    using bump_epoch_spec [OF inv, of "\<lambda>_. 7"] by auto
  then show "bump_epoch (\<lambda>_. 7) demo_before_bump = Inr demo_after_bump"
    by (simp add: demo_after_bump_def cache_step_def)
  show "0 < spec_n demo_before_bump" by code_simp
qed

theorem no_result_crosses_epoch_witness:
  "servable 0 demo_before_bump \<and>
   finish (Some 0) 9 (cache_run (\<lambda>_. 7) demo_after_bump []) =
     Inr (miss, cache_run (\<lambda>_. 7) demo_after_bump [])"
  using no_result_crosses_epoch [OF demo_bump, of 9 "[]"]
  by (intro conjI) (code_simp, simp)

text \<open>
  A hit answers the call that claimed it. If a request for \<open>kind\<close> and \<open>args\<close> claimed a
  job and finishing it later gives a hit, then no bump came between, the job is for that
  kind and those arguments, it has not been served before, and the result is the job's.
\<close>

theorem hit_answers_its_claim:
  assumes inv: "cache_inv s" and c: "claim kind args s = (Some i, s1)"
    and f: "finish (Some i) t (cache_run clk s1 xs) = Inr ((oc, k, r), s2)" and "oc \<noteq> ''miss''"
  shows "epoch (cache_run clk s1 xs) = epoch s \<and>
    Spec i \<notin> terminated (cache_run clk s1 xs) \<and> Spec i \<in> terminated s2 \<and>
    r = jresult (job_at (cache_run clk s1 xs) i) \<and>
    jkind (job_at (cache_run clk s1 xs) i) = kind \<and>
    canon (jargs (job_at (cache_run clk s1 xs) i)) = canon args"
proof -
  let ?u = "cache_run clk s1 xs"
  note d = claim_SomeD [OF inv c]
  note inv1 = cache_inv_claim [OF inv c]
  note g = growsD [OF grows_run [OF inv1, of clk xs], of i]
  have i: "i < spec_n s1" "job_at s1 i = job_at s i" using d(1) claim_frame [OF c] by simp_all
  from f \<open>oc \<noteq> ''miss''\<close> obtain dur where h: "servable i ?u" "r = jresult (job_at ?u i)"
      "terminal (jspec (job_at ?u i)) oc (saved_of (job_at ?u i) dur t) 0 ?u = Inr s2"
    by (cases rule: finish_cases) auto
  note sp = servable_index(2) [OF cache_inv_run [OF inv1] h(1)]
  have t: "Spec i \<notin> terminated ?u" "Spec i \<in> terminated s2"
    using h sp by (auto simp: servable_def dest: terminal_InrD)
  from d(3) have "jepoch (job_at s i) = epoch s" "jkind (job_at s i) = kind"
      "canon (jargs (job_at s i)) = canon args" by (simp_all add: job_slot_def)
  with g [OF i(1)] i(2) h(1) have "epoch ?u = epoch s" "jkind (job_at ?u i) = kind"
      "canon (jargs (job_at ?u i)) = canon args"
    by (simp_all add: servable_def)
  with t h(2) show ?thesis by simp
qed

definition demo_claimed :: cache where
  "demo_claimed = cache_run (\<lambda>_. 0) init_cache [OpReserve ''test'' demo_args 0 False]"

theorem hit_answers_its_claim_witness:
  "\<exists>s1 k s2. claim ''test'' demo_args demo_claimed = (Some 0, s1) \<and>
     finish (Some 0) 3 (cache_run (\<lambda>_. 0) s1 [OpComplete (Spec 0) (PStr ''ok'') 5]) =
       Inr ((''hit_promoted'', k, PStr ''ok''), s2) \<and>
     epoch (cache_run (\<lambda>_. 0) s1 [OpComplete (Spec 0) (PStr ''ok'') 5]) = epoch demo_claimed"
proof -
  have inv: "cache_inv demo_claimed"
    unfolding demo_claimed_def by (rule cache_inv_run [OF cache_inv_init])
  define s1 where "s1 = snd (claim ''test'' demo_args demo_claimed)"
  define u where "u = cache_run (\<lambda>_. 0) s1 [OpComplete (Spec 0) (PStr ''ok'') 5]"
  have "fst (claim ''test'' demo_args demo_claimed) = Some 0" by code_simp
  then have c: "claim ''test'' demo_args demo_claimed = (Some 0, s1)"
    by (simp add: s1_def prod_eq_iff)
  have "(case finish (Some 0) 3 (cache_run (\<lambda>_. 0) (snd (claim ''test'' demo_args demo_claimed))
      [OpComplete (Spec 0) (PStr ''ok'') 5]) of
      Inl e \<Rightarrow> False | Inr ((oc, k, r), s2) \<Rightarrow> oc = ''hit_promoted'' \<and> r = PStr ''ok'')"
    by code_simp
  then obtain k s2 where f: "finish (Some 0) 3 u = Inr ((''hit_promoted'', k, PStr ''ok''), s2)"
    by (auto simp: u_def s1_def split: sum.splits prod.splits)
  have "epoch u = epoch demo_claimed"
    using hit_answers_its_claim [OF inv c f [unfolded u_def]] by (simp add: u_def)
  with c f show ?thesis by (auto simp: u_def)
qed

text \<open>
  Provenance. A result served for a speculation is a value its worker reported for this
  very speculation after it was reserved.
\<close>

theorem hit_result_was_completed:
  assumes inv: "cache_inv s" and r: "reserve kind args l sync s = ((key, Spec i), s0)"
    and f: "finish (Some i) t (cache_run clk s0 xs) = Inr ((oc, k, v), s2)" and "oc \<noteq> ''miss''"
  shows "\<exists>d. OpComplete (Spec i) v d \<in> set xs"
proof -
  let ?u = "cache_run clk s0 xs"
  note R = reserve_simps [OF r]
  from R(1) have i: "i = spec_n s" by simp
  have "job_output (job_at s0 i) = (PNone, None)"
    using R(3) cache_invD(5) [OF inv] by (simp add: i nth_append job_output_def mk_job_def)
  moreover have "i < spec_n s0" using R(5) i by simp
  moreover from f \<open>oc \<noteq> ''miss''\<close> have "servable i ?u" "v = jresult (job_at ?u i)"
    by (cases rule: finish_cases; simp)+
  ultimately show ?thesis
    using run_output [OF cache_inv_reserve [OF inv r], of i clk xs]
    by (auto simp: job_output_def servable_def)
qed

theorem hit_result_was_completed_witness:
  "\<exists>v d. finish (Some 0) 3 (cache_run (\<lambda>_. 0) demo_claimed
      [OpComplete (Spec 0) (PStr ''ok'') 5, OpClaim ''test'' demo_args]) \<noteq> Inr (miss, demo_claimed) \<and>
     OpComplete (Spec 0) v d \<in> set [OpComplete (Spec 0) (PStr ''ok'') 5, OpClaim ''test'' demo_args]"
proof -
  let ?xs = "[OpComplete (Spec 0) (PStr ''ok'') 5, OpClaim ''test'' demo_args]"
  define s0 where "s0 = snd (reserve ''test'' demo_args 0 False init_cache)"
  have "snd (fst (reserve ''test'' demo_args 0 False init_cache)) = Spec 0" by code_simp
  then obtain key where r: "reserve ''test'' demo_args 0 False init_cache = ((key, Spec 0), s0)"
    by (cases "reserve ''test'' demo_args 0 False init_cache") (auto simp: s0_def)
  have same: "demo_claimed = s0"
    by (simp add: demo_claimed_def cache_step_def s0_def split: prod.splits)
  have "(case finish (Some 0) 3 (cache_run (\<lambda>_. 0) demo_claimed ?xs) of
      Inl e \<Rightarrow> False | Inr ((oc, k, r), s2) \<Rightarrow> oc = ''hit_promoted'' \<and> r = PStr ''ok'')"
    by code_simp
  then obtain k s2 where
    f: "finish (Some 0) 3 (cache_run (\<lambda>_. 0) s0 ?xs) = Inr ((''hit_promoted'', k, PStr ''ok''), s2)"
    by (auto simp: same split: sum.splits prod.splits)
  from hit_result_was_completed [OF cache_inv_init r f] f show ?thesis
    by (auto simp: same miss_def)
qed

text \<open>
  What is put is what is served. With no older unclaimed reservation of the same call, a
  stored result is served to the next equal call (equal arguments, not the same object),
  and the ledger is credited with exactly the latency it hid.
\<close>

theorem put_then_serve:
  assumes inv: "cache_inv s" and p: "put clk kind args dur v (Some l) sync s = ((key, sid), s1)"
    and eq: "py_eq args args'"
    and none: "serves s (kind, canon args, epoch s) = puts s (kind, canon args, epoch s)"
  shows "\<exists>s2. serve kind args' t s1 = Some (Inr
      ((if l + dur \<le> t then ''hit_completed'' else ''hit_promoted'', Some key, v), s2)) \<and>
    total_saved_ms s2 = total_saved_ms s + (if sync then 0 else max 0 (min dur (t - l)))"
proof -
  obtain s0 where r: "reserve kind args l sync s = ((key, sid), s0)"
      and s1: "s1 = complete sid v dur s0"
    using p by (auto simp: put_def Let_def split: prod.splits)
  note R = reserve_simps [OF r]
  let ?n = "spec_n s" and ?sl = "(kind, canon args, epoch s)"
  have inv0: "cache_inv s0" by (rule cache_inv_reserve [OF inv r])
  have key: "key = (kind, canon args, puts s ?sl, epoch s)" using R(2) by simp
  have J0: "jobs s0 = jobs s @ [(key, ?n)]"
    using dict_set_fresh [OF fresh_key_jobs [OF inv, of kind args]] R(4) cache_invD(5) [OF inv]
    by (simp add: key)
  have obj: "job_at s0 ?n = mk_job sid kind args (puts s ?sl) (epoch s) l sync"
    using R(1,3) cache_invD(5) [OF inv] by (simp add: nth_append)
  have "?n \<in> snd ` set (jobs s0)" by (simp add: J0)
  then have at: "job_at s1 ?n = (job_at s0 ?n)\<lparr>jresult := v, jduration := Some dur, jdone := True\<rparr>"
    using complete_job_at [OF inv0, of ?n sid v dur] R(1,5) s1 by simp
  have inv1: "cache_inv s1" unfolding s1 by (rule cache_inv_complete [OF inv0])
  have get: "dict_get (jobs s1) key = Some ?n"
    using jobs_entryD(4) [OF inv0, of key ?n] by (simp add: s1 frame_simps J0)
  have sl1: "epoch s1 = epoch s" "serves s1 ?sl = puts s ?sl" "puts s1 ?sl = puts s ?sl + 1"
    using none R(6,7,8) by (simp_all add: s1 frame_simps)
  have "claim_scan (\<lambda>oc. dict_get (jobs s1) (kind, canon args, oc, epoch s)) (puts s ?sl)
      (puts s ?sl + 1) = (puts s ?sl, Some ?n)"
    using get by (simp add: claim_scan.simps key)
  then obtain s1' where c: "claim kind args' s1 = (Some ?n, s1')"
    using sl1 py_eq_canon [OF eq] by (simp add: claim_def Let_def)
  note cf = claim_frame [OF c]
  have "Spec ?n \<notin> terminated s"
    using cache_invD(7) [OF inv] by (auto simp: ended_inv_def)
  then have ended: "Spec ?n \<notin> terminated s1'" by (simp add: cf s1 frame_simps R(9))
  have J: "job_at s1' ?n = (mk_job (Spec ?n) kind args (puts s ?sl) (epoch s) l sync)
      \<lparr>jresult := v, jduration := Some dur, jdone := True\<rparr>"
    using R(1) by (simp add: cf at obj)
  have k: "job_key (job_at s1' ?n) = key" by (simp add: J job_key_def mk_job_def key)
  have "dict_get (jobs s1') key = Some ?n" by (simp add: cf get)
  with ended k have "servable ?n s1'" by (simp add: servable_def J sl1(1) cf(1) mk_job_def)
  moreover have dur: "jduration (job_at s1' ?n) = Some dur" by (simp add: J)
  ultimately obtain s2 where f: "finish (Some ?n) t s1' =
      Inr ((if done_by (job_at s1' ?n) dur t then ''hit_completed'' else ''hit_promoted'',
            Some (job_key (job_at s1' ?n)), jresult (job_at s1' ?n)), s2)"
    and tm: "terminal (jspec (job_at s1' ?n))
      (if done_by (job_at s1' ?n) dur t then ''hit_completed'' else ''hit_promoted'')
      (saved_of (job_at s1' ?n) dur t) 0 s1' = Inr s2"
    using finish_hit by blast
  have "done_by (job_at s1' ?n) dur t \<longleftrightarrow> l + dur \<le> t" "jresult (job_at s1' ?n) = v"
      "saved_of (job_at s1' ?n) dur t = (if sync then 0 else max 0 (min dur (t - l)))"
    by (simp_all add: J done_by_def saved_of_def mk_job_def)
  moreover have "total_saved_ms s1' = total_saved_ms s"
    using cf(8) R(10) by (simp add: s1 frame_simps)
  moreover have "jdone (job_at s1 ?n)" by (simp add: at)
  ultimately show ?thesis
    using f tm c k cf(5) by (auto simp: serve_def dest!: terminal_InrD)
qed

theorem put_then_serve_witness:
  "\<exists>key s2. serve ''test'' demo_args 10
      (snd (put (\<lambda>_. 0) ''test'' demo_args 5 (PStr ''ok'') (Some 2) False init_cache)) =
      Some (Inr ((''hit_completed'', Some key, PStr ''ok''), s2)) \<and>
    total_saved_ms s2 = 5"
proof -
  obtain key sid s1 where p: "put (\<lambda>_. 0) ''test'' demo_args 5 (PStr ''ok'') (Some 2) False
      init_cache = ((key, sid), s1)"
    by (metis prod.exhaust)
  have "serves init_cache (''test'', canon demo_args, epoch init_cache) =
      puts init_cache (''test'', canon demo_args, epoch init_cache)"
    by (simp add: init_cache_def ledger.defs)
  moreover have "total_saved_ms init_cache = 0"
    by (simp add: init_cache_def ledger.defs init_ledger_def)
  ultimately show ?thesis
    using put_then_serve [OF cache_inv_init p py_eq_refl, of 10]
    by (intro exI [of _ key]) (auto simp: p)
qed

definition cache_raises :: "clock \<Rightarrow> 'a cache_scheme \<Rightarrow> cache_op list \<Rightarrow> py_error list" where
  "cache_raises clk = run_emits (cache_step clk)
     (\<lambda>s x. case fst (cache_exec clk s x) of OutRaised e \<Rightarrow> [e] | _ \<Rightarrow> [])"

text \<open>C4: no operation of the cache raises, whatever the order of calls.\<close>

theorem cache_run_never_raises:
  "cache_inv s \<Longrightarrow> cache_raises clk s xs = []"
proof (induction xs arbitrary: s)
  case Nil
  then show ?case by (simp add: cache_raises_def)
next
  case (Cons x xs)
  with cache_inv_step [OF Cons.prems, of clk x] cache_never_raises [OF Cons.prems, of clk x]
  show ?case by (simp add: cache_raises_def split: cache_out.split)
qed

theorem cache_run_never_raises_witness:
  "cache_raises (\<lambda>_. 0) init_cache (demo_ops @ [OpBump, OpFinish (Some 0) 1, OpBump]) = []"
  by (rule cache_run_never_raises [OF cache_inv_init])

text \<open>
  A bump ends every live speculation exactly once as expired, wakes every request that
  waits for one, saves nothing and leaves no job behind.
\<close>

theorem bump_epoch_ends_all:
  assumes inv: "cache_inv s"
  shows "\<exists>s'. bump_epoch clk s = Inr s' \<and> cache_inv s' \<and> epoch s' = epoch s + 1 \<and> jobs s' = [] \<and>
    total_saved_ms s' = total_saved_ms s \<and>
    (\<forall>i \<in> snd ` set (jobs s). Spec i \<in> terminated s' \<and> jdone (job_at s' i))"
  using bump_epoch_spec [OF inv, of clk] by fastforce

theorem bump_epoch_ends_all_witness:
  "\<exists>s'. bump_epoch (\<lambda>_. 7) demo_claimed = Inr s' \<and> jobs s' = [] \<and> snd ` set (jobs demo_claimed) = {0}"
proof -
  have "cache_inv demo_claimed"
    unfolding demo_claimed_def by (rule cache_inv_run [OF cache_inv_init])
  moreover have "map snd (jobs demo_claimed) = [0]" by code_simp
  then have "snd ` set (jobs demo_claimed) = {0}" by (metis list.set(1,2) set_map)
  ultimately show ?thesis
    using bump_epoch_ends_all [of demo_claimed "\<lambda>_. 7"] by auto
qed

end
