(* ===== verification/Executor.thy ===== *)
theory Executor
  imports Cache_Machine
begin

text \<open>
  sfx/executor.py: speculative calls run on a pool of threads, at most \<open>slots\<close> of the
  predicted kind at a time. The executor shares the session's ledger and cache, so its state
  extends theirs. A worker thread's job is not code of the program: its outcome (a result
  with a duration, or an exception) is an argument of the step in which it reports.
\<close>

section \<open>State\<close>

datatype future = FPending | FDone (f_exception: bool) | FCancelled
where
  "f_exception FPending = False"
| "f_exception FCancelled = False"

definition f_done :: "future \<Rightarrow> bool" where
  "f_done f \<longleftrightarrow> f \<noteq> FPending"

record exec_spec =
  x_key :: job_key
  x_spec_id :: spec_id
  x_priority :: rat
  x_launch :: rat
  x_future :: "future option"
  x_duration :: "rat option"
  x_promoted :: bool
  x_failed :: bool

text \<open>
  \<open>chain_futures\<close> holds the futures of chain jobs, by speculation; \<open>pool_open\<close> is false
  once the pool was shut down.
\<close>

record executor = cache +
  slots :: nat
  running :: "job_key set"
  specs :: "(job_key, exec_spec) dict"
  chain_futures :: "(spec_id, future) dict"
  pool_open :: bool

definition init_executor :: "nat \<Rightarrow> executor" where
  "init_executor n = cache.extend init_cache
     \<lparr>slots = n, running = {}, specs = [], chain_futures = [], pool_open = True\<rparr>"

section \<open>Operations\<close>

definition spec_over :: "rat \<Rightarrow> exec_spec \<Rightarrow> bool" where
  "spec_over t sp \<longleftrightarrow> x_failed sp \<or>
     (case x_future sp of None \<Rightarrow> True | Some f \<Rightarrow> f_done f) \<and>
     (case x_duration sp of None \<Rightarrow> False | Some d \<Rightarrow> x_launch sp + d \<le> t)"

text \<open>\<^verbatim>\<open>free_slots\<close> first retires the speculations that are over, looking each key up.\<close>

definition free_slots :: "clock \<Rightarrow> 'a executor_scheme \<Rightarrow> py_error + (int \<times> 'a executor_scheme)" where
  "free_slots clk s =
     (let t = now clk s; s1 = tick s in
      if \<not> running s \<subseteq> fst ` set (specs s) then Inl (KeyError ''specs'')
      else let left = Set.filter (\<lambda>k. \<not> (case dict_get (specs s) k of
                 None \<Rightarrow> False | Some sp \<Rightarrow> spec_over t sp)) (running s)
           in Inr (int (slots s) - int (card left), s1\<lparr>running := left\<rparr>))"

definition speculate ::
  "clock \<Rightarrow> string \<Rightarrow> pyval \<Rightarrow> rat \<Rightarrow> 'a executor_scheme \<Rightarrow>
   py_error + (job_key option \<times> 'a executor_scheme)" where
  "speculate clk kind args priority s =
     (case free_slots clk s of
        Inl e \<Rightarrow> Inl e
      | Inr (free, s1) \<Rightarrow>
          if free \<le> 0 then Inr (None, s1)
          else let launch = now clk s1;
                   ((key, sid), s2) = reserve kind args launch False (tick s1);
                   sp = \<lparr>x_key = key, x_spec_id = sid, x_priority = priority, x_launch = launch,
                         x_future = Some FPending, x_duration = None, x_promoted = False,
                         x_failed = False\<rparr>
               in if \<not> pool_open s then Inl (RuntimeError ''cannot schedule new futures'')
                  else Inr (Some key, s2\<lparr>specs := dict_set key sp (specs s2),
                                         running := insert key (running s2)\<rparr>))"

definition submit_chain ::
  "clock \<Rightarrow> string \<Rightarrow> pyval \<Rightarrow> 'a executor_scheme \<Rightarrow> py_error + (spec_id \<times> 'a executor_scheme)" where
  "submit_chain clk kind args s =
     (let launch = now clk s;
          ((key, sid), s1) = reserve kind args launch False (tick s)
      in if \<not> pool_open s then Inl (RuntimeError ''cannot schedule new futures'')
         else Inr (sid, s1\<lparr>chain_futures := dict_set sid FPending (chain_futures s1)\<rparr>))"

text \<open>What a job did: returned a result and a duration, or raised.\<close>

type_synonym job_outcome = "(pyval \<times> rat) option"

text \<open>\<^verbatim>\<open>_run\<close> on a worker thread, up to the point where its future is done.\<close>

definition worker_run :: "job_key \<Rightarrow> job_outcome \<Rightarrow> 'a executor_scheme \<Rightarrow> 'a executor_scheme" where
  "worker_run key outcome s =
     (case dict_get (specs s) key of
        None \<Rightarrow> s
      | Some sp \<Rightarrow>
          (case outcome of
             None \<Rightarrow>
               let s1 = discard_spec (x_spec_id sp) s in
               s1\<lparr>specs := dict_set key (sp\<lparr>x_failed := True\<rparr>) (specs s1)\<rparr>
           | Some (result, duration) \<Rightarrow>
               complete (x_spec_id sp) result duration
                 (s\<lparr>specs := dict_set key (sp\<lparr>x_duration := Some duration\<rparr>) (specs s)\<rparr>)))"

definition worker_exit :: "job_key \<Rightarrow> 'a executor_scheme \<Rightarrow> 'a executor_scheme" where
  "worker_exit key s =
     (case dict_get (specs s) key of
        None \<Rightarrow> s
      | Some sp \<Rightarrow> s\<lparr>specs := dict_set key (sp\<lparr>x_future := Some (FDone False)\<rparr>) (specs s)\<rparr>)"

text \<open>\<^verbatim>\<open>_run_chain\<close>: it re-raises, so a failed chain job leaves an exception in its future.\<close>

definition chain_run :: "spec_id \<Rightarrow> job_outcome \<Rightarrow> 'a executor_scheme \<Rightarrow> 'a executor_scheme" where
  "chain_run sid outcome s =
     (case outcome of
        None \<Rightarrow> let s1 = discard_spec sid s in
          s1\<lparr>chain_futures := dict_set sid (FDone True) (chain_futures s1)\<rparr>
      | Some (result, duration) \<Rightarrow> let s1 = complete sid result duration s in
          s1\<lparr>chain_futures := dict_set sid (FDone False) (chain_futures s1)\<rparr>)"

text \<open>\<^verbatim>\<open>drain\<close> waits for every future; \<open>None\<close> is a call that still blocks.\<close>

definition drain :: "clock \<Rightarrow> 'a executor_scheme \<Rightarrow> (py_error + 'a executor_scheme) option" where
  "drain clk s =
     (if \<exists>sp \<in> snd ` set (specs s). x_future sp = Some FPending then None
      else Some (case free_slots clk s of Inl e \<Rightarrow> Inl e | Inr (n, s') \<Rightarrow> Inr s'))"

definition promote :: "job_key \<Rightarrow> 'a executor_scheme \<Rightarrow> py_error + 'a executor_scheme" where
  "promote key s =
     (case dict_get (specs s) key of
        None \<Rightarrow> Inl (KeyError ''specs'')
      | Some sp \<Rightarrow> Inr (s\<lparr>specs := dict_set key (sp\<lparr>x_promoted := True\<rparr>) (specs s)\<rparr>))"

text \<open>
  \<^verbatim>\<open>shutdown\<close> cancels the futures whose job no worker thread has started yet; which ones
  these are depends on the threads, so \<open>queued\<close> is an argument.
\<close>

definition cancel_future :: "spec_id set \<Rightarrow> spec_id \<Rightarrow> future \<Rightarrow> future" where
  "cancel_future queued sid f = (if sid \<in> queued \<and> f = FPending then FCancelled else f)"

definition shutdown_pool :: "spec_id set \<Rightarrow> 'a executor_scheme \<Rightarrow> 'a executor_scheme" where
  "shutdown_pool queued s = s\<lparr>pool_open := False,
     specs := map (\<lambda>(k, sp). (k, sp\<lparr>x_future := map_option (cancel_future queued (x_spec_id sp)) (x_future sp)\<rparr>))
       (specs s),
     chain_futures := map (\<lambda>(sid, f). (sid, cancel_future queued sid f)) (chain_futures s)\<rparr>"

definition preempt_candidates :: "'a executor_scheme \<Rightarrow> exec_spec list" where
  "preempt_candidates s =
     map snd (filter (\<lambda>(k, sp). k \<in> running s \<and> \<not> x_promoted sp \<and> x_spec_id sp \<notin> terminated s)
       (specs s))"

text \<open>The first of the candidates with least priority, as Python's \<^verbatim>\<open>min\<close> picks it.\<close>

definition preempt_one :: "clock \<Rightarrow> 'a executor_scheme \<Rightarrow> py_error + 'a executor_scheme" where
  "preempt_one clk s =
     (let candidates = preempt_candidates s in
      if candidates = [] then Inr s
      else let victim = arg_min_list x_priority candidates;
               (dur, s1) = (case x_duration victim of
                              Some d \<Rightarrow> (d, s)
                            | None \<Rightarrow> (now clk s - x_launch victim, tick s));
               wasted = min dur (now clk s1 - x_launch victim)
           in case terminal (x_spec_id victim) ''preempted'' 0 wasted (tick s1) of
                Inl e \<Rightarrow> Inl e
              | Inr s2 \<Rightarrow> Inr (s2\<lparr>running := running s2 - {x_key victim}\<rparr>))"

text \<open>
  \<^verbatim>\<open>authoritative\<close>: the real call runs in the caller's thread, after making room when it
  needs a slot; its result is the argument.
\<close>

definition authoritative ::
  "clock \<Rightarrow> bool \<Rightarrow> pyval \<Rightarrow> 'a executor_scheme \<Rightarrow> py_error + (pyval \<times> 'a executor_scheme)" where
  "authoritative clk need_slot result s =
     (if need_slot
      then case free_slots clk s of
             Inl e \<Rightarrow> Inl e
           | Inr (free, s1) \<Rightarrow>
               (if free \<le> 0
                then case preempt_one clk s1 of Inl e \<Rightarrow> Inl e | Inr s2 \<Rightarrow> Inr (result, s2)
                else Inr (result, s1))
      else Inr (result, s))"

section \<open>The invariant\<close>

text \<open>
  Every running key has a spec; every spec is filed under its own key and belongs to the job
  of that key; no more than \<open>slots\<close> keys are running.
\<close>

definition spec_matches :: "'a executor_scheme \<Rightarrow> job_key \<Rightarrow> exec_spec \<Rightarrow> bool" where
  "spec_matches s k sp \<longleftrightarrow> x_key sp = k \<and>
     (\<exists>i < spec_n s. x_spec_id sp = Spec i \<and> job_key (job_at s i) = k)"

definition specs_inv :: "'a executor_scheme \<Rightarrow> bool" where
  "specs_inv s \<longleftrightarrow> distinct (map fst (specs s)) \<and> (\<forall>p \<in> set (specs s). spec_matches s (fst p) (snd p))"

definition slots_inv :: "'a executor_scheme \<Rightarrow> bool" where
  "slots_inv s \<longleftrightarrow> finite (running s) \<and> running s \<subseteq> fst ` set (specs s) \<and> card (running s) \<le> slots s"

definition exec_inv :: "'a executor_scheme \<Rightarrow> bool" where
  "exec_inv s \<longleftrightarrow> cache_inv s \<and> specs_inv s \<and> slots_inv s"

lemma exec_invD:
  assumes "exec_inv s"
  shows "cache_inv s" "specs_inv s" "slots_inv s" "finite (running s)"
    "running s \<subseteq> fst ` set (specs s)" "card (running s) \<le> slots s" "distinct (map fst (specs s))"
  using assms by (simp_all add: exec_inv_def specs_inv_def slots_inv_def)

lemma exec_inv_init: "exec_inv (init_executor n)"
proof -
  have "cache_inv (init_executor n)"
    using cache_inv_init by (simp add: init_executor_def init_cache_def init_ledger_def cache.defs
        ledger.defs cache_inv_def ledger_inv_def ended_ids_def objs_inv_def jobs_inv_def
        counts_inv_def ended_inv_def)
  then show ?thesis
    by (simp add: exec_inv_def specs_inv_def slots_inv_def init_executor_def cache.defs)
qed

lemma spec_matches_grows:
  "spec_matches s k sp \<Longrightarrow> grows s s' \<Longrightarrow> spec_matches s' k sp"
  unfolding spec_matches_def using growsD(1,2) by metis

text \<open>A cache operation in between: the specs stay right, because jobs only grow.\<close>

lemma exec_inv_cache:
  assumes "exec_inv s" and "cache_inv s'" "grows s s'"
    and "specs s' = specs s" "running s' \<subseteq> running s" "slots s' = slots s"
  shows "exec_inv s'"
proof -
  have "card (running s') \<le> card (running s)"
    by (rule card_mono [OF exec_invD(4) [OF assms(1)] assms(5)])
  then have "slots_inv s'"
    using exec_invD [OF assms(1)] assms(4-6) finite_subset [OF assms(5)]
    by (auto simp: slots_inv_def)
  moreover have "specs_inv s'"
    using exec_invD(2) [OF assms(1)] spec_matches_grows [OF _ assms(3)] assms(4)
    by (auto simp: specs_inv_def)
  ultimately show ?thesis using assms(2) by (simp add: exec_inv_def)
qed

text \<open>The executor's own fields are what lies above the cache.\<close>

lemma exec_fields_of_more:
  fixes s s' :: "'a executor_scheme"
  assumes "cache.more s' = cache.more s"
  shows "slots s' = slots s" "running s' = running s" "specs s' = specs s"
    "chain_futures s' = chain_futures s" "pool_open s' = pool_open s"
    "executor.more s' = executor.more s"
  using assms by (cases s; cases s'; simp)+

lemma exec_inv_cache_op:
  assumes "exec_inv s" and "cache_inv s'" "grows s s'" and "cache.more s' = cache.more s"
  shows "exec_inv s'"
  using exec_fields_of_more [OF assms(4)] by (intro exec_inv_cache [OF assms(1-3)]) simp_all

end
