(* ===== verification/Executor_Machine.thy ===== *)
theory Executor_Machine
  imports Executor
begin

text \<open>
  The executor of sfx/executor.py as a machine over the shared cache: requests launch and
  preempt, worker threads report, and cache operations come in between, in any order.
\<close>

section \<open>Each operation keeps the invariant\<close>

lemma cache_inv_ticks [simp]: "cache_inv (s\<lparr>ticks := n\<rparr>) = cache_inv s"
  by (rule cache_inv_cong) simp_all

lemma exec_inv_ticks [simp]: "exec_inv (s\<lparr>ticks := n\<rparr>) = exec_inv s"
proof -
  have "spec_matches (s\<lparr>ticks := n\<rparr>) = spec_matches s"
    by (intro ext) (simp add: spec_matches_def)
  then show ?thesis by (simp add: exec_inv_def specs_inv_def slots_inv_def)
qed

lemma cache_inv_exec_fields [simp]:
  fixes s :: "'a executor_scheme"
  shows "cache_inv (s\<lparr>running := r\<rparr>) = cache_inv s" "cache_inv (s\<lparr>specs := sp\<rparr>) = cache_inv s"
    "cache_inv (s\<lparr>chain_futures := cf\<rparr>) = cache_inv s" "cache_inv (s\<lparr>pool_open := b\<rparr>) = cache_inv s"
  by (rule cache_inv_cong; simp)+

lemma free_slots_spec:
  assumes "exec_inv s"
  shows "\<exists>s'. free_slots clk s = Inr (int (slots s) - int (card (running s')), s') \<and>
    s' = s\<lparr>ticks := Suc (ticks s), running := running s'\<rparr> \<and>
    running s' = {k \<in> running s. \<forall>sp. dict_get (specs s) k = Some sp \<longrightarrow> \<not> spec_over (now clk s) sp} \<and>
    exec_inv s'"
proof -
  let ?left = "{k \<in> running s. \<forall>sp. dict_get (specs s) k = Some sp \<longrightarrow> \<not> spec_over (now clk s) sp}"
  let ?s' = "s\<lparr>ticks := Suc (ticks s), running := ?left\<rparr>"
  have eq: "Set.filter (\<lambda>k. \<not> (case dict_get (specs s) k of None \<Rightarrow> False
      | Some sp \<Rightarrow> spec_over (now clk s) sp)) (running s) = ?left"
    by (auto split: option.splits)
  have "exec_inv ?s'"
  proof (rule exec_inv_cache [OF assms])
    show "cache_inv ?s'" using exec_invD(1) [OF assms] by simp
    show "grows s ?s'" by (simp add: grows_def)
  qed auto
  then show ?thesis
    using exec_invD(5) [OF assms]
    by (intro exI [of _ ?s']) (simp add: free_slots_def Let_def tick_def eq del: Set.filter_eq)
qed

lemma free_slots_InrD:
  assumes "exec_inv s" and "free_slots clk s = Inr (n, s')"
  shows "exec_inv s'" "n = int (slots s) - int (card (running s'))"
    "s' = s\<lparr>ticks := Suc (ticks s), running := running s'\<rparr>" "running s' \<subseteq> running s"
  using free_slots_spec [OF assms(1), of clk] assms(2) by auto

lemma specs_inv_dict_set:
  assumes "specs_inv s" and "spec_matches s key sp"
  shows "specs_inv (s\<lparr>specs := dict_set key sp (specs s)\<rparr>)"
proof -
  have m: "spec_matches (s\<lparr>specs := d\<rparr>) = spec_matches s" for d
    by (intro ext) (simp add: spec_matches_def)
  show ?thesis
    using assms by (auto simp: specs_inv_def m distinct_dict_set set_dict_set)
qed

lemma grows_reserve:
  assumes "cache_inv s" and "reserve kind args l sync s = ((key, sid), s')"
  shows "grows s s'"
  using grows_step [OF assms(1), of "\<lambda>_. 0" "OpReserve kind args l sync"] assms(2)
  by (simp add: cache_step_def)

lemma reserve_matches:
  assumes "cache_inv s" and r: "reserve kind args l sync s = ((key, sid), s')"
    and "x_key sp = key" "x_spec_id sp = sid"
  shows "spec_matches s' key sp"
  using reserve_simps(1,2,3,5) [OF r] cache_invD(5) [OF assms(1)] assms(3,4)
  by (auto simp: spec_matches_def nth_append intro!: exI [of _ "spec_n s"])

lemma reserve_key_fresh:
  assumes "exec_inv s" and r: "reserve kind args l sync s = ((key, sid), s')"
  shows "key \<notin> fst ` set (specs s)"
proof
  assume "key \<in> fst ` set (specs s)"
  then obtain sp where "(key, sp) \<in> set (specs s)" by auto
  then have "spec_matches s key sp"
    using exec_invD(2) [OF assms(1)] by (force simp: specs_inv_def)
  then obtain i where "i < spec_n s" "job_key (job_at s i) = key" by (auto simp: spec_matches_def)
  with fresh_key [OF cache_invD(2) [OF exec_invD(1) [OF assms(1)]], of i kind args]
    reserve_simps(2) [OF r] show False by simp
qed

lemma speculate_spec:
  assumes inv: "exec_inv s" and sp: "speculate clk kind args priority s = Inr (ko, s')"
  shows "exec_inv s' \<and> (ko = None \<longrightarrow> running s' \<subseteq> running s \<and> card (running s') = slots s) \<and>
    (\<forall>key. ko = Some key \<longrightarrow> key \<in> running s' \<and> key \<notin> running s)"
proof -
  obtain n s1 where f: "free_slots clk s = Inr (n, s1)" using free_slots_spec [OF inv] by blast
  note F = free_slots_InrD [OF inv f]
  show ?thesis
  proof (cases "n \<le> 0")
    case True
    with sp f have "ko = None" "s' = s1" by (auto simp: speculate_def)
    moreover have "card (running s1) \<le> slots s1" using exec_invD(6) [OF F(1)] .
    moreover have "slots s1 = slots s" by (subst F(3)) simp
    ultimately show ?thesis using F True by auto
  next
    case False
    obtain key sid s2 where r: "reserve kind args (now clk s1) False (tick s1) = ((key, sid), s2)"
      by (metis prod.exhaust)
    define x where "x = \<lparr>x_key = key, x_spec_id = sid, x_priority = priority,
      x_launch = now clk s1, x_future = Some FPending, x_duration = None, x_promoted = False,
      x_failed = False\<rparr>"
    have s': "ko = Some key" "s' = s2\<lparr>specs := dict_set key x (specs s2),
        running := insert key (running s2)\<rparr>"
      using sp f r False by (auto simp: speculate_def Let_def x_def split: if_splits)
    have inv1: "exec_inv (tick s1)" using F(1) by (simp add: tick_def)
    note c1 = exec_invD(1) [OF inv1]
    have more: "cache.more s2 = cache.more (tick s1)"
      using reserve_more [of kind args "now clk s1" False "tick s1"] by (simp add: r)
    note X = exec_fields_of_more [OF more]
    have inv2: "exec_inv s2"
      by (rule exec_inv_cache_op [OF inv1 cache_inv_reserve [OF c1 r] grows_reserve [OF c1 r] more])
    have fresh: "key \<notin> fst ` set (specs s2)"
      using reserve_key_fresh [OF inv1 r] X(3) by simp
    have notrun: "key \<notin> running s"
    proof -
      have "specs (tick s1) = specs s" by (subst F(3)) (simp add: tick_def)
      then show ?thesis using reserve_key_fresh [OF inv1 r] exec_invD(5) [OF inv] by auto
    qed
    have "spec_matches s2 key x" by (rule reserve_matches [OF c1 r]) (simp_all add: x_def)
    from specs_inv_dict_set [OF exec_invD(2) [OF inv2] this]
    have "specs_inv s'" by (simp add: s' specs_inv_def spec_matches_def)
    moreover have "slots_inv s'"
    proof -
      have "running s2 = running s1" "slots s2 = slots s"
        using X(1,2) by (simp_all add: tick_def) (subst F(3), simp)
      then have "card (running s2) < slots s2" using F(2) False by simp
      then show ?thesis
        using exec_invD(4,5) [OF inv2] fresh
        by (auto simp: slots_inv_def s' dom_update card_insert_if)
    qed
    moreover have "cache_inv s'" using exec_invD(1) [OF inv2] by (simp add: s')
    ultimately show ?thesis using s' notrun by (simp add: exec_inv_def)
  qed
qed


lemma spec_matches_fields [simp]:
  "spec_matches (s\<lparr>specs := d\<rparr>) = spec_matches s" "spec_matches (s\<lparr>running := r\<rparr>) = spec_matches s"
  "spec_matches (s\<lparr>chain_futures := cf\<rparr>) = spec_matches s"
  "spec_matches (s\<lparr>pool_open := b\<rparr>) = spec_matches s"
  by (intro ext, simp add: spec_matches_def)+

lemma exec_inv_chain_futures [simp]: "exec_inv (s\<lparr>chain_futures := cf\<rparr>) = exec_inv s"
  by (simp add: exec_inv_def specs_inv_def slots_inv_def)

lemma exec_inv_pool_open [simp]: "exec_inv (s\<lparr>pool_open := b\<rparr>) = exec_inv s"
  by (simp add: exec_inv_def specs_inv_def slots_inv_def)

lemma specs_entryD:
  assumes "exec_inv s" and "dict_get (specs s) key = Some sp"
  shows "spec_matches s key sp" "key \<in> fst ` set (specs s)"
  using exec_invD(2) [OF assms(1)] map_of_SomeD [OF assms(2)]
  by (force simp: specs_inv_def)+

text \<open>Changing the mutable fields of a filed spec.\<close>

lemma exec_inv_respec:
  assumes "exec_inv s" and "dict_get (specs s) key = Some sp"
    and "x_key sp' = x_key sp" "x_spec_id sp' = x_spec_id sp"
  shows "exec_inv (s\<lparr>specs := dict_set key sp' (specs s)\<rparr>)"
proof -
  have m: "spec_matches s key sp'"
    using specs_entryD(1) [OF assms(1,2)] assms(3,4) by (simp add: spec_matches_def)
  have "fst ` set (dict_set key sp' (specs s)) = fst ` set (specs s)"
    using specs_entryD(2) [OF assms(1,2)] by (auto simp: dom_update)
  then show ?thesis
    using specs_inv_dict_set [OF exec_invD(2) [OF assms(1)] m] exec_invD [OF assms(1)]
    by (simp add: exec_inv_def slots_inv_def)
qed

lemma grows_complete: "cache_inv s \<Longrightarrow> grows s (complete sid v d s)"
  using grows_step [of s "\<lambda>_. 0" "OpComplete sid v d"] by (simp add: cache_step_def)

lemma grows_discard: "cache_inv s \<Longrightarrow> grows s (discard_spec sid s)"
  using grows_step [of s "\<lambda>_. 0" "OpDiscard sid"] by (simp add: cache_step_def)

lemma exec_inv_complete: "exec_inv s \<Longrightarrow> exec_inv (complete sid v d s)"
  by (rule exec_inv_cache_op [OF _ cache_inv_complete grows_complete complete_more])
    (simp_all add: exec_invD(1))

lemma exec_inv_discard: "exec_inv s \<Longrightarrow> exec_inv (discard_spec sid s)"
  by (rule exec_inv_cache_op [OF _ cache_inv_discard grows_discard discard_more])
    (simp_all add: exec_invD(1))

lemmas complete_exec_fields = exec_fields_of_more [OF complete_more]
lemmas discard_exec_fields = exec_fields_of_more [OF discard_more]

lemma exec_inv_worker_run:
  assumes "exec_inv s"
  shows "exec_inv (worker_run key outcome s)"
proof (cases "dict_get (specs s) key")
  case None
  with assms show ?thesis by (simp add: worker_run_def)
next
  case (Some sp)
  show ?thesis
  proof (cases outcome)
    case None
    have "exec_inv (discard_spec (x_spec_id sp) s)" by (rule exec_inv_discard [OF assms])
    from exec_inv_respec [OF this, of key sp "sp\<lparr>x_failed := True\<rparr>"] Some None show ?thesis
      by (simp add: worker_run_def Let_def discard_exec_fields)
  next
    case (Some o')
    obtain v d where o': "o' = (v, d)" by (cases o')
    have "exec_inv (s\<lparr>specs := dict_set key (sp\<lparr>x_duration := Some d\<rparr>) (specs s)\<rparr>)"
      by (rule exec_inv_respec [OF assms \<open>dict_get (specs s) key = Some sp\<close>]) simp_all
    then show ?thesis
      using \<open>dict_get (specs s) key = Some sp\<close> Some o' exec_inv_complete
      by (simp add: worker_run_def)
  qed
qed

lemma exec_inv_worker_exit: "exec_inv s \<Longrightarrow> exec_inv (worker_exit key s)"
  by (auto simp: worker_exit_def split: option.split intro: exec_inv_respec)

lemma exec_inv_chain_run: "exec_inv s \<Longrightarrow> exec_inv (chain_run sid outcome s)"
  by (auto simp: chain_run_def Let_def exec_inv_complete exec_inv_discard split: option.split)

lemma exec_inv_promote: "exec_inv s \<Longrightarrow> promote key s = Inr s' \<Longrightarrow> exec_inv s'"
  by (auto simp: promote_def split: option.splits intro: exec_inv_respec)

lemma exec_inv_submit_chain:
  assumes "exec_inv s" and "submit_chain clk kind args s = Inr (sid, s')"
  shows "exec_inv s' \<and> sid = Spec (spec_n s) \<and> running s' = running s \<and> slots s' = slots s"
proof -
  obtain key sid' s1 where r: "reserve kind args (now clk s) False (tick s) = ((key, sid'), s1)"
    by (metis prod.exhaust)
  have i: "exec_inv (tick s)" using assms(1) by (simp add: tick_def)
  have more: "cache.more s1 = cache.more (tick s)"
    using reserve_more [of kind args "now clk s" False "tick s"] by (simp add: r)
  note c = exec_invD(1) [OF i]
  have i1: "exec_inv s1"
    by (rule exec_inv_cache_op [OF i cache_inv_reserve [OF c r] grows_reserve [OF c r] more])
  from assms(2) r have s': "sid = sid'"
      "s' = s1\<lparr>chain_futures := dict_set sid FPending (chain_futures s1)\<rparr>"
    by (auto simp: submit_chain_def Let_def split: if_splits)
  have "running s1 = running s" "slots s1 = slots s" "sid' = Spec (spec_n s)"
    using exec_fields_of_more(1,2) [OF more] reserve_simps(1) [OF r]
    by (simp_all add: tick_def)
  with i1 s' show ?thesis by simp
qed

section \<open>Preemption\<close>

lemma preempt_candidates_set:
  "sp \<in> set (preempt_candidates s) \<longleftrightarrow> (\<exists>k. (k, sp) \<in> set (specs s) \<and> k \<in> running s \<and>
     \<not> x_promoted sp \<and> x_spec_id sp \<notin> terminated s)"
  by (auto simp: preempt_candidates_def image_iff)

text \<open>The victim: a running, unpromoted, live speculation of least priority.\<close>

definition preempt_victim :: "'a executor_scheme \<Rightarrow> exec_spec" where
  "preempt_victim s = arg_min_list x_priority (preempt_candidates s)"

lemma preempt_victimD:
  assumes "exec_inv s" and "preempt_candidates s \<noteq> []"
  shows "preempt_victim s \<in> set (preempt_candidates s)"
    "\<forall>sp \<in> set (preempt_candidates s). x_priority (preempt_victim s) \<le> x_priority sp"
    "x_key (preempt_victim s) \<in> running s"
    "dict_get (specs s) (x_key (preempt_victim s)) = Some (preempt_victim s)"
    "\<not> x_promoted (preempt_victim s)" "x_spec_id (preempt_victim s) \<notin> terminated s"
proof -
  show v: "preempt_victim s \<in> set (preempt_candidates s)"
    unfolding preempt_victim_def by (rule arg_min_list_in [OF assms(2)])
  show "\<forall>sp \<in> set (preempt_candidates s). x_priority (preempt_victim s) \<le> x_priority sp"
    unfolding preempt_victim_def f_arg_min_list_f [OF assms(2)] by simp
  from v obtain k where k: "(k, preempt_victim s) \<in> set (specs s)" "k \<in> running s"
    "\<not> x_promoted (preempt_victim s)" "x_spec_id (preempt_victim s) \<notin> terminated s"
    by (auto simp: preempt_candidates_set)
  have "x_key (preempt_victim s) = k"
    using exec_invD(2) [OF assms(1)] k(1) by (force simp: specs_inv_def spec_matches_def)
  then show "x_key (preempt_victim s) \<in> running s"
    "dict_get (specs s) (x_key (preempt_victim s)) = Some (preempt_victim s)"
    "\<not> x_promoted (preempt_victim s)" "x_spec_id (preempt_victim s) \<notin> terminated s"
    using k exec_invD(7) [OF assms(1)] by simp_all
qed

lemma exec_inv_terminal:
  assumes "exec_inv s" and "sid = Spec i" "i < spec_n s" and t: "terminal sid st sv ws s = Inr s'"
  shows "exec_inv s'"
proof -
  note T = terminal_InrD [OF t]
  have "cache_inv s'"
    using ledger_inv_terminal [OF cache_invD(1) [OF exec_invD(1) [OF assms(1)]] t] T assms(2,3)
      cache_invD [OF exec_invD(1) [OF assms(1)]] counts_le [OF exec_invD(1) [OF assms(1)]]
    by (intro cache_inv_weaken [OF exec_invD(1) [OF assms(1)]]) (auto simp: ended_inv_def)
  then show ?thesis
    by (rule exec_inv_cache [OF assms(1)]) (use T in \<open>simp_all add: grows_def\<close>, blast)
qed

lemma preempt_one_terminal:
  assumes "preempt_candidates s \<noteq> []"
  shows "\<exists>n w. preempt_one clk s =
      (case terminal (x_spec_id (preempt_victim s)) ''preempted'' 0 w (s\<lparr>ticks := n\<rparr>) of
         Inl e \<Rightarrow> Inl e | Inr s2 \<Rightarrow> Inr (s2\<lparr>running := running s2 - {x_key (preempt_victim s)}\<rparr>))"
proof (cases "x_duration (preempt_victim s)")
  case None
  then show ?thesis
    using assms by (simp add: preempt_one_def preempt_victim_def [symmetric] Let_def tick_def) blast
next
  case (Some d)
  then show ?thesis
    using assms by (simp add: preempt_one_def preempt_victim_def [symmetric] Let_def tick_def) blast
qed

text \<open>
  What preemption does: nothing without a candidate; otherwise the victim, and only it, is
  ended as preempted and leaves its slot. It never raises.
\<close>

lemma preempt_one_spec:
  assumes inv: "exec_inv s"
  shows "\<exists>s'. preempt_one clk s = Inr s' \<and> exec_inv s' \<and>
    (if preempt_candidates s = [] then s' = s
     else running s' = running s - {x_key (preempt_victim s)} \<and>
       terminated s' = insert (x_spec_id (preempt_victim s)) (terminated s) \<and>
       (\<exists>w. records s' = records s @ [LEnd (x_spec_id (preempt_victim s)) ''preempted'' 0 w])) \<and>
    specs s' = specs s \<and> slots s' = slots s \<and> total_saved_ms s' = total_saved_ms s"
proof (cases "preempt_candidates s = []")
  case True
  with inv show ?thesis by (simp add: preempt_one_def)
next
  case False
  let ?v = "preempt_victim s"
  note V = preempt_victimD [OF inv False]
  obtain n w where p: "preempt_one clk s =
      (case terminal (x_spec_id ?v) ''preempted'' 0 w (s\<lparr>ticks := n\<rparr>) of
         Inl e \<Rightarrow> Inl e | Inr s2 \<Rightarrow> Inr (s2\<lparr>running := running s2 - {x_key ?v}\<rparr>))"
    using preempt_one_terminal [OF False] by blast
  let ?s = "s\<lparr>ticks := n\<rparr>"
  obtain s2 where t: "terminal (x_spec_id ?v) ''preempted'' 0 w ?s = Inr s2"
    using terminal_Inr_iff [of "x_spec_id ?v" "''preempted''" 0 w ?s] V(6) by auto
  obtain i where i: "x_spec_id ?v = Spec i" "i < spec_n s"
    using specs_entryD(1) [OF inv V(4)] by (auto simp: spec_matches_def)
  have "exec_inv s2" by (rule exec_inv_terminal [OF _ i(1) _ t]) (use inv i in \<open>simp_all\<close>)
  then have "exec_inv (s2\<lparr>running := running s2 - {x_key ?v}\<rparr>)"
    by (rule exec_inv_cache) (auto simp: exec_invD(1) [OF \<open>exec_inv s2\<close>] grows_def)
  with p t terminal_InrD [OF t] False show ?thesis by simp
qed

lemma authoritative_spec:
  assumes inv: "exec_inv s"
  shows "\<exists>s'. authoritative clk need result s = Inr (result, s') \<and> exec_inv s' \<and>
    running s' \<subseteq> running s \<and> slots s' = slots s"
proof -
  obtain n s1 where f: "free_slots clk s = Inr (n, s1)" using free_slots_spec [OF inv] by blast
  note F = free_slots_InrD [OF inv f]
  have sl: "slots s1 = slots s" by (subst F(3)) simp
  obtain s2 where p: "preempt_one clk s1 = Inr s2" "exec_inv s2" "running s2 \<subseteq> running s1"
      "slots s2 = slots s1"
    using preempt_one_spec [OF F(1), of clk] by (auto split: if_splits)
  with f F sl inv show ?thesis
    by (cases need; cases "n \<le> 0") (auto simp: authoritative_def)
qed

section \<open>The machine\<close>

text \<open>
  One step of the session's threads. The pool is shut down last, so it is not an operation
  here. A step that raises changes nothing: it can only be \<open>promote\<close> of an unknown key.
\<close>

datatype exec_op =
    XSpeculate string pyval rat
  | XSubmitChain string pyval
  | XWorkerRun job_key job_outcome
  | XWorkerExit job_key
  | XChainRun spec_id job_outcome
  | XPromote job_key
  | XAuthoritative bool pyval
  | XFreeSlots
  | XPreempt
  | XCache cache_op

definition keep_on_raise :: "'s \<Rightarrow> py_error + 's \<Rightarrow> 's" where
  "keep_on_raise s r = (case r of Inl e \<Rightarrow> s | Inr s' \<Rightarrow> s')"

definition map_res :: "('b \<Rightarrow> 's) \<Rightarrow> py_error + 'b \<Rightarrow> py_error + 's" where
  "map_res f r = (case r of Inl e \<Rightarrow> Inl e | Inr x \<Rightarrow> Inr (f x))"

fun exec_result :: "clock \<Rightarrow> 'a executor_scheme \<Rightarrow> exec_op \<Rightarrow> py_error + 'a executor_scheme" where
  "exec_result clk s (XSpeculate kind args p) = map_res snd (speculate clk kind args p s)"
| "exec_result clk s (XSubmitChain kind args) = map_res snd (submit_chain clk kind args s)"
| "exec_result clk s (XWorkerRun key outcome) = Inr (worker_run key outcome s)"
| "exec_result clk s (XWorkerExit key) = Inr (worker_exit key s)"
| "exec_result clk s (XChainRun sid outcome) = Inr (chain_run sid outcome s)"
| "exec_result clk s (XPromote key) = promote key s"
| "exec_result clk s (XAuthoritative need r) = map_res snd (authoritative clk need r s)"
| "exec_result clk s XFreeSlots = map_res snd (free_slots clk s)"
| "exec_result clk s XPreempt = preempt_one clk s"
| "exec_result clk s (XCache x) = Inr (cache_step clk s x)"

definition exec_step :: "clock \<Rightarrow> 'a executor_scheme \<Rightarrow> exec_op \<Rightarrow> 'a executor_scheme" where
  "exec_step clk s x = keep_on_raise s (exec_result clk s x)"

definition exec_run :: "clock \<Rightarrow> 'a executor_scheme \<Rightarrow> exec_op list \<Rightarrow> 'a executor_scheme" where
  "exec_run clk = run_ops (exec_step clk)"

text \<open>What every step keeps of the state before it.\<close>

definition dropped :: "nat \<Rightarrow> 'a cache_scheme \<Rightarrow> bool" where
  "dropped i s \<longleftrightarrow> i < spec_n s \<and> i \<notin> snd ` set (jobs s)"

definition advances :: "'a executor_scheme \<Rightarrow> 'a executor_scheme \<Rightarrow> bool" where
  "advances s s' \<longleftrightarrow> exec_inv s' \<and> grows s s' \<and> slots s' = slots s \<and> pool_open s' = pool_open s \<and>
     (\<forall>i. dropped i s \<longrightarrow> dropped i s')"

lemma advances_refl: "exec_inv s \<Longrightarrow> advances s s"
  by (simp add: advances_def grows_refl)

lemma advances_trans: "advances s t \<Longrightarrow> advances t u \<Longrightarrow> advances s u"
  unfolding advances_def using grows_trans by metis

text \<open>A change of the executor's own fields, or of the clock.\<close>

lemma advances_fields:
  assumes "exec_inv s'" "slots s' = slots s" "pool_open s' = pool_open s"
    and "job_objs s' = job_objs s" "jobs s' = jobs s" "epoch s' = epoch s" "spec_n s' = spec_n s"
    "serve_counts s' = serve_counts s" "terminated s \<subseteq> terminated s'"
  shows "advances s s'"
  using assms by (auto simp: advances_def grows_def dropped_def)

lemma dropped_cache_step:
  assumes inv: "cache_inv s" and d: "dropped i s"
  shows "dropped i (cache_step clk s x)"
proof -
  have "i \<notin> snd ` set (jobs (cache_step clk s x))"
  proof (cases x)
    case (OpReserve kind args launch sync)
    obtain key sid s' where r: "reserve kind args launch sync s = ((key, sid), s')"
      by (metis prod.exhaust)
    have "set (jobs s') \<subseteq> insert (key, spec_n s) (set (jobs s))"
      by (simp only: reserve_simps(4) [OF r] cache_invD(5) [OF inv] set_dict_set [OF cache_invD(6) [OF inv]]) blast
    with d OpReserve r show ?thesis by (force simp: dropped_def cache_step_def)
  next
    case (OpClaim kind args)
    obtain r s' where c: "claim kind args s = (r, s')" by (metis prod.exhaust)
    with OpClaim claim_frame(2) [OF c] d show ?thesis by (simp add: cache_step_claim dropped_def)
  next
    case (OpFinish jo t)
    obtain r s' where f: "finish jo t s = Inr (r, s')" using finish_total [of jo t s] by auto
    with OpFinish finish_frame(2) [OF f] d show ?thesis by (simp add: cache_step_def dropped_def)
  next
    case (OpDiscard sid)
    have "set (jobs (discard_spec sid s)) \<subseteq> set (jobs s)"
      by (auto simp: discard_spec_def AList.delete_eq split: option.splits)
    with OpDiscard d show ?thesis by (auto simp: cache_step_def dropped_def)
  next
    case OpBump
    then show ?thesis using bump_epoch_spec [OF inv, of clk] by (auto simp: cache_step_def)
  next
    case (OpComplete sid v dur)
    with d show ?thesis by (simp add: cache_step_def frame_simps dropped_def)
  qed
  with d growsD(1) [OF grows_step [OF inv]] show ?thesis by (simp add: dropped_def)
qed

lemma cache_step_more: "cache.more (cache_step clk s x) = cache.more s"
proof (cases x)
  case (OpReserve kind args launch sync)
  then show ?thesis
    using reserve_more [of kind args launch sync s]
    by (cases "reserve kind args launch sync s") (auto simp: cache_step_def)
next
  case (OpClaim kind args)
  then show ?thesis using claim_more [of kind args s] by (simp add: cache_step_claim)
next
  case (OpFinish jo t)
  obtain r s' where f: "finish jo t s = Inr (r, s')" using finish_total [of jo t s] by auto
  then show ?thesis using OpFinish finish_more [OF f] by (simp add: cache_step_def)
next
  case OpBump
  then show ?thesis using bump_more [of clk s] by (auto simp: cache_step_def split: sum.split)
qed (simp_all add: cache_step_def complete_more discard_more)

lemma advances_cache_step:
  assumes "exec_inv s"
  shows "advances s (cache_step clk s x)"
proof -
  note c = exec_invD(1) [OF assms]
  have "exec_inv (cache_step clk s x)"
    by (rule exec_inv_cache_op [OF assms cache_inv_step [OF c] grows_step [OF c] cache_step_more])
  moreover have "slots (cache_step clk s x) = slots s" "pool_open (cache_step clk s x) = pool_open s"
    using exec_fields_of_more(1,5) [OF cache_step_more [of clk s x]] by blast+
  ultimately show ?thesis
    using grows_step [OF c] dropped_cache_step [OF c] by (simp add: advances_def)
qed

text \<open>The cache part of an executor operation is one cache operation between field updates.\<close>

lemma advances_free_slots:
  assumes "exec_inv s" and "free_slots clk s = Inr (n, s')"
  shows "advances s s'"
proof -
  obtain R where s': "s' = s\<lparr>ticks := Suc (ticks s), running := R\<rparr>"
    using free_slots_InrD(3) [OF assms] by blast
  show ?thesis using free_slots_InrD(1) [OF assms] by (intro advances_fields) (simp_all add: s')
qed

lemma advances_speculate:
  assumes inv: "exec_inv s" and "speculate clk kind args p s = Inr (ko, s')"
  shows "advances s s'"
proof -
  obtain n s1 where f: "free_slots clk s = Inr (n, s1)" using free_slots_spec [OF inv] by blast
  note F = free_slots_InrD [OF inv f]
  have a0: "advances s s1" by (rule advances_free_slots [OF inv f])
  have "advances s1 (tick s1)"
    using F(1) by (intro advances_fields) (simp_all add: tick_def)
  with a0 have a1: "advances s (tick s1)" by (rule advances_trans)
  show ?thesis
  proof (cases "n \<le> 0")
    case True
    with assms(2) f have "s' = s1" by (auto simp: speculate_def)
    with a0 show ?thesis by simp
  next
    case False
    obtain key sid s2 where r: "reserve kind args (now clk s1) False (tick s1) = ((key, sid), s2)"
      by (metis prod.exhaust)
    have i1: "exec_inv (tick s1)" using F(1) by (simp add: tick_def)
    have a2: "advances (tick s1) s2"
      using advances_cache_step [OF i1, of clk "OpReserve kind args (now clk s1) False"] r
      by (simp add: cache_step_def)
    from assms(2) f r False obtain x where
      s': "s' = s2\<lparr>specs := dict_set key x (specs s2), running := insert key (running s2)\<rparr>"
      by (auto simp: speculate_def Let_def split: if_splits)
    have "advances s2 s'"
      using conjunct1 [OF speculate_spec [OF assms]] by (intro advances_fields) (simp_all add: s')
    with a1 a2 show ?thesis using advances_trans by blast
  qed
qed

lemma advances_submit_chain:
  assumes inv: "exec_inv s" and sc: "submit_chain clk kind args s = Inr (sid, s')"
  shows "advances s s'"
proof -
  obtain key sid' s1 where r: "reserve kind args (now clk s) False (tick s) = ((key, sid'), s1)"
    by (metis prod.exhaust)
  have i: "exec_inv (tick s)" using inv by (simp add: tick_def)
  have a1: "advances s (tick s)" by (rule advances_fields) (simp_all add: i, simp_all add: tick_def)
  have a2: "advances (tick s) s1"
    using advances_cache_step [OF i, of clk "OpReserve kind args (now clk s) False"] r
    by (simp add: cache_step_def)
  have s': "s' = s1\<lparr>chain_futures := dict_set sid' FPending (chain_futures s1)\<rparr>"
    using sc r by (auto simp: submit_chain_def Let_def split: if_splits)
  have "advances s1 s'"
    using conjunct1 [OF exec_inv_submit_chain [OF assms]]
    by (intro advances_fields) (simp_all add: s')
  with a1 a2 show ?thesis using advances_trans by blast
qed

lemma advances_complete: "exec_inv s \<Longrightarrow> advances s (complete sid v d s)"
  using advances_cache_step [of s "\<lambda>_. 0" "OpComplete sid v d"] by (simp add: cache_step_def)

lemma advances_discard: "exec_inv s \<Longrightarrow> advances s (discard_spec sid s)"
  using advances_cache_step [of s "\<lambda>_. 0" "OpDiscard sid"] by (simp add: cache_step_def)

lemma advances_worker_run:
  assumes inv: "exec_inv s"
  shows "advances s (worker_run key outcome s)"
proof (cases "dict_get (specs s) key")
  case None
  with advances_refl [OF inv] show ?thesis by (simp add: worker_run_def)
next
  case (Some sp)
  show ?thesis
  proof (cases outcome)
    case None
    let ?t = "discard_spec (x_spec_id sp) s"
    have w: "worker_run key outcome s = ?t\<lparr>specs := dict_set key (sp\<lparr>x_failed := True\<rparr>) (specs ?t)\<rparr>"
      using Some None by (simp add: worker_run_def Let_def)
    have "advances ?t (worker_run key outcome s)"
      using exec_inv_worker_run [OF inv, of key outcome] unfolding w
      by (intro advances_fields) simp_all
    with advances_discard [OF inv] show ?thesis using advances_trans by blast
  next
    case (Some o')
    obtain v d where o': "o' = (v, d)" by (cases o')
    let ?t = "s\<lparr>specs := dict_set key (sp\<lparr>x_duration := Some d\<rparr>) (specs s)\<rparr>"
    have i: "exec_inv ?t"
      by (rule exec_inv_respec [OF inv \<open>dict_get (specs s) key = Some sp\<close>]) simp_all
    have "advances s ?t" by (rule advances_fields [OF i]) simp_all
    moreover have "worker_run key outcome s = complete (x_spec_id sp) v d ?t"
      using \<open>dict_get (specs s) key = Some sp\<close> Some o' by (simp add: worker_run_def)
    ultimately show ?thesis using advances_trans [OF _ advances_complete [OF i]] by simp
  qed
qed

lemma advances_chain_run:
  assumes inv: "exec_inv s"
  shows "advances s (chain_run sid outcome s)"
proof -
  have *: "advances s t \<Longrightarrow> advances s (t\<lparr>chain_futures := cf\<rparr>)" for t cf
    by (rule advances_trans [OF _ advances_fields]) (auto simp: advances_def)
  show ?thesis
    using * [OF advances_complete [OF inv]] * [OF advances_discard [OF inv]]
    by (simp add: chain_run_def Let_def split: option.split)
qed

lemma advances_preempt_one:
  assumes inv: "exec_inv s" and p: "preempt_one clk s = Inr s'"
  shows "advances s s'"
proof (cases "preempt_candidates s = []")
  case True
  with p advances_refl [OF inv] show ?thesis by (simp add: preempt_one_def)
next
  case False
  have i': "exec_inv s'" using preempt_one_spec [OF inv, of clk] p by auto
  let ?v = "preempt_victim s"
  obtain n w where "preempt_one clk s =
      (case terminal (x_spec_id ?v) ''preempted'' 0 w (s\<lparr>ticks := n\<rparr>) of
         Inl e \<Rightarrow> Inl e | Inr s2 \<Rightarrow> Inr (s2\<lparr>running := running s2 - {x_key ?v}\<rparr>))"
    using preempt_one_terminal [OF False] by blast
  with p obtain s2 where t: "terminal (x_spec_id ?v) ''preempted'' 0 w (s\<lparr>ticks := n\<rparr>) = Inr s2"
      and s': "s' = s2\<lparr>running := running s2 - {x_key ?v}\<rparr>"
    by (auto split: sum.splits)
  have "slots s' = slots s" "pool_open s' = pool_open s" "job_objs s' = job_objs s"
    "jobs s' = jobs s" "epoch s' = epoch s" "spec_n s' = spec_n s"
    "serve_counts s' = serve_counts s" "terminated s \<subseteq> terminated s'"
    using terminal_InrD [OF t] by (auto simp: s')
  with i' show ?thesis by (rule advances_fields)
qed

lemma advances_authoritative:
  assumes inv: "exec_inv s" and a: "authoritative clk need r s = Inr (v, s')"
  shows "advances s s'"
proof -
  obtain n s1 where f: "free_slots clk s = Inr (n, s1)" using free_slots_spec [OF inv] by blast
  note a1 = advances_free_slots [OF inv f]
  then have i1: "exec_inv s1" by (simp add: advances_def)
  from a f consider "\<not> need" "s' = s" | "s' = s1" | "preempt_one clk s1 = Inr s'"
    by (auto simp: authoritative_def split: if_splits sum.splits)
  then show ?thesis
    using advances_refl [OF inv] a1 advances_trans [OF a1 advances_preempt_one [OF i1]]
    by cases simp_all
qed

lemma advances_worker_exit: "exec_inv s \<Longrightarrow> advances s (worker_exit key s)"
  by (rule advances_fields [OF exec_inv_worker_exit])
    (simp_all add: worker_exit_def split: option.split)

lemma advances_promote: "exec_inv s \<Longrightarrow> promote key s = Inr s' \<Longrightarrow> advances s s'"
  by (rule advances_fields [OF exec_inv_promote])
    (auto simp: promote_def split: option.splits)

lemma exec_result_advances:
  assumes inv: "exec_inv s" and r: "exec_result clk s x = Inr s'"
  shows "advances s s'"
proof (cases x)
  case (XSpeculate kind args p)
  with r show ?thesis
    by (auto simp: map_res_def intro: advances_speculate [OF inv] split: sum.splits)
next
  case (XSubmitChain kind args)
  with r show ?thesis
    by (auto simp: map_res_def intro: advances_submit_chain [OF inv] split: sum.splits)
next
  case (XAuthoritative need v)
  with r show ?thesis
    by (auto simp: map_res_def intro: advances_authoritative [OF inv] split: sum.splits)
next
  case XFreeSlots
  with r show ?thesis
    by (auto simp: map_res_def intro: advances_free_slots [OF inv] split: sum.splits)
qed (use r in \<open>auto intro: advances_worker_run [OF inv] advances_worker_exit [OF inv]
      advances_chain_run [OF inv] advances_promote [OF inv] advances_preempt_one [OF inv]
      advances_cache_step [OF inv]\<close>)

lemma advances_step: "exec_inv s \<Longrightarrow> advances s (exec_step clk s x)"
  using exec_result_advances [of s clk x] advances_refl [of s]
  by (simp add: exec_step_def keep_on_raise_def split: sum.split)

interpretation exec_machine: invariant_machine "exec_step clk" exec_inv for clk
  by unfold_locales (erule conjunct1 [OF advances_step [unfolded advances_def]])

lemma advances_run:
  assumes "exec_inv s"
  shows "advances s (exec_run clk s xs)"
  unfolding exec_run_def
  by (rule exec_machine.stable_run [where P = "advances s"])
    (use assms advances_refl advances_step advances_trans in blast)+

section \<open>Properties\<close>

definition demo_exec_ops :: "exec_op list" where
  "demo_exec_ops = [XSpeculate ''test'' demo_args 3, XSpeculate ''lint'' demo_args 1,
     XSpeculate ''test'' demo_args 5]"

definition demo_exec :: executor where
  "demo_exec = exec_run (\<lambda>n. of_nat n) (init_executor 2) demo_exec_ops"

lemma demo_exec_inv: "exec_inv demo_exec"
  using advances_run [OF exec_inv_init] by (simp add: demo_exec_def advances_def)

text \<open>
  C5: whatever requests, worker threads and cache operations do, and in whatever order, the
  executor never has more speculations running than it has slots.
\<close>

theorem slots_never_exceeded:
  "exec_inv s \<Longrightarrow> finite (running (exec_run clk s xs)) \<and> card (running (exec_run clk s xs)) \<le> slots s"
  using advances_run [of s clk xs] exec_invD(4,6) [of "exec_run clk s xs"]
  by (simp add: advances_def)

theorem slots_never_exceeded_witness:
  "card (running demo_exec) = 2 \<and> card (running demo_exec) \<le> slots (init_executor 2)"
proof
  show "card (running demo_exec) = 2" by code_simp
  show "card (running demo_exec) \<le> slots (init_executor 2)"
    using slots_never_exceeded [OF exec_inv_init] by (simp add: demo_exec_def)
qed

text \<open>
  Preemption picks well and is harmless. When there is a candidate, the victim is a
  running, unpromoted speculation that has not ended, of least priority among them; it is
  recorded as preempted, frees exactly its slot, and no later request is ever served its
  result, even when its worker still completes.
\<close>

theorem preempt_victim_least:
  assumes inv: "exec_inv s" and some: "preempt_candidates s \<noteq> []"
  shows "\<exists>s' i w. preempt_one clk s = Inr s' \<and> x_spec_id (preempt_victim s) = Spec i \<and>
    \<not> x_promoted (preempt_victim s) \<and> x_key (preempt_victim s) \<in> running s \<and>
    (\<forall>sp \<in> set (preempt_candidates s). x_priority (preempt_victim s) \<le> x_priority sp) \<and>
    running s' = running s - {x_key (preempt_victim s)} \<and>
    records s' = records s @ [LEnd (Spec i) ''preempted'' 0 w] \<and>
    (\<forall>xs t. finish (Some i) t (exec_run clk s' xs) = Inr (miss, exec_run clk s' xs))"
proof -
  note V = preempt_victimD [OF assms]
  obtain i where i: "x_spec_id (preempt_victim s) = Spec i" "i < spec_n s"
    "job_key (job_at s i) = x_key (preempt_victim s)"
    using specs_entryD(1) [OF inv V(4)] by (auto simp: spec_matches_def)
  obtain s' w where p: "preempt_one clk s = Inr s'" "exec_inv s'"
      "running s' = running s - {x_key (preempt_victim s)}"
      "terminated s' = insert (Spec i) (terminated s)"
      "records s' = records s @ [LEnd (Spec i) ''preempted'' 0 w]"
    using preempt_one_spec [OF inv, of clk] some i(1) by auto
  have "finish (Some i) t (exec_run clk s' xs) = Inr (miss, exec_run clk s' xs)" for xs t
  proof (rule finish_miss [of _ i])
    let ?u = "exec_run clk s' xs"
    have "grows s' ?u" using advances_run [OF p(2), of clk xs] by (simp add: advances_def)
    then have "Spec i \<in> terminated ?u" using p(4) by (auto simp: grows_def)
    moreover have "i < spec_n ?u"
      using advances_preempt_one [OF inv p(1)] i(2) \<open>grows s' ?u\<close>
      by (auto simp: advances_def grows_def)
    moreover have "exec_inv ?u" using advances_run [OF p(2), of clk xs] by (simp add: advances_def)
    ultimately have "\<not> servable i ?u"
      using job_objD(1) [OF exec_invD(1), of ?u i] by (simp add: servable_def)
    then show "Some i = None \<or> Some i = Some i \<and> \<not> servable i ?u" by simp
  qed
  with V p i(1) show ?thesis by blast
qed

theorem preempt_victim_least_witness:
  "\<exists>s' w. preempt_one (\<lambda>n. of_nat n) demo_exec = Inr s' \<and> x_priority (preempt_victim demo_exec) = 1 \<and>
     records s' = records demo_exec @ [LEnd (Spec 1) ''preempted'' 0 w]"
proof -
  have "map x_spec_id (preempt_candidates demo_exec) = [Spec 0, Spec 1]" by code_simp
  then have "preempt_candidates demo_exec \<noteq> []" by auto
  moreover have "x_spec_id (preempt_victim demo_exec) = Spec 1" "x_priority (preempt_victim demo_exec) = 1"
    by code_simp+
  ultimately show ?thesis
    using preempt_victim_least [OF demo_exec_inv, of "\<lambda>n. of_nat n"] by auto
qed

text \<open>
  C6: a speculation whose job raised is dropped: after its worker reported the failure, no
  request can be served it, whatever happens later, and its slot is free at the next count.
\<close>

theorem failed_speculation_never_served:
  assumes inv: "exec_inv s" and g: "dict_get (specs s) key = Some sp" and i: "x_spec_id sp = Spec i"
  shows "finish (Some i) t (exec_run clk (worker_run key None s) xs) =
      Inr (miss, exec_run clk (worker_run key None s) xs) \<and>
    (\<exists>n s'. free_slots clk (worker_run key None s) = Inr (n, s') \<and> key \<notin> running s')"
proof
  let ?w = "worker_run key None s"
  have wi: "exec_inv ?w" by (rule exec_inv_worker_run [OF inv])
  have w: "?w = (discard_spec (Spec i) s)\<lparr>specs := dict_set key (sp\<lparr>x_failed := True\<rparr>) (specs s)\<rparr>"
    using g i by (simp add: worker_run_def Let_def discard_exec_fields)
  note c = exec_invD(1) [OF inv]
  have "i < spec_n s"
    using specs_entryD(1) [OF inv g] i by (auto simp: spec_matches_def)
  moreover have "i \<notin> snd ` set (jobs (discard_spec (Spec i) s))"
  proof
    assume "i \<in> snd ` set (jobs (discard_spec (Spec i) s))"
    then obtain k where k: "(k, i) \<in> set (jobs (discard_spec (Spec i) s))" by auto
    then have "(k, i) \<in> set (jobs s)" by (auto simp: discard_jobs split: option.splits)
    with find_spec_iff [OF c, of i k i] have "find_spec (Spec i) s = Some (k, i)" by simp
    with k show False by (simp add: discard_jobs)
  qed
  ultimately have "dropped i ?w" by (simp add: w dropped_def frame_simps)
  then have "dropped i (exec_run clk ?w xs)" using advances_run [OF wi] by (simp add: advances_def)
  then have "\<not> servable i (exec_run clk ?w xs)"
    by (force simp: dropped_def servable_def dest: map_of_SomeD)
  then show "finish (Some i) t (exec_run clk ?w xs) = Inr (miss, exec_run clk ?w xs)"
    by (intro finish_miss [of _ i]) simp
  have "dict_get (specs ?w) key = Some (sp\<lparr>x_failed := True\<rparr>)" by (simp add: w dict_get_set)
  then show "\<exists>n s'. free_slots clk ?w = Inr (n, s') \<and> key \<notin> running s'"
    using free_slots_spec [OF wi, of clk] by (auto simp: spec_over_def)
qed

theorem failed_speculation_never_served_witness:
  "\<exists>key. finish (Some 1) 4 (exec_run (\<lambda>_. 0) (worker_run key None demo_exec)
      [XCache (OpComplete (Spec 1) PNone 1)]) =
    Inr (miss, exec_run (\<lambda>_. 0) (worker_run key None demo_exec) [XCache (OpComplete (Spec 1) PNone 1)]) \<and>
    key \<in> running demo_exec"
proof -
  define key where "key = fst (specs demo_exec ! 1)"
  define sp where "sp = snd (specs demo_exec ! 1)"
  have "dict_get (specs demo_exec) (fst (specs demo_exec ! 1)) = Some (snd (specs demo_exec ! 1))
      \<and> x_spec_id (snd (specs demo_exec ! 1)) = Spec 1 \<and> fst (specs demo_exec ! 1) \<in> running demo_exec"
    by code_simp
  then have "dict_get (specs demo_exec) key = Some sp" "x_spec_id sp = Spec 1"
      "key \<in> running demo_exec" by (simp_all add: key_def sp_def)
  with failed_speculation_never_served [OF demo_exec_inv this(1,2)] show ?thesis by blast
qed

end
