(* ===== verification/Predictor.thy ===== *)
theory Predictor
  imports Schema "HOL-Library.Multiset"
begin

text \<open>
  sfx/predictor.py, and the repository table that sfx/daemon.py saves from it: what kind of
  call comes next, from a mined table, a table of the repository and the counts of this
  session, blended by support. Probabilities are exact rationals.
\<close>

section \<open>State\<close>

definition SUPPORT_CAP :: rat where
  "SUPPORT_CAP = 20"

fun join :: "string \<Rightarrow> string list \<Rightarrow> string" where
  "join sep [] = []"
| "join sep [x] = x"
| "join sep (x # y # xs) = x @ sep @ join sep (y # xs)"

definition key_str :: "string \<Rightarrow> string list \<Rightarrow> string \<Rightarrow> string" where
  "key_str role kinds last_outcome = role @ ''|'' @ join '','' kinds @ ''|'' @ last_outcome"

record table_entry =
  en_support :: int
  en_p :: "(string, rat) dict"

type_synonym table = "(string, table_entry) dict"
type_synonym counter = "(string, int) dict"

record predictor =
  pr_k :: nat
  pr_outcome_visible :: bool
  pr_global :: table
  pr_repo :: table
  pr_counts :: "(string, counter) dict"
  pr_events :: "tool_event list"

definition init_predictor :: "table \<Rightarrow> nat \<Rightarrow> table option \<Rightarrow> bool \<Rightarrow> predictor" where
  "init_predictor global_table k repo_table outcome_visible =
     \<lparr>pr_k = k, pr_outcome_visible = outcome_visible, pr_global = global_table,
      pr_repo = (case repo_table of None \<Rightarrow> [] | Some t \<Rightarrow> t), pr_counts = [], pr_events = []\<rparr>"

section \<open>Operations\<close>

text \<open>\<open>d[k] += x\<close> on a defaultdict or Counter.\<close>

definition dict_add :: "'k \<Rightarrow> 'v :: {zero, plus} \<Rightarrow> ('k, 'v) dict \<Rightarrow> ('k, 'v) dict" where
  "dict_add k x d = dict_set k (dict_get_default d k 0 + x) d"

text \<open>Appending to \<open>deque(maxlen=k+1)\<close> drops the oldest event when full.\<close>

definition deque_append :: "nat \<Rightarrow> 'x \<Rightarrow> 'x list \<Rightarrow> 'x list" where
  "deque_append maxlen x xs = drop (length xs + 1 - maxlen) (xs @ [x])"

definition context_str :: "predictor \<Rightarrow> py_error + string" where
  "context_str pr =
     (case context_key (pr_events pr) (pr_k pr) (pr_outcome_visible pr) of
        Inl e \<Rightarrow> Inl e | Inr (role, kinds, oc) \<Rightarrow> Inr (key_str role kinds oc))"

definition observe :: "tool_event \<Rightarrow> predictor \<Rightarrow> py_error + predictor" where
  "observe event pr =
     (let appended = deque_append (pr_k pr + 1) event (pr_events pr) in
      if pr_events pr = [] then Inr (pr\<lparr>pr_events := appended\<rparr>)
      else case context_str pr of
             Inl e \<Rightarrow> Inl e
           | Inr key \<Rightarrow> Inr (pr\<lparr>pr_events := appended,
               pr_counts := dict_set key
                 (dict_add (te_kind event) 1 (dict_get_default (pr_counts pr) key [])) (pr_counts pr)\<rparr>))"

definition counter_sum :: "counter \<Rightarrow> int" where
  "counter_sum c = sum_list (map snd c)"

definition table_source :: "rat \<Rightarrow> table \<Rightarrow> string \<Rightarrow> (rat \<times> (string, rat) dict) list" where
  "table_source decay t key =
     (case dict_get t key of
        None \<Rightarrow> []
      | Some e \<Rightarrow> [(min (of_int (en_support e)) SUPPORT_CAP * decay, en_p e)])"

definition session_source :: "counter option \<Rightarrow> (rat \<times> (string, rat) dict) list" where
  "session_source session =
     (case session of
        None \<Rightarrow> []
      | Some c \<Rightarrow> if c = [] then []
          else [(min (of_int (counter_sum c)) SUPPORT_CAP,
                 map (\<lambda>(kind, n). (kind, of_int n / of_int (counter_sum c))) c)])"

definition pr_sources :: "predictor \<Rightarrow> string \<Rightarrow> (rat \<times> (string, rat) dict) list" where
  "pr_sources pr key =
     (let session = dict_get (pr_counts pr) key;
          n_session = (case session of None \<Rightarrow> 0 | Some c \<Rightarrow> counter_sum c);
          decay = SUPPORT_CAP / (SUPPORT_CAP + of_int n_session)
      in table_source decay (pr_global pr) key @ table_source decay (pr_repo pr) key @
         session_source session)"

text \<open>The nested loop that adds up \<open>(w / total) * prob\<close>.\<close>

definition blend_dist :: "rat \<Rightarrow> (string, rat) dict \<Rightarrow> (string, rat) dict \<Rightarrow> (string, rat) dict" where
  "blend_dist weight ps b = fold (\<lambda>(kind, prob). dict_add kind (weight * prob)) ps b"

definition blend :: "(rat \<times> (string, rat) dict) list \<Rightarrow> py_error + (string, rat) dict" where
  "blend sources =
     (let total = sum_list (map fst sources) in
      if total = 0 \<and> (\<exists>(w, ps) \<in> set sources. ps \<noteq> []) then Inl ZeroDivisionError
      else Inr (fold (\<lambda>(w, ps). blend_dist (w / total) ps) sources []))"

definition propose :: "predictor \<Rightarrow> py_error + (string \<times> rat) list" where
  "propose pr =
     (if pr_events pr = [] then Inr []
      else case context_str pr of
             Inl e \<Rightarrow> Inl e
           | Inr key \<Rightarrow>
               let sources = pr_sources pr key in
               if sources = [] then Inr []
               else case blend sources of
                      Inl e \<Rightarrow> Inl e
                    | Inr b \<Rightarrow> Inr (sort_key (\<lambda>kv. - snd kv) b))"

section \<open>The repository table (\<^verbatim>\<open>_persist_repo_table\<close> in sfx/daemon.py)\<close>

text \<open>\<^verbatim>\<open>round\<close>: to the nearest integer, halves to the even one.\<close>

definition py_round :: "rat \<Rightarrow> int" where
  "py_round x =
     (let f = \<lfloor>x\<rfloor>; d = x - of_int f in
      if d < 1 / 2 then f else if 1 / 2 < d then f + 1 else if even f then f else f + 1)"

definition entry_counts :: "table_entry \<Rightarrow> counter" where
  "entry_counts e = map (\<lambda>(kind, prob). (kind, py_round (of_int (en_support e) * prob))) (en_p e)"

definition counter_update :: "counter \<Rightarrow> counter \<Rightarrow> counter" where
  "counter_update ctr c = fold (\<lambda>(kind, n). dict_add kind n) ctr c"

definition merge_counts :: "(string, counter) dict \<Rightarrow> (string, counter) dict \<Rightarrow> (string, counter) dict" where
  "merge_counts session counts =
     fold (\<lambda>(key, ctr) cs. dict_set key (counter_update ctr (dict_get_default cs key [])) cs)
       session counts"

definition counts_entry :: "counter \<Rightarrow> py_error + table_entry" where
  "counts_entry c =
     (let support = counter_sum c in
      if support = 0 \<and> c \<noteq> [] then Inl ZeroDivisionError
      else Inr \<lparr>en_support = support,
                en_p = map (\<lambda>(kind, n). (kind, of_int n / of_int support)) c\<rparr>)"

fun counts_table :: "(string, counter) dict \<Rightarrow> py_error + table" where
  "counts_table [] = Inr []"
| "counts_table ((key, c) # rest) =
     (case counts_entry c of
        Inl e \<Rightarrow> Inl e
      | Inr en \<Rightarrow> (case counts_table rest of Inl e \<Rightarrow> Inl e | Inr t \<Rightarrow> Inr ((key, en) # t)))"

text \<open>\<^verbatim>\<open>json.dumps(..., sort_keys=True)\<close> orders the keys of both levels in the file.\<close>

definition sort_table :: "table \<Rightarrow> table" where
  "sort_table t = sort_key fst (map (\<lambda>(key, e). (key, e\<lparr>en_p := sort_key fst (en_p e)\<rparr>)) t)"

text \<open>
  The table written to \<^verbatim>\<open>table.json\<close>, or \<open>None\<close> when the session has nothing to add;
  \<open>existing\<close> is what \<^verbatim>\<open>_load_repo_table\<close> read.
\<close>

definition persist_repo_table ::
  "table option \<Rightarrow> (string, counter) dict \<Rightarrow> py_error + table option" where
  "persist_repo_table existing session_counts =
     (if session_counts = [] then Inr None
      else let counts = (case existing of None \<Rightarrow> []
                         | Some t \<Rightarrow> map (\<lambda>(key, e). (key, entry_counts e)) t)
           in case counts_table (merge_counts session_counts counts) of
                Inl e \<Rightarrow> Inl e | Inr t \<Rightarrow> Inr (Some (sort_table t)))"

section \<open>Counters\<close>

lemma dict_add_get: "dict_get_default (dict_add k x d) k' 0 =
    dict_get_default d k' 0 + (if k' = k then x else (0 :: 'v :: comm_monoid_add))"
  by (simp add: dict_add_def)

lemma sum_dict_set: "sum_list (map snd (dict_set k (dict_get_default d k 0 + x) d)) =
    sum_list (map snd d) + (x :: 'v :: comm_monoid_add)"
  by (induction d) (auto simp: dict_get_default_def ac_simps)

lemma sum_dict_add: "sum_list (map snd (dict_add k x d)) =
    sum_list (map snd d) + (x :: 'v :: comm_monoid_add)"
  unfolding dict_add_def by (rule sum_dict_set)

lemma distinct_dict_add: "distinct (map fst d) \<Longrightarrow> distinct (map fst (dict_add k x d))"
  by (simp add: dict_add_def distinct_dict_set)

lemma keys_dict_add: "fst ` set (dict_add k x d) = insert k (fst ` set d)"
  by (simp add: dict_add_def dom_update)

lemma dict_get_default_in:
  "distinct (map fst d) \<Longrightarrow> (k, v) \<in> set d \<Longrightarrow> dict_get_default d k z = v"
  by (simp add: dict_get_default_def)

lemma dict_get_default_notin: "k \<notin> fst ` set d \<Longrightarrow> dict_get_default d k z = z"
  by (simp add: dict_get_default_def map_of_eq_None_iff [THEN iffD2])

text \<open>Adding a whole dict of amounts, entry by entry.\<close>

lemma fold_add_get:
  "dict_get_default (fold (\<lambda>(k, x). dict_add k (f x)) ps b) k 0 =
   dict_get_default b k 0 + (\<Sum>(k', x) \<leftarrow> ps. if k' = k then f x else (0 :: 'v :: comm_monoid_add))"
  by (induction ps arbitrary: b) (auto simp: dict_add_get ac_simps)

lemma sum_list_pick:
  assumes "distinct (map fst ps)"
  shows "(\<Sum>(k', x) \<leftarrow> ps. if k' = k then f x else (0 :: 'v :: comm_monoid_add)) =
    (case dict_get ps k of None \<Rightarrow> 0 | Some x \<Rightarrow> f x)"
  using assms
proof (induction ps)
  case Nil
  then show ?case by simp
next
  case (Cons p ps)
  obtain k1 x1 where p: "p = (k1, x1)" by (cases p)
  have "dict_get ps k = None" if "k1 = k"
    using Cons.prems that by (simp add: p map_of_eq_None_iff)
  with Cons show ?case by (auto simp: p)
qed

lemma fold_add_sum:
  "sum_list (map snd (fold (\<lambda>(k, x). dict_add k (f x)) ps b)) =
   sum_list (map snd b) + (\<Sum>(k, x) \<leftarrow> ps. (f x :: 'v :: comm_monoid_add))"
  by (induction ps arbitrary: b) (auto simp: sum_dict_add ac_simps)

lemma fold_add_distinct:
  "distinct (map fst b) \<Longrightarrow> distinct (map fst (fold (\<lambda>(k, x). dict_add k (f x)) ps b))"
  by (induction ps arbitrary: b) (auto simp: distinct_dict_add)

lemma fold_add_keys:
  "fst ` set (fold (\<lambda>(k, x). dict_add k (f x)) ps b) = fst ` set b \<union> fst ` set ps"
proof (induction ps arbitrary: b)
  case (Cons p ps)
  then show ?case by (cases p) (simp add: keys_dict_add)
qed simp

lemma dict_get_default_mem: "dict_get_default d k z = z \<or> dict_get_default d k z \<in> snd ` set d"
proof (cases "dict_get d k")
  case (Some v)
  then have "v \<in> snd ` set d" by (force dest: map_of_SomeD)
  with Some show ?thesis by (simp add: dict_get_default_def)
qed (simp add: dict_get_default_def)

lemma dict_set_all:
  assumes "\<forall>v \<in> snd ` set d. P v" and "P y"
  shows "\<forall>v \<in> snd ` set (dict_set k y d). P v"
  using assms by (induction d) auto

lemma dict_add_nonneg:
  fixes x :: "'v :: ordered_comm_monoid_add"
  assumes "\<forall>v \<in> snd ` set d. 0 \<le> v" and "0 \<le> x"
  shows "\<forall>v \<in> snd ` set (dict_add k x d). 0 \<le> v"
proof -
  have "0 \<le> dict_get_default d k 0"
    using dict_get_default_mem [of d k 0] assms(1) by auto
  then have "0 \<le> dict_get_default d k 0 + x" using assms(2) by simp
  then show ?thesis unfolding dict_add_def by (rule dict_set_all [OF assms(1)])
qed

lemma fold_add_nonneg:
  fixes f :: "'x \<Rightarrow> 'v :: ordered_comm_monoid_add"
  assumes "\<forall>v \<in> snd ` set b. 0 \<le> v" and "\<forall>x \<in> snd ` set ps. 0 \<le> f x"
  shows "\<forall>v \<in> snd ` set (fold (\<lambda>(k, x). dict_add k (f x)) ps b). 0 \<le> v"
  using assms
proof (induction ps arbitrary: b)
  case (Cons p ps)
  obtain k x where p: "p = (k, x)" by (cases p)
  have "\<forall>v \<in> snd ` set (dict_add k (f x) b). 0 \<le> v"
    by (rule dict_add_nonneg [OF Cons.prems(1)]) (use Cons.prems(2) in \<open>simp add: p\<close>)
  from Cons.IH [OF this] Cons.prems(2) show ?case by (simp add: p)
qed simp

section \<open>The invariant of the session's counts\<close>

text \<open>
  Every counter the predictor keeps is non-empty, has distinct kinds and positive counts,
  and the event window never exceeds \<open>k + 1\<close>.
\<close>

definition counter_ok :: "counter \<Rightarrow> bool" where
  "counter_ok c \<longleftrightarrow> c \<noteq> [] \<and> distinct (map fst c) \<and> (\<forall>n \<in> snd ` set c. 0 < n)"

definition predictor_inv :: "predictor \<Rightarrow> bool" where
  "predictor_inv pr \<longleftrightarrow>
     distinct (map fst (pr_counts pr)) \<and> (\<forall>c \<in> snd ` set (pr_counts pr). counter_ok c) \<and>
     length (pr_events pr) \<le> pr_k pr + 1 \<and> (\<forall>e \<in> set (pr_events pr). te_outcome e \<noteq> None)"

lemma predictor_inv_init: "predictor_inv (init_predictor g k r v)"
  by (simp add: predictor_inv_def init_predictor_def)

lemma counter_ok_add:
  assumes "c = [] \<or> counter_ok c"
  shows "counter_ok (dict_add kind 1 c)"
proof -
  have d: "distinct (map fst c)" "\<forall>n \<in> snd ` set c. 0 < n"
    using assms by (auto simp: counter_ok_def)
  have "dict_add kind 1 c \<noteq> []" by (cases c) (auto simp: dict_add_def)
  moreover have "\<forall>n \<in> snd ` set (dict_add kind 1 c). 0 < n"
  proof -
    have "0 \<le> dict_get_default c kind 0"
      using d(2) dict_get_default_mem [of c kind 0] by (auto intro: less_imp_le)
    then show ?thesis
      unfolding dict_add_def by (intro dict_set_all [OF d(2)]) simp
  qed
  ultimately show ?thesis using d by (simp add: counter_ok_def distinct_dict_add)
qed

lemma counter_sum_pos: "counter_ok c \<Longrightarrow> 0 < counter_sum c"
proof -
  assume "counter_ok c"
  then obtain p ps where c: "c = p # ps" and "\<forall>n \<in> snd ` set c. 0 < n"
    by (cases c) (auto simp: counter_ok_def)
  then have "0 < snd p" "\<forall>n \<in> set (map snd ps). 0 \<le> n" by (auto simp: less_imp_le)
  moreover from this(2) have "0 \<le> sum_list (map snd ps)" by (intro sum_list_nonneg) blast
  ultimately show ?thesis by (simp add: counter_sum_def c)
qed

lemma context_str_total: "predictor_inv pr \<Longrightarrow> pr_events pr \<noteq> [] \<Longrightarrow> \<exists>key. context_str pr = Inr key"
proof -
  assume "predictor_inv pr" and ne: "pr_events pr \<noteq> []"
  then have "te_outcome (last (pr_events pr)) \<noteq> None"
    unfolding predictor_inv_def by (meson last_in_set)
  with ne show ?thesis by (auto simp: context_str_def context_key_def)
qed

lemma deque_append_props:
  "0 < n \<Longrightarrow> length (deque_append n x xs) = min n (Suc (length xs))"
  "0 < n \<Longrightarrow> deque_append n x xs \<noteq> [] \<and> last (deque_append n x xs) = x"
  "set (deque_append n x xs) \<subseteq> insert x (set xs)"
  by (auto simp: deque_append_def dest: in_set_dropD)

lemma observe_ok:
  assumes inv: "predictor_inv pr" and oc: "te_outcome e \<noteq> None"
  shows "\<exists>pr'. observe e pr = Inr pr' \<and> predictor_inv pr' \<and>
    pr_events pr' = deque_append (pr_k pr + 1) e (pr_events pr) \<and> pr_k pr' = pr_k pr \<and>
    pr_global pr' = pr_global pr \<and> pr_repo pr' = pr_repo pr"
proof -
  let ?es = "deque_append (pr_k pr + 1) e (pr_events pr)"
  have es: "length ?es \<le> pr_k pr + 1" "\<forall>e \<in> set ?es. te_outcome e \<noteq> None"
    using deque_append_props [of "pr_k pr + 1" e "pr_events pr"] inv oc
    by (auto simp: predictor_inv_def)
  show ?thesis
  proof (cases "pr_events pr = []")
    case True
    with es inv show ?thesis by (simp add: observe_def predictor_inv_def)
  next
    case False
    then obtain key where k: "context_str pr = Inr key" using context_str_total [OF inv] by blast
    let ?c = "dict_get_default (pr_counts pr) key []"
    have d: "distinct (map fst (pr_counts pr))" "\<forall>c \<in> snd ` set (pr_counts pr). counter_ok c"
      using inv by (simp_all add: predictor_inv_def)
    have "?c = [] \<or> counter_ok ?c"
      using d(2) dict_get_default_mem [of "pr_counts pr" key "[]"] by auto
    then have "counter_ok (dict_add (te_kind e) 1 ?c)" by (rule counter_ok_add)
    with d have "\<forall>c \<in> snd ` set (dict_set key (dict_add (te_kind e) 1 ?c) (pr_counts pr)). counter_ok c"
      by (intro dict_set_all)
    with d(1) es False k show ?thesis
      by (simp add: observe_def predictor_inv_def distinct_dict_set)
  qed
qed

section \<open>Proposals are probability distributions\<close>

definition entry_ok :: "table_entry \<Rightarrow> bool" where
  "entry_ok e \<longleftrightarrow> 0 < en_support e \<and> (\<forall>p \<in> snd ` set (en_p e). 0 \<le> p) \<and>
     sum_list (map snd (en_p e)) = 1"

definition table_ok :: "table \<Rightarrow> bool" where
  "table_ok t \<longleftrightarrow> (\<forall>e \<in> snd ` set t. entry_ok e)"

definition source_ok :: "rat \<times> (string, rat) dict \<Rightarrow> bool" where
  "source_ok s \<longleftrightarrow> 0 < fst s \<and> (\<forall>p \<in> snd ` set (snd s). 0 \<le> p) \<and> sum_list (map snd (snd s)) = 1"

lemma sum_list_div: "(\<Sum>(k, n) \<leftarrow> c. of_int n / (x :: rat)) = of_int (counter_sum c) / x"
  by (induction c) (auto simp: counter_sum_def add_divide_distrib)

lemma session_source_ok:
  assumes "\<forall>c. session = Some c \<longrightarrow> counter_ok c"
  shows "\<forall>s \<in> set (session_source session). source_ok s"
proof (cases session)
  case None
  then show ?thesis by (simp add: session_source_def)
next
  case (Some c)
  with assms have c: "counter_ok c" by simp
  note pos = counter_sum_pos [OF c]
  have "\<forall>n \<in> snd ` set c. 0 < n" using c by (simp add: counter_ok_def)
  then have "\<forall>p \<in> snd ` set (map (\<lambda>(kind, n). (kind, of_int n / (of_int (counter_sum c) :: rat))) c). 0 \<le> p"
    using pos by (fastforce intro: divide_nonneg_pos)
  moreover have "sum_list (map snd (map (\<lambda>(kind, n). (kind, of_int n / (of_int (counter_sum c) :: rat))) c)) = 1"
    using pos sum_list_div [of "of_int (counter_sum c)" c] by (simp add: comp_def case_prod_unfold)
  ultimately show ?thesis
    using Some pos by (simp add: session_source_def source_ok_def SUPPORT_CAP_def)
qed

lemma table_source_ok:
  assumes "table_ok t" and "0 < decay"
  shows "\<forall>s \<in> set (table_source decay t key). source_ok s"
proof (cases "dict_get t key")
  case (Some e)
  then have "e \<in> snd ` set t" by (force dest: map_of_SomeD)
  with assms(1) have "entry_ok e" unfolding table_ok_def by blast
  with Some assms(2) show ?thesis
    by (simp add: table_source_def source_ok_def entry_ok_def SUPPORT_CAP_def)
qed (simp add: table_source_def)

lemma pr_sources_ok:
  assumes "predictor_inv pr" "table_ok (pr_global pr)" "table_ok (pr_repo pr)"
  shows "\<forall>s \<in> set (pr_sources pr key). source_ok s"
proof -
  let ?session = "dict_get (pr_counts pr) key"
  have c: "\<forall>c. ?session = Some c \<longrightarrow> counter_ok c"
    using assms(1) by (force simp: predictor_inv_def dest: map_of_SomeD)
  define n where "n = (case ?session of None \<Rightarrow> 0 | Some c \<Rightarrow> counter_sum c)"
  have "0 \<le> n" using c counter_sum_pos by (force simp: n_def split: option.split)
  then have "0 < SUPPORT_CAP / (SUPPORT_CAP + of_int n)" by (simp add: SUPPORT_CAP_def)
  with table_source_ok [OF assms(2) this] table_source_ok [OF assms(3) this] session_source_ok [OF c]
  show ?thesis by (auto simp: pr_sources_def Let_def n_def)
qed

lemma blend_dist_as_fold: "blend_dist w ps b = fold (\<lambda>(k, x). dict_add k (w * x)) ps b"
  by (simp add: blend_dist_def)

lemma blend_dist_facts:
  assumes "source_ok (w, ps)" and "0 < tot" and "distinct (map fst b)" "\<forall>p \<in> snd ` set b. 0 \<le> p"
  shows "distinct (map fst (blend_dist (w / tot) ps b))"
    "\<forall>p \<in> snd ` set (blend_dist (w / tot) ps b). 0 \<le> p"
    "sum_list (map snd (blend_dist (w / tot) ps b)) = sum_list (map snd b) + w / tot"
proof -
  from assms(1) have w: "0 < w" "\<forall>p \<in> snd ` set ps. 0 \<le> p" "sum_list (map snd ps) = 1"
    by (auto simp: source_ok_def)
  show "distinct (map fst (blend_dist (w / tot) ps b))"
    unfolding blend_dist_as_fold by (rule fold_add_distinct [OF assms(3)])
  have "\<forall>x \<in> snd ` set ps. 0 \<le> w / tot * x"
    using w(1,2) assms(2) by (blast intro: mult_nonneg_nonneg divide_nonneg_pos less_imp_le)
  then show "\<forall>p \<in> snd ` set (blend_dist (w / tot) ps b). 0 \<le> p"
    unfolding blend_dist_as_fold by (rule fold_add_nonneg [OF assms(4)])
  have "(\<Sum>(k, x) \<leftarrow> ps. w / tot * x) = w / tot * sum_list (map snd ps)"
    by (induction ps) (auto simp: algebra_simps)
  then show "sum_list (map snd (blend_dist (w / tot) ps b)) = sum_list (map snd b) + w / tot"
    using w(3) by (simp add: blend_dist_as_fold fold_add_sum)
qed

lemma blend_fold_facts:
  assumes "\<forall>s \<in> set ss. source_ok s" "0 < tot" "distinct (map fst b)" "\<forall>p \<in> snd ` set b. 0 \<le> p"
  shows "sum_list (map snd (fold (\<lambda>(w, ps). blend_dist (w / tot) ps) ss b)) =
      sum_list (map snd b) + sum_list (map fst ss) / tot \<and>
    distinct (map fst (fold (\<lambda>(w, ps). blend_dist (w / tot) ps) ss b)) \<and>
    (\<forall>p \<in> snd ` set (fold (\<lambda>(w, ps). blend_dist (w / tot) ps) ss b). 0 \<le> p)"
  using assms(1,3,4)
proof (induction ss arbitrary: b)
  case Nil
  then show ?case by simp
next
  case (Cons s ss)
  obtain w ps where s: "s = (w, ps)" by (cases s)
  with Cons.prems have ok: "source_ok (w, ps)" "\<forall>s \<in> set ss. source_ok s" by simp_all
  note f = blend_dist_facts [OF ok(1) assms(2) Cons.prems(2,3)]
  from Cons.IH [OF ok(2) f(1,2)] f(3) show ?case
    by (simp add: s add_divide_distrib)
qed

lemma sources_total_pos:
  assumes "\<forall>s \<in> set ss. source_ok s" and "ss \<noteq> []"
  shows "0 < sum_list (map fst ss)"
proof -
  obtain s ss' where ss: "ss = s # ss'" using assms(2) by (cases ss) auto
  have "0 \<le> sum_list (map fst ss')"
    using assms(1) by (intro sum_list_nonneg) (auto simp: ss source_ok_def less_imp_le)
  with assms(1) show ?thesis by (simp add: ss source_ok_def add_pos_nonneg)
qed

lemma blend_ok:
  assumes "\<forall>s \<in> set ss. source_ok s" and "ss \<noteq> []"
  shows "\<exists>b. blend ss = Inr b \<and> sum_list (map snd b) = 1 \<and> distinct (map fst b) \<and>
    (\<forall>p \<in> snd ` set b. 0 \<le> p)"
proof -
  let ?total = "sum_list (map fst ss)"
  note pos = sources_total_pos [OF assms]
  note f = blend_fold_facts [OF assms(1) pos, of "[]"]
  have "sum_list (map snd (fold (\<lambda>(w, ps). blend_dist (w / ?total) ps) ss [])) = 1"
    using f pos by simp
  with f pos show ?thesis unfolding blend_def Let_def by auto
qed

lemma sum_list_member_le:
  assumes "\<forall>x \<in> set xs. (0 :: rat) \<le> x" and "x \<in> set xs"
  shows "x \<le> sum_list xs"
  using assms
proof (induction xs)
  case (Cons y ys)
  have "0 \<le> sum_list ys" using Cons.prems(1) by (intro sum_list_nonneg) simp
  with Cons show ?case by (cases "x = y") (auto simp: add_increasing)
qed simp

section \<open>Properties\<close>

text \<open>
  \<^verbatim>\<open>propose\<close> never raises, and what it returns is a probability distribution over
  kinds, best first: every probability is in [0, 1], they add up to 1, no kind is listed
  twice. The tables need only be distributions themselves.
\<close>

theorem propose_distribution:
  assumes inv: "predictor_inv pr" and t: "table_ok (pr_global pr)" "table_ok (pr_repo pr)"
  shows "\<exists>r. propose pr = Inr r \<and> sum_list (map snd r) = (if r = [] then 0 else 1) \<and>
    (\<forall>p \<in> snd ` set r. 0 \<le> p \<and> p \<le> 1) \<and> sorted_wrt (\<lambda>a b. snd b \<le> snd a) r \<and>
    distinct (map fst r)"
proof (cases "pr_events pr = []")
  case True
  then show ?thesis by (simp add: propose_def)
next
  case False
  then obtain key where k: "context_str pr = Inr key" using context_str_total [OF inv] by blast
  show ?thesis
  proof (cases "pr_sources pr key = []")
    case True
    with False k show ?thesis by (simp add: propose_def)
  next
    case ne: False
    obtain b where b: "blend (pr_sources pr key) = Inr b" "sum_list (map snd b) = 1"
        "distinct (map fst b)" "\<forall>p \<in> snd ` set b. 0 \<le> p"
      using blend_ok [OF pr_sources_ok [OF inv t] ne] by blast
    let ?r = "sort_key (\<lambda>kv. - snd kv) b"
    have r: "propose pr = Inr ?r"
      using False k ne b(1) by (simp add: propose_def)
    have "mset ?r = mset b" by simp
    then have "mset (map snd ?r) = mset (map snd b)" "mset (map fst ?r) = mset (map fst b)"
      by (metis mset_map)+
    then have s: "sum_list (map snd ?r) = 1" "distinct (map fst ?r)"
      using b(2,3) by (metis sum_mset_sum_list, metis mset_eq_imp_distinct_iff)
    have "\<forall>p \<in> snd ` set ?r. 0 \<le> p \<and> p \<le> 1"
      using sum_list_member_le [of "map snd b"] b(2,4) by fastforce
    moreover have "sorted (map (\<lambda>kv. - snd kv) ?r)" by simp
    then have "sorted_wrt (\<lambda>a b. snd b \<le> snd a) ?r" by (simp add: sorted_wrt_map)
    moreover have "?r \<noteq> []" using s(1) by auto
    ultimately show ?thesis using r s by (intro exI [of _ ?r]) simp
  qed
qed

definition demo_predictor :: predictor where
  "demo_predictor =
     \<lparr>pr_k = 1, pr_outcome_visible = True,
      pr_global = [(''main|edit|edit:OK'', \<lparr>en_support = 40, en_p = [(''read'', 1)]\<rparr>)],
      pr_repo = [], pr_counts = [(''main|edit|edit:OK'', [(''test'', 3), (''run'', 1)])],
      pr_events = [\<lparr>te_t = 0, te_kind = ''edit'', te_verb = ''fork'', te_role = ''main'',
        te_epoch = 0, te_args = PDict [],
        te_outcome = Some \<lparr>oc_kind = ''edit'', oc_status = ''OK''\<rparr>\<rparr>]\<rparr>"

lemma demo_predictor_ok: "predictor_inv demo_predictor" "table_ok (pr_global demo_predictor)"
    "table_ok (pr_repo demo_predictor)"
  by (simp_all add: demo_predictor_def predictor_inv_def counter_ok_def table_ok_def entry_ok_def)

theorem propose_distribution_witness:
  "propose demo_predictor = Inr [(''read'', 25 / 31), (''test'', 9 / 62), (''run'', 3 / 62)] \<and>
   (\<exists>r. propose demo_predictor = Inr r \<and> sum_list (map snd r) = (if r = [] then 0 else 1))"
proof
  show "propose demo_predictor = Inr [(''read'', 25 / 31), (''test'', 9 / 62), (''run'', 3 / 62)]"
    by code_simp
  show "\<exists>r. propose demo_predictor = Inr r \<and> sum_list (map snd r) = (if r = [] then 0 else 1)"
    using propose_distribution [OF demo_predictor_ok] by blast
qed

section \<open>Saving the session's counts\<close>

definition table_count :: "table \<Rightarrow> string \<Rightarrow> string \<Rightarrow> int" where
  "table_count t key kind =
     (case dict_get t key of None \<Rightarrow> 0 | Some e \<Rightarrow> dict_get_default (entry_counts e) kind 0)"

definition session_count :: "(string, counter) dict \<Rightarrow> string \<Rightarrow> string \<Rightarrow> int" where
  "session_count cs key kind = dict_get_default (dict_get_default cs key []) kind 0"

lemma py_round_int [simp]: "py_round (of_int n) = n"
  by (simp add: py_round_def Let_def)

lemma counter_update_get:
  "distinct (map fst ctr) \<Longrightarrow> dict_get_default (counter_update ctr c) kind 0 =
     dict_get_default c kind 0 + dict_get_default ctr kind 0"
  using fold_add_get [where f = "\<lambda>x. x" and ps = ctr and b = c and k = kind]
    sum_list_pick [of ctr kind "\<lambda>x. x"]
  by (simp add: counter_update_def dict_get_default_def split: option.split)

lemma merge_counts_other:
  "key \<notin> fst ` set session \<Longrightarrow> dict_get (merge_counts session counts) key = dict_get counts key"
proof (induction session arbitrary: counts)
  case (Cons p session)
  then show ?case by (cases p) (simp add: merge_counts_def dict_get_set)
qed (simp add: merge_counts_def)

lemma merge_counts_count:
  assumes "distinct (map fst session)" "\<forall>c \<in> snd ` set session. distinct (map fst c)"
  shows "session_count (merge_counts session counts) key kind =
    session_count counts key kind + session_count session key kind"
  using assms
proof (induction session arbitrary: counts)
  case Nil
  then show ?case by (simp add: merge_counts_def session_count_def)
next
  case (Cons p session)
  obtain k c where p: "p = (k, c)" by (cases p)
  define counts' where "counts' = dict_set k (counter_update c (dict_get_default counts k [])) counts"
  have m: "merge_counts (p # session) counts = merge_counts session counts'"
    by (simp add: merge_counts_def p counts'_def)
  have c: "distinct (map fst c)" using Cons.prems(2) by (simp add: p)
  show ?case
  proof (cases "key = k")
    case True
    have "k \<notin> fst ` set session" using Cons.prems(1) by (simp add: p)
    from merge_counts_other [OF this, of counts']
    have "dict_get (merge_counts (p # session) counts) k =
        Some (counter_update c (dict_get_default counts k []))"
      by (simp add: m counts'_def dict_get_set)
    then show ?thesis
      using True counter_update_get [OF c, of "dict_get_default counts k []" kind]
      by (simp add: session_count_def dict_get_default_def p)
  next
    case False
    have "session_count (merge_counts session counts') key kind =
        session_count counts' key kind + session_count session key kind"
      using Cons by simp
    with False show ?thesis
      unfolding m by (simp add: counts'_def p session_count_def dict_get_default_def dict_get_set)
  qed
qed

lemma counts_entry_counts: "counts_entry c = Inr e \<Longrightarrow> entry_counts e = c"
proof -
  assume e: "counts_entry c = Inr e"
  show "entry_counts e = c"
  proof (cases "c = []")
    case True
    with e show ?thesis by (auto simp: counts_entry_def entry_counts_def Let_def split: if_splits)
  next
    case False
    with e have "counter_sum c \<noteq> 0" "e = \<lparr>en_support = counter_sum c,
        en_p = map (\<lambda>(kind, n). (kind, of_int n / of_int (counter_sum c))) c\<rparr>"
      by (auto simp: counts_entry_def Let_def split: if_splits)
    then show ?thesis by (simp add: entry_counts_def comp_def case_prod_unfold)
  qed
qed

lemma counts_table_get:
  "counts_table cs = Inr t \<Longrightarrow> map fst t = map fst cs \<and>
     (\<forall>key. map_option entry_counts (dict_get t key) = dict_get cs key)"
proof (induction cs arbitrary: t rule: counts_table.induct)
  case (2 key c rest)
  then obtain e t' where "counts_entry c = Inr e" "counts_table rest = Inr t'" "t = (key, e) # t'"
    by (auto split: sum.splits)
  with 2 show ?case by (simp add: counts_entry_counts)
qed simp

lemma entry_counts_keys: "map fst (entry_counts e) = map fst (en_p e)"
  by (simp add: entry_counts_def comp_def case_prod_unfold)

lemma entry_counts_sorted:
  assumes "distinct (map fst (en_p e))"
  shows "map_of (entry_counts (e\<lparr>en_p := sort_key fst (en_p e)\<rparr>)) = map_of (entry_counts e)"
proof -
  let ?g = "\<lambda>prob. py_round (of_int (en_support e) * prob)"
  have "map_of (map (\<lambda>(k, v). (k, ?g v)) ps) = map_option ?g \<circ> map_of ps" for ps :: "(string, rat) dict"
    by (rule ext) (simp add: map_of_map)
  then show ?thesis by (simp add: entry_counts_def map_of_sort_key_fst [OF assms])
qed

lemma sort_table_count:
  assumes "distinct (map fst t)" "\<forall>e \<in> snd ` set t. distinct (map fst (en_p e))"
  shows "table_count (sort_table t) key kind = table_count t key kind"
proof -
  let ?f = "\<lambda>e. e\<lparr>en_p := sort_key fst (en_p e)\<rparr>"
  have "distinct (map fst (map (\<lambda>(key, e). (key, ?f e)) t))"
    using assms(1) by (simp add: comp_def case_prod_unfold)
  then have get: "dict_get (sort_table t) key = map_option ?f (dict_get t key)"
    by (simp add: sort_table_def map_of_sort_key_fst map_of_map)
  show ?thesis
  proof (cases "dict_get t key")
    case None
    with get show ?thesis by (simp add: table_count_def)
  next
    case (Some e)
    then have "e \<in> snd ` set t" by (force dest: map_of_SomeD)
    with assms(2) have "distinct (map fst (en_p e))" by blast
    with Some get show ?thesis
      by (simp add: table_count_def dict_get_default_def entry_counts_sorted)
  qed
qed

text \<open>What \<^verbatim>\<open>merge_counts\<close> keeps: distinct keys, in the table and in each counter.\<close>

definition counts_wf :: "(string, counter) dict \<Rightarrow> bool" where
  "counts_wf cs \<longleftrightarrow> distinct (map fst cs) \<and> (\<forall>c \<in> snd ` set cs. distinct (map fst c))"

lemma merge_counts_wf: "counts_wf counts \<Longrightarrow> counts_wf (merge_counts session counts)"
proof (induction session arbitrary: counts)
  case Nil
  then show ?case by (simp add: merge_counts_def)
next
  case (Cons p session)
  obtain k c where p: "p = (k, c)" by (cases p)
  have d: "distinct (map fst counts)" "\<forall>c \<in> snd ` set counts. distinct (map fst c)"
    using Cons.prems unfolding counts_wf_def by blast+
  have "distinct (map fst (dict_get_default counts k []))"
    using dict_get_default_mem [of counts k "[]"] d(2) by auto
  then have "distinct (map fst (counter_update c (dict_get_default counts k [])))"
    unfolding counter_update_def by (rule fold_add_distinct)
  then have "counts_wf (dict_set k (counter_update c (dict_get_default counts k [])) counts)"
    unfolding counts_wf_def by (intro conjI distinct_dict_set [OF d(1)] dict_set_all [OF d(2)])
  from Cons.IH [OF this] show ?case by (simp add: merge_counts_def p)
qed

text \<open>A table as a JSON object: its keys and each entry's kinds are distinct.\<close>

definition table_wf :: "table \<Rightarrow> bool" where
  "table_wf t \<longleftrightarrow> distinct (map fst t) \<and> (\<forall>e \<in> snd ` set t. distinct (map fst (en_p e)))"

lemma counts_table_wf:
  assumes "counts_table cs = Inr t" and "counts_wf cs"
  shows "table_wf t"
proof -
  note g = counts_table_get [OF assms(1)]
  have d: "distinct (map fst t)" using g assms(2) by (simp add: counts_wf_def)
  have "distinct (map fst (en_p e))" if e: "e \<in> snd ` set t" for e
  proof -
    from e obtain key where "(key, e) \<in> set t" by force
    with d have "dict_get t key = Some e" by simp
    with g have "dict_get cs key = Some (entry_counts e)" by (metis option.simps(9))
    then have "entry_counts e \<in> snd ` set cs" by (force dest: map_of_SomeD)
    with assms(2) have "distinct (map fst (entry_counts e))" unfolding counts_wf_def by blast
    then show ?thesis by (simp add: entry_counts_keys)
  qed
  with d show ?thesis unfolding table_wf_def by blast
qed

lemma counts_table_count: "counts_table cs = Inr t \<Longrightarrow> table_count t key kind = session_count cs key kind"
proof -
  assume "counts_table cs = Inr t"
  then have "dict_get cs key = map_option entry_counts (dict_get t key)"
    using counts_table_get [of cs t] by simp
  then show ?thesis
    by (cases "dict_get t key") (auto simp: table_count_def session_count_def dict_get_default_def)
qed

lemma table_counts_session_count:
  "session_count (map (\<lambda>(key, e). (key, entry_counts e)) t) key kind = table_count t key kind"
  by (simp add: session_count_def table_count_def dict_get_default_def map_of_map split: option.split)

text \<open>
  Saving is exact addition. Whatever table the file held, the counts it stands for
  (support times probability, rounded) plus the session's counts are the counts the written
  table stands for: the division into probabilities loses nothing, so tables can be saved
  and loaded any number of times without drift.
\<close>

theorem persist_adds_counts:
  assumes ex: "case existing of None \<Rightarrow> True | Some t \<Rightarrow> table_wf t"
    and s: "counts_wf session" and p: "persist_repo_table existing session = Inr (Some t')"
  shows "table_wf t' \<and> table_count t' key kind =
    (case existing of None \<Rightarrow> 0 | Some t \<Rightarrow> table_count t key kind) + session_count session key kind"
proof -
  define counts where "counts = (case existing of None \<Rightarrow> []
      | Some t \<Rightarrow> map (\<lambda>(key, e). (key, entry_counts e)) t)"
  obtain t where t: "counts_table (merge_counts session counts) = Inr t" "t' = sort_table t"
    using p by (auto simp: persist_repo_table_def counts_def Let_def split: if_splits sum.splits)
  have wf: "counts_wf counts"
  proof (cases existing)
    case None
    then show ?thesis by (simp add: counts_def counts_wf_def)
  next
    case (Some t0)
    with ex have "table_wf t0" by simp
    with Some show ?thesis
      by (auto simp: counts_def counts_wf_def table_wf_def comp_def case_prod_unfold
          entry_counts_keys)
  qed
  have twf: "table_wf t" by (rule counts_table_wf [OF t(1) merge_counts_wf [OF wf]])
  then have twf': "table_wf t'"
    by (auto simp: t(2) sort_table_def table_wf_def distinct_map comp_def case_prod_unfold inj_on_def)
  have "table_count t' key kind = table_count t key kind"
    unfolding t(2) using twf by (intro sort_table_count) (auto simp: table_wf_def)
  also have "\<dots> = session_count (merge_counts session counts) key kind"
    by (rule counts_table_count [OF t(1)])
  also have "\<dots> = session_count counts key kind + session_count session key kind"
    using s unfolding counts_wf_def by (intro merge_counts_count) blast+
  also have "session_count counts key kind =
      (case existing of None \<Rightarrow> 0 | Some t \<Rightarrow> table_count t key kind)"
    by (cases existing) (simp_all add: counts_def table_counts_session_count, simp add: session_count_def)
  finally show ?thesis using twf' by simp
qed

theorem persist_adds_counts_witness:
  "\<exists>t'. persist_repo_table (Some [(''k'', \<lparr>en_support = 3, en_p = [(''test'', 2 / 3), (''run'', 1 / 3)]\<rparr>)])
      [(''k'', [(''run'', 2)])] = Inr (Some t') \<and> table_count t' ''k'' ''run'' = 3"
proof -
  let ?ex = "Some [(''k'', \<lparr>en_support = 3, en_p = [(''test'', 2 / 3), (''run'', 1 / 3 :: rat)]\<rparr>)]"
  let ?s = "[(''k'', [(''run'', 2 :: int)])]"
  have "(case persist_repo_table ?ex ?s of Inr (Some t) \<Rightarrow> True | _ \<Rightarrow> False)" by code_simp
  then obtain t' where t': "persist_repo_table ?ex ?s = Inr (Some t')"
    by (auto split: sum.splits option.splits)
  have "table_count [(''k'', \<lparr>en_support = 3, en_p = [(''test'', 2 / 3), (''run'', 1 / 3 :: rat)]\<rparr>)]
      ''k'' ''run'' = 1" "session_count ?s ''k'' ''run'' = 2" by code_simp+
  moreover have "case ?ex of None \<Rightarrow> True | Some t \<Rightarrow> table_wf t" "counts_wf ?s"
    by (simp_all add: table_wf_def counts_wf_def)
  ultimately have "table_count t' ''k'' ''run'' = 3"
    using persist_adds_counts [OF _ _ t', of "''k''" "''run''"] by simp
  with t' show ?thesis by blast
qed

end
