(* ===== verification/Gate.thy ===== *)
theory Gate
  imports Schema "HOL-Library.Multiset"
begin

text \<open>
  sfx/gate.py: whether a predicted call may be executed ahead of time. \<open>admit\<close> is the
  chain of refusals in the code's order; \<open>rank\<close> keeps the admitted candidates, best first.
  The thresholds 0.35 and 0.50 are the exact rationals.
\<close>

definition TAU_GET :: rat where
  "TAU_GET = 35 / 100"

definition TAU_FORK :: rat where
  "TAU_FORK = 50 / 100"

record candidate =
  c_kind :: string
  c_verb :: string
  c_p :: rat
  c_args :: "pyval option"
  c_hidden_ms :: rat
  c_cost_ms :: rat

record admission =
  a_candidate :: candidate
  a_action :: string
  a_priority :: rat
  a_reason :: string

definition tau :: "string \<Rightarrow> rat" where
  "tau verb = (if verb = ''fork'' then TAU_FORK else TAU_GET)"

definition reject :: "candidate \<Rightarrow> string \<Rightarrow> admission" where
  "reject c reason =
     \<lparr>a_candidate = c, a_action = ''reject'', a_priority = 0, a_reason = reason\<rparr>"

definition priority_of :: "candidate \<Rightarrow> rat" where
  "priority_of c = (if 0 < c_cost_ms c then c_p c * c_hidden_ms c / c_cost_ms c else 0)"

definition admit :: "candidate \<Rightarrow> int \<Rightarrow> admission" where
  "admit c free_slots =
     (if free_slots \<le> 0 then reject c ''no_slots''
      else if c_verb c \<notin> SPECULABLE then reject c ''not_speculable''
      else if c_verb c \<in> STREAM_ONLY then reject c ''stream_only''
      else if c_args c = None then reject c ''unresolved_args''
      else if c_p c < tau (c_verb c) then reject c ''below_tau''
      else \<lparr>a_candidate = c, a_action = ''execute'', a_priority = priority_of c,
            a_reason = ''admitted''\<rparr>)"

text \<open>The sort with \<open>reverse=True\<close> keeps the order of equal priorities.\<close>

definition rank :: "candidate list \<Rightarrow> int \<Rightarrow> candidate list" where
  "rank candidates free_slots =
     (let admitted = filter (\<lambda>a. a_action a \<noteq> ''reject'') (map (\<lambda>c. admit c free_slots) candidates)
      in map a_candidate (sort_key (\<lambda>a. - a_priority a) admitted))"

section \<open>Lemmas\<close>

lemma reject_sel [simp]:
  "a_action (reject c r) = ''reject''" "a_reason (reject c r) = r" "a_priority (reject c r) = 0"
  "a_candidate (reject c r) = c"
  by (simp_all add: reject_def)

lemma admit_candidate [simp]: "a_candidate (admit c n) = c"
  by (simp add: admit_def)

lemma admit_action: "a_action (admit c n) \<in> {''execute'', ''reject''}"
  by (simp add: admit_def)

lemma admit_execute_iff:
  "a_action (admit c n) = ''execute'' \<longleftrightarrow>
   0 < n \<and> c_verb c = ''free'' \<and> c_args c \<noteq> None \<and> TAU_GET \<le> c_p c"
  by (auto simp: admit_def SPECULABLE_def STREAM_ONLY_def tau_def)

lemma admit_reason_execute: "a_reason (admit c n) = ''admitted'' \<longleftrightarrow> a_action (admit c n) = ''execute''"
  by (simp add: admit_def)

lemma admit_no_slots: "a_reason (admit c n) = ''no_slots'' \<longleftrightarrow> n \<le> 0"
  by (simp add: admit_def)

lemma admit_execute_priority:
  "a_action (admit c n) = ''execute'' \<Longrightarrow> a_priority (admit c n) = priority_of c"
  by (simp add: admit_def split: if_splits)

lemma rank_eq:
  "rank cs n = sort_key (\<lambda>c. - priority_of c) (filter (\<lambda>c. a_action (admit c n) = ''execute'') cs)"
proof -
  let ?exec = "\<lambda>c. a_action (admit c n) = ''execute''"
  have flt: "filter (\<lambda>a. a_action a \<noteq> ''reject'') (map (\<lambda>c. admit c n) cs) =
      map (\<lambda>c. admit c n) (filter ?exec cs)"
    using admit_action [of _ n] by (induction cs) auto
  have "sort_key (\<lambda>a. - a_priority a) (map (\<lambda>c. admit c n) (filter ?exec cs)) =
      map (\<lambda>c. admit c n) (sort_key (\<lambda>c. - a_priority (admit c n)) (filter ?exec cs))"
    by (rule sort_key_map)
  also have "sort_key (\<lambda>c. - a_priority (admit c n)) (filter ?exec cs) =
      sort_key (\<lambda>c. - priority_of c) (filter ?exec cs)"
  proof -
    have "sort_key f xs = sort_key g xs" if "\<forall>x \<in> set xs. f x = g x"
      for f g :: "candidate \<Rightarrow> rat" and xs
      using that
    proof (induction xs)
      case (Cons x xs)
      have "insort_key f x ys = insort_key g x ys" if "\<forall>y \<in> set ys. f y = g y" for ys
        using that Cons.prems by (induction ys) auto
      with Cons show ?case by simp
    qed simp
    then show ?thesis by (simp add: admit_execute_priority)
  qed
  finally show ?thesis
    by (simp add: rank_def Let_def flt comp_def)
qed

section \<open>Properties\<close>


text \<open>
  Ranking keeps exactly the executable candidates, none twice or lost, by falling
  priority, and candidates of one priority in the order they came.
\<close>

theorem rank_correct:
  "mset (rank cs n) = mset (filter (\<lambda>c. a_action (admit c n) = ''execute'') cs) \<and>
   sorted_wrt (\<lambda>a b. priority_of b \<le> priority_of a) (rank cs n) \<and>
   filter (\<lambda>c. priority_of c = x) (rank cs n) =
     filter (\<lambda>c. priority_of c = x) (filter (\<lambda>c. a_action (admit c n) = ''execute'') cs)"
proof (intro conjI)
  let ?f = "\<lambda>c. - priority_of c"
  show "mset (rank cs n) = mset (filter (\<lambda>c. a_action (admit c n) = ''execute'') cs)"
    by (simp add: rank_eq)
  have "sorted (map ?f (rank cs n))" by (simp add: rank_eq)
  then show "sorted_wrt (\<lambda>a b. priority_of b \<le> priority_of a) (rank cs n)"
    by (simp add: sorted_wrt_map)
  show "filter (\<lambda>c. priority_of c = x) (rank cs n) =
     filter (\<lambda>c. priority_of c = x) (filter (\<lambda>c. a_action (admit c n) = ''execute'') cs)"
    using sort_key_stable [of ?f "- x"] by (simp add: rank_eq)
qed

end
