(* ===== verification/Json.thy ===== *)
theory Json
  imports Py_Value
begin

text \<open>
  \<^verbatim>\<open>json.loads\<close> of the standard library, as adapters/stream.py and adapters/protocol.py use
  it: \<open>None\<close> stands for \<^verbatim>\<open>JSONDecodeError\<close>. Numbers with a fraction or an exponent are
  exact rationals (Python rounds them to a double), and Python's \<^verbatim>\<open>NaN\<close> and
  \<^verbatim>\<open>Infinity\<close> literals, which have no value here, count as errors. Nothing here models a
  file of the program.
\<close>

section \<open>Characters\<close>

definition code :: "char \<Rightarrow> nat" where
  "code c = of_char c"

definition is_ws :: "char \<Rightarrow> bool" where
  "is_ws c \<longleftrightarrow> code c \<in> {32, 9, 10, 13}"

definition is_digit :: "char \<Rightarrow> bool" where
  "is_digit c \<longleftrightarrow> 48 \<le> code c \<and> code c \<le> 57"

definition hex_digit :: "char \<Rightarrow> nat option" where
  "hex_digit c =
     (let n = code c in
      if 48 \<le> n \<and> n \<le> 57 then Some (n - 48)
      else if 65 \<le> n \<and> n \<le> 70 then Some (n - 55)
      else if 97 \<le> n \<and> n \<le> 102 then Some (n - 87)
      else None)"

definition hex4 :: "string \<Rightarrow> (nat \<times> string) option" where
  "hex4 s =
     (case s of
        a # b # c # d # rest \<Rightarrow>
          (case (hex_digit a, hex_digit b, hex_digit c, hex_digit d) of
             (Some w, Some x, Some y, Some z) \<Rightarrow> Some (((w * 16 + x) * 16 + y) * 16 + z, rest)
           | _ \<Rightarrow> None)
      | _ \<Rightarrow> None)"

lemma hex4_shorter: "hex4 s = Some (n, rest) \<Longrightarrow> length rest < length s"
  by (auto simp: hex4_def split: list.splits option.splits)

definition byte :: "nat \<Rightarrow> char" where
  "byte n = char_of n"

text \<open>UTF-8 of a code point.\<close>

definition utf8_point :: "nat \<Rightarrow> string" where
  "utf8_point n =
     (if n < 128 then [byte n]
      else if n < 2048 then [byte (192 + n div 64), byte (128 + n mod 64)]
      else if n < 65536 then [byte (224 + n div 4096), byte (128 + n div 64 mod 64), byte (128 + n mod 64)]
      else [byte (240 + n div 262144), byte (128 + n div 4096 mod 64),
            byte (128 + n div 64 mod 64), byte (128 + n mod 64)])"

definition simple_escape :: "char \<Rightarrow> char option" where
  "simple_escape c =
     dict_get [(CHR 0x22, CHR 0x22), (CHR 0x5C, CHR 0x5C), (CHR ''/'', CHR ''/''), (CHR ''b'', CHR 0x08),
       (CHR ''f'', CHR 0x0C), (CHR ''n'', CHR 0x0A), (CHR ''r'', CHR 0x0D), (CHR ''t'', CHR 0x09)] c"

text \<open>The second half of a surrogate pair, if it follows.\<close>

definition low_surrogate :: "string \<Rightarrow> (nat \<times> string) option" where
  "low_surrogate s =
     (case s of
        a # b # rest \<Rightarrow>
          if a = CHR 0x5C \<and> b = CHR ''u'' then
            (case hex4 rest of
               Some (n, rest') \<Rightarrow> if 0xDC00 \<le> n \<and> n \<le> 0xDFFF then Some (n, rest') else None
             | None \<Rightarrow> None)
          else None
      | _ \<Rightarrow> None)"

lemma low_surrogate_shorter: "low_surrogate s = Some (n, rest) \<Longrightarrow> length rest < length s"
  by (auto simp: low_surrogate_def split: list.splits option.splits if_splits dest: hex4_shorter)

section \<open>Strings\<close>

text \<open>The rest of a string after its opening quote: its bytes, and what follows it.\<close>

function json_string :: "string \<Rightarrow> (string \<times> string) option" where
  "json_string [] = None"
| "json_string (c # cs) =
     (if c = CHR 0x22 then Some ([], cs)
      else if c = CHR 0x5C then
        (case cs of
           [] \<Rightarrow> None
         | e # es \<Rightarrow>
             if e = CHR ''u'' then
               (case hex4 es of
                  None \<Rightarrow> None
                | Some (n, rest) \<Rightarrow>
                    (case (if 0xD800 \<le> n \<and> n \<le> 0xDBFF then low_surrogate rest else None) of
                       Some (m, rest') \<Rightarrow>
                         map_option (\<lambda>(s, r). (utf8_point (0x10000 + (n - 0xD800) * 1024 + (m - 0xDC00)) @ s, r))
                           (json_string rest')
                     | None \<Rightarrow> map_option (\<lambda>(s, r). (utf8_point n @ s, r)) (json_string rest)))
             else (case simple_escape e of
                     None \<Rightarrow> None
                   | Some x \<Rightarrow> map_option (\<lambda>(s, r). (x # s, r)) (json_string es)))
      else if code c < 32 then None
      else map_option (\<lambda>(s, r). (c # s, r)) (json_string cs))"
  by pat_completeness auto
termination
  by (relation "measure length")
    (auto dest!: hex4_shorter low_surrogate_shorter split: if_splits)

section \<open>Numbers\<close>

definition digits_value :: "string \<Rightarrow> nat" where
  "digits_value s = foldl (\<lambda>n c. 10 * n + (code c - 48)) 0 s"

definition digits :: "string \<Rightarrow> string \<times> string" where
  "digits s = (takeWhile is_digit s, dropWhile is_digit s)"

text \<open>\<^verbatim>\<open>(-?(?:0|[1-9]\d*))(\.\d+)?([eE][-+]?\d+)?\<close>, the pattern of the decoder.\<close>

definition json_exponent :: "string \<Rightarrow> (int \<times> string) option" where
  "json_exponent s =
     (case s of
        e # rest \<Rightarrow>
          if e = CHR ''e'' \<or> e = CHR ''E'' then
            (let (neg, r1) = (case rest of
                    c # cs \<Rightarrow> if c = CHR ''-'' then (True, cs) else if c = CHR ''+'' then (False, cs) else (False, rest)
                  | [] \<Rightarrow> (False, rest));
                 (ds, r2) = digits r1
             in if ds = [] then None
                else Some (if neg then - int (digits_value ds) else int (digits_value ds), r2))
          else None
      | [] \<Rightarrow> None)"

definition pow10 :: "int \<Rightarrow> rat" where
  "pow10 e = (if 0 \<le> e then 10 ^ nat e else 1 / 10 ^ nat (- e))"

definition num_sign :: "string \<Rightarrow> int \<times> string" where
  "num_sign s = (case s of c # cs \<Rightarrow> if c = CHR ''-'' then (-1, cs) else (1, s) | [] \<Rightarrow> (1, s))"

definition num_int :: "string \<Rightarrow> string \<times> string" where
  "num_int s = (case s of c # cs \<Rightarrow> if c = CHR ''0'' then ([c], cs) else digits s | [] \<Rightarrow> ([], s))"

definition num_frac :: "string \<Rightarrow> string \<times> string" where
  "num_frac s = (case s of
     c # cs \<Rightarrow> if c = CHR ''.'' \<and> fst (digits cs) \<noteq> [] then digits cs else ([], s)
   | [] \<Rightarrow> ([], s))"

definition num_exp :: "string \<Rightarrow> int option \<times> string" where
  "num_exp s = (case json_exponent s of None \<Rightarrow> (None, s) | Some (e, r) \<Rightarrow> (Some e, r))"

definition json_number :: "string \<Rightarrow> (pyval \<times> string) option" where
  "json_number s =
     (let (sg, r0) = num_sign s;
          (ds, r1) = num_int r0;
          (fs, r2) = num_frac r1;
          (ex, r3) = num_exp r2
      in if ds = [] then None
         else if fs = [] \<and> ex = None then Some (PInt (sg * int (digits_value ds)), r3)
         else Some (PFloat (of_int sg * (of_nat (digits_value ds) + of_nat (digits_value fs) / 10 ^ length fs)
                * pow10 (case ex of None \<Rightarrow> 0 | Some e \<Rightarrow> e)), r3))"

section \<open>Values\<close>

definition skip_ws :: "string \<Rightarrow> string" where
  "skip_ws s = dropWhile is_ws s"

definition json_literal :: "string \<Rightarrow> (pyval \<times> string) option" where
  "json_literal s =
     (if take 4 s = ''null'' then Some (PNone, drop 4 s)
      else if take 4 s = ''true'' then Some (PBool True, drop 4 s)
      else if take 5 s = ''false'' then Some (PBool False, drop 5 s)
      else None)"

definition repeated :: "bool \<Rightarrow> (string, pyval) dict \<Rightarrow> string \<Rightarrow> bool" where
  "repeated u acc key \<longleftrightarrow> u \<and> dict_get acc key \<noteq> None"

text \<open>
  The scanner, with fuel. Of two nested calls at least one comes after a character was read,
  so twice the length of the text is enough (\<open>json_fuel\<close> below). With \<open>u\<close> the keys of an
  object must differ.
\<close>

fun json_value :: "bool \<Rightarrow> nat \<Rightarrow> string \<Rightarrow> (pyval \<times> string) option"
  and json_items :: "bool \<Rightarrow> nat \<Rightarrow> pyval list \<Rightarrow> string \<Rightarrow> (pyval list \<times> string) option"
  and json_members :: "bool \<Rightarrow> nat \<Rightarrow> (string, pyval) dict \<Rightarrow> string \<Rightarrow> ((string, pyval) dict \<times> string) option"
where
  "json_value u 0 s = None"
| "json_value u (Suc n) s =
     (case s of
        [] \<Rightarrow> None
      | c # cs \<Rightarrow>
          if c = CHR 0x22 then map_option (\<lambda>(t, r). (PStr t, r)) (json_string cs)
          else if c = CHR ''{'' then
            (case skip_ws cs of
               [] \<Rightarrow> None
             | d # ds \<Rightarrow> if d = CHR ''}'' then Some (PDict [], ds)
                        else map_option (\<lambda>(kvs, r). (PDict kvs, r)) (json_members u n [] (d # ds)))
          else if c = CHR ''['' then
            (case skip_ws cs of
               [] \<Rightarrow> None
             | d # ds \<Rightarrow> if d = CHR '']'' then Some (PList [], ds)
                        else map_option (\<lambda>(xs, r). (PList xs, r)) (json_items u n [] (d # ds)))
          else (case json_literal s of Some r \<Rightarrow> Some r | None \<Rightarrow> json_number s))"
| "json_items u 0 acc s = None"
| "json_items u (Suc n) acc s =
     (case json_value u n s of
        None \<Rightarrow> None
      | Some (v, r) \<Rightarrow>
          (case skip_ws r of
             [] \<Rightarrow> None
           | c # cs \<Rightarrow>
               if c = CHR '']'' then Some (acc @ [v], cs)
               else if c = CHR '','' then json_items u n (acc @ [v]) (skip_ws cs)
               else None))"
| "json_members u 0 acc s = None"
| "json_members u (Suc n) acc s =
     (case s of
        [] \<Rightarrow> None
      | q # qs \<Rightarrow>
          if q \<noteq> CHR 0x22 then None
          else (case json_string qs of
                  None \<Rightarrow> None
                | Some (key, r) \<Rightarrow>
                    if repeated u acc key then None
                    else (case skip_ws r of
                       [] \<Rightarrow> None
                     | c # cs \<Rightarrow>
                         if c \<noteq> CHR '':'' then None
                         else (case json_value u n (skip_ws cs) of
                                 None \<Rightarrow> None
                               | Some (v, r') \<Rightarrow>
                                   (case skip_ws r' of
                                      [] \<Rightarrow> None
                                    | d # ds \<Rightarrow>
                                        if d = CHR ''}'' then Some (dict_set key v acc, ds)
                                        else if d = CHR '','' then json_members u n (dict_set key v acc) (skip_ws ds)
                                        else None)))))"

definition json_loads_by :: "bool \<Rightarrow> string \<Rightarrow> pyval option" where
  "json_loads_by u s =
     (case json_value u (2 * length s + 2) (skip_ws s) of
        None \<Rightarrow> None
      | Some (v, r) \<Rightarrow> if skip_ws r = [] then Some v else None)"

text \<open>\<^verbatim>\<open>json.loads\<close>, plain and with a hook that raises when an object names a key twice.\<close>

abbreviation json_loads :: "string \<Rightarrow> pyval option" where
  "json_loads \<equiv> json_loads_by False"

abbreviation json_loads_unique :: "string \<Rightarrow> pyval option" where
  "json_loads_unique \<equiv> json_loads_by True"

section \<open>The fuel is enough\<close>

lemma skip_ws_le: "length (skip_ws s) \<le> length s"
  by (simp add: skip_ws_def length_dropWhile_le)

lemma skip_ws_Cons: "skip_ws s = c # cs \<Longrightarrow> length cs < length s"
  using skip_ws_le [of s] by simp

lemma json_string_shorter: "json_string s = Some (t, r) \<Longrightarrow> length r < length s"
proof (induction s arbitrary: t r rule: json_string.induct)
  case 1
  then show ?case by simp
next
  case (2 c cs)
  show ?case
  proof (cases "c = CHR 0x22 \<or> code c < 32 \<and> c \<noteq> CHR 0x5C")
    case True
    with "2.prems" show ?thesis by (auto split: if_splits)
  next
    case plain: False
    show ?thesis
    proof (cases "c = CHR 0x5C")
      case False
      with plain "2.prems" obtain t' where "json_string cs = Some (t', r)"
        by (auto split: if_splits)
      with "2.IH"(4) plain False show ?thesis by fastforce
    next
      case esc: True
      with plain "2.prems" obtain e es where cs: "cs = e # es" by (auto split: list.splits)
      show ?thesis
      proof (cases "e = CHR ''u''")
        case False
        with esc plain cs "2.prems" obtain t' where "json_string es = Some (t', r)"
          by (auto split: option.splits)
        moreover from this False esc plain cs "2.prems" have "length r < length es"
          using "2.IH"(3) by (force split: option.splits)
        ultimately show ?thesis by (simp add: cs)
      next
        case True
        with esc plain cs "2.prems" obtain n rest where h: "hex4 es = Some (n, rest)"
          by (auto split: option.splits)
        note hl = hex4_shorter [OF h]
        show ?thesis
        proof (cases "if 0xD800 \<le> n \<and> n \<le> 0xDBFF then low_surrogate rest else None")
          case None
          with esc True plain cs h "2.prems" obtain t' where j: "json_string rest = Some (t', r)"
            by (auto split: option.splits)
          have "length r < length rest"
            using "2.IH"(1) [OF _ _ cs True h refl None j] esc plain by simp
          with hl show ?thesis by (simp add: cs)
        next
          case (Some p)
          obtain m rest' where p: "p = (m, rest')" by (cases p)
          with Some esc True plain cs h "2.prems" obtain t' where j: "json_string rest' = Some (t', r)"
            by (auto split: option.splits)
          have "length r < length rest'"
            using "2.IH"(2) [OF _ _ cs True h refl Some p [symmetric] j] esc plain by simp
          moreover have "length rest' < length rest"
            using Some p by (auto dest: low_surrogate_shorter split: if_splits)
          ultimately show ?thesis using hl by (simp add: cs)
        qed
      qed
    qed
  qed
qed

lemma digits_le: "digits s = (ds, r) \<Longrightarrow> length ds + length r = length s"
  by (auto simp: digits_def simp flip: length_append)

lemma json_exponent_le: "json_exponent s = Some (e, r) \<Longrightarrow> length r \<le> length s"
  by (auto simp: json_exponent_def Let_def dest!: digits_le split: list.splits if_splits prod.splits)

lemma json_literal_shorter: "json_literal s = Some (v, r) \<Longrightarrow> length r < length s"
  by (cases s) (auto simp: json_literal_def split: if_splits)

lemma json_number_shorter:
  assumes "json_number s = Some (v, r)"
  shows "length r < length s"
proof -
  obtain sg r0 where n0: "num_sign s = (sg, r0)" by fastforce
  obtain ds r1 where n1: "num_int r0 = (ds, r1)" by fastforce
  obtain fs r2 where n2: "num_frac r1 = (fs, r2)" by fastforce
  obtain ex r3 where n3: "num_exp r2 = (ex, r3)" by fastforce
  have "ds \<noteq> []" "r = r3"
    using assms n0 n1 n2 n3 by (auto simp: json_number_def split: if_splits)
  moreover have "length r0 \<le> length s" using n0 by (auto simp: num_sign_def split: list.splits if_splits)
  moreover have "length ds + length r1 = length r0"
    using n1 by (auto simp: num_int_def dest: digits_le split: list.splits if_splits)
  moreover have "length r2 \<le> length r1"
    using n2 by (auto simp: num_frac_def dest: digits_le split: list.splits if_splits)
  moreover have "length r3 \<le> length r2"
    using n3 by (auto simp: num_exp_def dest: json_exponent_le split: option.splits)
  ultimately show ?thesis by (cases ds) auto
qed

lemma json_shorter:
  "json_value u n s = Some (v, r) \<Longrightarrow> length r < length s"
  "json_items u n acc s = Some (xs, r) \<Longrightarrow> length r < length s"
  "json_members u n kvs s = Some (kvs', r) \<Longrightarrow> length r < length s"
proof (induction u n s and u n acc s and u n kvs s arbitrary: v r and xs r and kvs' r
    rule: json_value_json_items_json_members.induct)
  case (2 u n s)
  then obtain c cs where s: "s = c # cs" by (cases s) auto
  consider (str) "c = CHR 0x22" | (obj) "c = CHR ''{''" | (arr) "c = CHR ''[''"
    | (atom) "c \<noteq> CHR 0x22" "c \<noteq> CHR ''{''" "c \<noteq> CHR ''[''" by blast
  then show ?case
  proof cases
    case str
    with 2 s show ?thesis by (auto dest: json_string_shorter)
  next
    case obj
    with 2 s show ?thesis by (fastforce dest: skip_ws_Cons split: list.splits if_splits)
  next
    case arr
    with 2 s show ?thesis by (fastforce dest: skip_ws_Cons split: list.splits if_splits)
  next
    case atom
    with "2.prems" s show ?thesis
      by (auto dest: json_literal_shorter json_number_shorter split: option.splits)
  qed
next
  case (4 u n acc s)
  then obtain x r1 where x: "json_value u n s = Some (x, r1)" "length r1 < length s"
    by (auto split: option.splits)
  with "4.prems" obtain c cs where c: "skip_ws r1 = c # cs" by (auto split: list.splits)
  note l = skip_ws_Cons [OF c] skip_ws_le [of cs]
  show ?case
  proof (cases "c = CHR '']''")
    case True
    with "4.prems" x c l show ?thesis by simp
  next
    case False
    with "4.prems" x c have "json_items u n (acc @ [x]) (skip_ws cs) = Some (xs, r)" "c = CHR '',''"
      by (auto split: if_splits)
    with "4.IH"(2) [OF x(1) refl c False] l x(2) show ?thesis by simp
  qed
next
  case (6 u n acc s)
  then obtain qs where s: "s = CHR 0x22 # qs" by (auto split: list.splits if_splits)
  with "6.prems" obtain key r1 where k: "json_string qs = Some (key, r1)"
    by (auto split: option.splits)
  with "6.prems" s have new: "\<not> repeated u acc key" by (auto split: if_splits)
  with "6.prems" s k obtain cs where c: "skip_ws r1 = CHR '':'' # cs"
    by (auto split: list.splits if_splits)
  with "6.prems" s k new obtain x r2 where x: "json_value u n (skip_ws cs) = Some (x, r2)"
    by (auto split: option.splits)
  have x2: "length r2 < length (skip_ws cs)"
    using "6.IH"(1) [OF s _ k refl new c _ x] by simp
  from "6.prems" s k new c x obtain d ds where d: "skip_ws r2 = d # ds" by (auto split: list.splits)
  note l = skip_ws_Cons [OF c] skip_ws_le [of cs] json_string_shorter [OF k] x2 skip_ws_Cons [OF d]
    skip_ws_le [of ds]
  show ?case
  proof (cases "d = CHR ''}''")
    case True
    with "6.prems" s k new c x d l show ?thesis by simp
  next
    case False
    with "6.prems" s k new c x d have "json_members u n (dict_set key x acc) (skip_ws ds) = Some (kvs', r)"
        "d = CHR '',''"
      by (auto split: if_splits)
    with "6.IH"(2) [OF s _ k refl new c _ x refl d False] l s show ?thesis by simp
  qed
qed simp_all

lemma json_fuel:
  "2 * length s + 1 \<le> n \<Longrightarrow> n \<le> m \<Longrightarrow> json_value u m s = json_value u n s"
  "2 * length s + 2 \<le> n \<Longrightarrow> n \<le> m \<Longrightarrow> json_items u m acc s = json_items u n acc s"
  "2 * length s + 1 \<le> n \<Longrightarrow> n \<le> m \<Longrightarrow> json_members u m kvs s = json_members u n kvs s"
proof (induction u n s and u n acc s and u n kvs s arbitrary: m and m and m
    rule: json_value_json_items_json_members.induct)
  case (2 u n s)
  from "2.prems" obtain m' where m: "m = Suc m'" "n \<le> m'" by (cases m) auto
  show ?case
  proof (cases s)
    case Nil
    then show ?thesis by (simp add: m)
  next
    case (Cons c cs)
    have "json_members u m' [] (d # ds) = json_members u n [] (d # ds)"
      if "c = CHR ''{''" "skip_ws cs = d # ds" "d \<noteq> CHR ''}''" for d ds
      by (rule "2.IH"(1) [OF Cons _ that]) (use that "2.prems" m Cons skip_ws_le [of cs] in \<open>simp_all\<close>)
    note members = this
    have items: "json_items u m' [] (d # ds) = json_items u n [] (d # ds)"
      if "c = CHR ''[''" "skip_ws cs = d # ds" "d \<noteq> CHR '']''" for d ds
      by (rule "2.IH"(2) [OF Cons _ _ that]) (use that "2.prems" m Cons skip_ws_le [of cs] in \<open>simp_all\<close>)
    consider "c = CHR ''{''" | "c = CHR ''[''" | "c \<noteq> CHR ''{''" "c \<noteq> CHR ''[''" by blast
    then show ?thesis
    proof cases
      case 1
      with members show ?thesis by (cases "skip_ws cs") (simp_all add: m Cons)
    next
      case 2
      with items show ?thesis by (cases "skip_ws cs") (simp_all add: m Cons)
    next
      case 3
      then show ?thesis by (simp add: m Cons)
    qed
  qed
next
  case (4 u n acc s)
  from "4.prems" obtain m' where m: "m = Suc m'" "n \<le> m'" by (cases m) auto
  have v: "json_value u m' s = json_value u n s"
    by (rule "4.IH"(1)) (use "4.prems" m in \<open>simp_all\<close>)
  show ?case
  proof (cases "json_value u n s")
    case None
    with v show ?thesis by (simp add: m)
  next
    case (Some p)
    obtain x r1 where p: "p = (x, r1)" by (cases p)
    have l1: "length r1 < length s" using json_shorter(1) Some p by blast
    have "json_items u m' (acc @ [x]) (skip_ws cs) = json_items u n (acc @ [x]) (skip_ws cs)"
      if "skip_ws r1 = c # cs" "c \<noteq> CHR '']''" "c = CHR '',''" for c cs
      by (rule "4.IH"(2) [OF Some p [symmetric] that])
        (use l1 "4.prems" m skip_ws_Cons [OF that(1)] skip_ws_le [of cs] in \<open>simp_all\<close>)
    with v Some p show ?thesis by (auto simp: m split: list.split)
  qed
next
  case (6 u n acc s)
  from "6.prems" obtain m' where m: "m = Suc m'" "n \<le> m'" by (cases m) auto
  show ?case
  proof (cases "\<exists>qs key r1 cs. s = CHR 0x22 # qs \<and> json_string qs = Some (key, r1) \<and>
      \<not> repeated u acc key \<and> skip_ws r1 = CHR '':'' # cs")
    case False
    then show ?thesis by (auto simp: m split: list.split option.split)
  next
    case True
    then obtain qs key r1 cs where s: "s = CHR 0x22 # qs" and k: "json_string qs = Some (key, r1)"
      and new: "\<not> repeated u acc key" and c: "skip_ws r1 = CHR '':'' # cs" by blast
    note l = skip_ws_Cons [OF c] skip_ws_le [of cs] json_string_shorter [OF k]
    have v: "json_value u m' (skip_ws cs) = json_value u n (skip_ws cs)"
      by (rule "6.IH"(1) [OF s _ k refl new c]) (use "6.prems" m s l in \<open>simp_all\<close>)
    show ?thesis
    proof (cases "json_value u n (skip_ws cs)")
      case None
      with v s k new c show ?thesis by (simp add: m)
    next
      case (Some p)
      obtain x r2 where p: "p = (x, r2)" by (cases p)
      have l2: "length r2 < length (skip_ws cs)" using json_shorter(1) Some p by blast
      have "json_members u m' (dict_set key x acc) (skip_ws ds) = json_members u n (dict_set key x acc) (skip_ws ds)"
        if d: "skip_ws r2 = d # ds" "d \<noteq> CHR ''}''" "d = CHR '',''" for d ds
        by (rule "6.IH"(2) [OF s _ k refl new c _ Some p [symmetric] d])
          (use "6.prems" m s l l2 skip_ws_Cons [OF d(1)] skip_ws_le [of ds] in \<open>simp_all\<close>)
      with v s k new c Some p show ?thesis by (auto simp: m split: list.split)
    qed
  qed
qed simp_all

text \<open>More fuel never changes what \<^verbatim>\<open>json.loads\<close> returns.\<close>

lemma json_loads_fuel:
  assumes "2 * length s + 2 \<le> n"
  shows "json_loads_by u s = (case json_value u n (skip_ws s) of
     None \<Rightarrow> None | Some (v, r) \<Rightarrow> if skip_ws r = [] then Some v else None)"
proof -
  have "json_value u n (skip_ws s) = json_value u (2 * length s + 2) (skip_ws s)"
    using assms skip_ws_le [of s] by (intro json_fuel(1)) simp_all
  then show ?thesis by (simp add: json_loads_by_def)
qed

lemma json_loads_examples:
  "json_loads (''{'' @ [CHR 0x22] @ ''cmd'' @ [CHR 0x22] @ '': [1, -2.5e1, true, {}]}'') =
     Some (PDict [(''cmd'', PList [PInt 1, PFloat (-25), PBool True, PDict []])])"
  "json_loads ''[1, 2'' = None" "json_loads '' 01'' = None"
  by code_simp+

end
