(* ===== verification/Stream.thy ===== *)
theory Stream
  imports Json Schema
begin

text \<open>
  adapters/stream.py: the parser that turns the streamed fragments of a tool call's
  arguments into a write or into the arguments of a read, as early as it can; and the table
  of tools in mining/normalize.py it asks for the tool's policy.
\<close>

section \<open>Tools\<close>

definition READ_TOOLS :: "string set" where
  "READ_TOOLS = {''Read'', ''WebFetch'', ''view_image'', ''read_mcp_resource'', ''NotebookRead''}"

definition GREP_TOOLS :: "string set" where
  "GREP_TOOLS = {''Grep'', ''Glob'', ''WebSearch'', ''ToolSearch''}"

definition EDIT_TOOLS :: "string set" where
  "EDIT_TOOLS = {''Edit'', ''apply_patch'', ''NotebookEdit'', ''Write''}"

definition SUBLLM_TOOLS :: "string set" where
  "SUBLLM_TOOLS = {''Agent'', ''Task'', ''TaskCreate'', ''TaskOutput'', ''Skill''}"

text \<open>\<^verbatim>\<open>classify\<close> of a tool without a command.\<close>

definition classify_tool :: "string \<Rightarrow> string \<times> string" where
  "classify_tool name =
     (if name \<in> READ_TOOLS then (''read'', ''free'')
      else if name \<in> GREP_TOOLS then (''grep'', ''free'')
      else if name \<in> EDIT_TOOLS then (''edit'', ''fork'')
      else if name \<in> SUBLLM_TOOLS then (''sub-LLM'', ''free'')
      else (''unknown'', ''never''))"

section \<open>The parser\<close>

record streamed_write =
  sw_id :: string
  sw_tool :: string
  sw_verb :: string
  sw_args :: pyval

record stream_parser =
  sp_buffers :: "(string, string) dict"
  sp_get_buffers :: "(string, string) dict"

definition init_stream :: stream_parser where
  "init_stream = \<lparr>sp_buffers = [], sp_get_buffers = []\<rparr>"

definition feed ::
  "string \<Rightarrow> string \<Rightarrow> string \<Rightarrow> stream_parser \<Rightarrow> streamed_write option \<times> stream_parser" where
  "feed call_id tool delta p =
     (let verb = snd (classify_tool tool) in
      if verb \<notin> STREAM_ONLY then (None, p)
      else let buf = dict_get_default (sp_buffers p) call_id [] @ delta;
               p1 = p\<lparr>sp_buffers := dict_set call_id buf (sp_buffers p)\<rparr>
           in case json_loads buf of
                None \<Rightarrow> (None, p1)
              | Some args \<Rightarrow>
                  (Some \<lparr>sw_id = call_id, sw_tool = tool, sw_verb = verb, sw_args = args\<rparr>,
                   p1\<lparr>sp_buffers := dict_pop call_id (sp_buffers p1)\<rparr>))"

text \<open>
  The pattern of \<^verbatim>\<open>_CMD_RE\<close>: the key \<^verbatim>\<open>"cmd"\<close>, a colon, and a complete string literal.
  \<open>str_literal\<close> is the literal's tail after its opening quote, up to the closing one; its
  alternatives exclude one another, so the match is unique.
\<close>

definition re_space :: "char \<Rightarrow> bool" where
  "re_space c \<longleftrightarrow> code c \<in> {9, 10, 11, 12, 13, 28, 29, 30, 31, 32}"

fun str_literal :: "string \<Rightarrow> string option" where
  "str_literal [] = None"
| "str_literal (c # cs) =
     (if c = CHR 0x22 then Some [c]
      else if c = CHR 0x5C then
        (case cs of [] \<Rightarrow> None
         | d # ds \<Rightarrow> if d = CHR 0x0A then None else map_option (\<lambda>t. c # d # t) (str_literal ds))
      else map_option ((#) c) (str_literal cs))"

definition cmd_here :: "string \<Rightarrow> string option" where
  "cmd_here s =
     (let key = [CHR 0x22] @ ''cmd'' @ [CHR 0x22] in
      if take 5 s \<noteq> key then None
      else case dropWhile re_space (drop 5 s) of
        [] \<Rightarrow> None
      | c # cs \<Rightarrow>
          if c \<noteq> CHR '':'' then None
          else (case dropWhile re_space cs of
                  [] \<Rightarrow> None
                | q # qs \<Rightarrow> if q = CHR 0x22 then map_option ((#) q) (str_literal qs) else None))"

text \<open>\<^verbatim>\<open>search\<close>: the leftmost match, its group.\<close>

fun cmd_search :: "string \<Rightarrow> string option" where
  "cmd_search [] = None"
| "cmd_search (c # cs) = (case cmd_here (c # cs) of Some g \<Rightarrow> Some g | None \<Rightarrow> cmd_search cs)"

definition feed_get ::
  "string \<Rightarrow> string \<Rightarrow> stream_parser \<Rightarrow> (py_error + (pyval option \<times> bool)) \<times> stream_parser" where
  "feed_get call_id delta p =
     (let buf = dict_get_default (sp_get_buffers p) call_id [] @ delta;
          p1 = p\<lparr>sp_get_buffers := dict_set call_id buf (sp_get_buffers p)\<rparr>
      in case json_loads buf of
           Some args \<Rightarrow> (Inr (Some args, True), p1\<lparr>sp_get_buffers := dict_pop call_id (sp_get_buffers p1)\<rparr>)
         | None \<Rightarrow>
             (case cmd_search buf of
                None \<Rightarrow> (Inr (None, False), p1)
              | Some g \<Rightarrow>
                  (case json_loads g of
                     None \<Rightarrow> (Inl (ValueError ''JSONDecodeError''), p1)
                   | Some v \<Rightarrow> (Inr (Some (PDict [(''cmd'', v)]), False), p1))))"

section \<open>Properties\<close>

fun feed_all :: "string \<Rightarrow> string \<Rightarrow> string list \<Rightarrow> stream_parser \<Rightarrow> streamed_write option list \<times> stream_parser" where
  "feed_all call_id tool [] p = ([], p)"
| "feed_all call_id tool (d # ds) p =
     (let (r, p1) = feed call_id tool d p; (rs, p2) = feed_all call_id tool ds p1 in (r # rs, p2))"

lemma feed_buffer:
  assumes "snd (classify_tool tool) \<in> STREAM_ONLY"
    and "json_loads (dict_get_default (sp_buffers p) call_id [] @ d) = None"
  shows "fst (feed call_id tool d p) = None \<and>
    dict_get_default (sp_buffers (snd (feed call_id tool d p))) call_id [] =
      dict_get_default (sp_buffers p) call_id [] @ d"
  using assms by (simp add: feed_def Let_def)

text \<open>
  How the text is cut does not matter. A write's arguments arrive in any number of
  fragments; as long as no fragment but the last completes a JSON text, nothing is reported
  before the last, the last reports exactly the write whose arguments are the whole text's,
  and the call's buffer is empty again.
\<close>

theorem feed_chunks:
  assumes "snd (classify_tool tool) \<in> STREAM_ONLY" and "dict_get (sp_buffers p) call_id = None"
    and "\<forall>n < length ds. json_loads (concat (take n ds)) = None"
    and "json_loads (concat ds) = Some args" "ds \<noteq> []"
  shows "\<exists>p'. feed_all call_id tool ds p =
      (replicate (length ds - 1) None @
         [Some \<lparr>sw_id = call_id, sw_tool = tool, sw_verb = snd (classify_tool tool), sw_args = args\<rparr>], p') \<and>
    dict_get (sp_buffers p') call_id = None"
proof -
  have gen: "\<exists>p'. feed_all call_id tool ds p =
      (replicate (length ds - 1) None @
         [Some \<lparr>sw_id = call_id, sw_tool = tool, sw_verb = snd (classify_tool tool), sw_args = args\<rparr>], p') \<and>
    dict_get (sp_buffers p') call_id = None"
    if "dict_get_default (sp_buffers p) call_id [] = pre"
      "\<forall>n < length ds. 0 < n \<longrightarrow> json_loads (pre @ concat (take n ds)) = None"
      "json_loads (pre @ concat ds) = Some args" "ds \<noteq> []"
    for p pre ds
    using that
  proof (induction ds arbitrary: p pre)
    case Nil
    then show ?case by simp
  next
    case (Cons d ds)
    show ?case
    proof (cases "ds = []")
      case True
      with Cons.prems assms(1) show ?thesis by (simp add: feed_def Let_def delete_conv)
    next
      case False
      have j: "json_loads (pre @ d) = None" using Cons.prems(2) False by (auto dest!: spec [of _ 1])
      obtain p1 where p1: "feed call_id tool d p = (None, p1)"
          "dict_get_default (sp_buffers p1) call_id [] = pre @ d"
        using feed_buffer [OF assms(1), of p call_id d] j Cons.prems(1) by (cases "feed call_id tool d p") auto
      have "json_loads ((pre @ d) @ concat (take n ds)) = None" if "n < length ds" "0 < n" for n
        using Cons.prems(2) [rule_format, of "Suc n"] that by simp
      moreover have "json_loads ((pre @ d) @ concat ds) = Some args" using Cons.prems(3) by simp
      ultimately obtain p' where p': "feed_all call_id tool ds p1 =
          (replicate (length ds - 1) None @
            [Some \<lparr>sw_id = call_id, sw_tool = tool, sw_verb = snd (classify_tool tool), sw_args = args\<rparr>], p')"
          "dict_get (sp_buffers p') call_id = None"
        using Cons.IH [OF p1(2) _ _ False] by auto
      have "replicate (length ds) (None :: streamed_write option) = None # replicate (length ds - 1) None"
        using False by (cases ds) simp_all
      with p' p1(1) show ?thesis by simp
    qed
  qed
  have "dict_get_default (sp_buffers p) call_id [] = []" using assms(2) by (simp add: dict_get_default_def)
  from gen [OF this] assms(3-5) show ?thesis by simp
qed

definition demo_chunks :: "string list" where
  "demo_chunks = [''{'' @ [CHR 0x22] @ ''pa'', ''th'' @ [CHR 0x22] @ '': 1'', ''}'']"

theorem feed_chunks_witness:
  "fst (feed_all ''c1'' ''Write'' demo_chunks init_stream) =
     [None, None, Some \<lparr>sw_id = ''c1'', sw_tool = ''Write'', sw_verb = ''fork'', sw_args = PDict [(''path'', PInt 1)]\<rparr>]"
proof -
  have c: "snd (classify_tool ''Write'') = ''fork''" by code_simp
  have "\<forall>n < length demo_chunks. json_loads (concat (take n demo_chunks)) = None" by code_simp
  moreover have "json_loads (concat demo_chunks) = Some (PDict [(''path'', PInt 1)])" by code_simp
  moreover have "demo_chunks \<noteq> []" "length demo_chunks = 3" by (simp_all add: demo_chunks_def)
  ultimately show ?thesis
    using feed_chunks [of "''Write''" init_stream "''c1''" demo_chunks "PDict [(''path'', PInt 1)]"]
    by (auto simp: c STREAM_ONLY_def init_stream_def numeral_2_eq_2)
qed

end
