(* ===== verification/Filesystem.thy ===== *)
theory Filesystem
  imports Py_Value
begin

text \<open>
  The part of the POSIX filesystem and of Python's \<^verbatim>\<open>os\<close> and \<^verbatim>\<open>pathlib\<close> that sfx/fork.py and
  sfx/daemon.py use: inodes, directories, symbolic and hard links, and the
  descriptor-relative calls. A directory file descriptor is the directory's inode. Nothing
  here models a file of the program; permissions, quotas and device errors are left out.
\<close>

section \<open>Inodes\<close>

type_synonym inum = nat

text \<open>
  File contents are bytes. A Python str is represented by its UTF-8 bytes, so encoding a
  text for a file, or decoding one, does not change its representation.
\<close>

type_synonym bytes = string

datatype inode =
    RegFile (reg_bytes: bytes) (reg_mode: nat)
  | Directory (dir_entries: "(string, inum) dict")
  | SymLink string
  | Special

record fs =
  inodes :: "(inum, inode) dict"
  next_ino :: inum

datatype errno = ENOENT | EEXIST | ENOTDIR | ELOOP | EISDIR

definition inode_at :: "fs \<Rightarrow> inum \<Rightarrow> inode option" where
  "inode_at f i = dict_get (inodes f) i"

definition set_inode :: "inum \<Rightarrow> inode \<Rightarrow> fs \<Rightarrow> fs" where
  "set_inode i n f = f\<lparr>inodes := dict_set i n (inodes f)\<rparr>"

definition is_dir :: "fs \<Rightarrow> inum \<Rightarrow> bool" where
  "is_dir f i = (case inode_at f i of Some (Directory es) \<Rightarrow> True | _ \<Rightarrow> False)"

definition is_reg :: "fs \<Rightarrow> inum \<Rightarrow> bool" where
  "is_reg f i = (case inode_at f i of Some (RegFile b m) \<Rightarrow> True | _ \<Rightarrow> False)"

definition is_link :: "fs \<Rightarrow> inum \<Rightarrow> bool" where
  "is_link f i = (case inode_at f i of Some (SymLink t) \<Rightarrow> True | _ \<Rightarrow> False)"

text \<open>The entries of a directory, none for anything else.\<close>

definition entries :: "fs \<Rightarrow> inum \<Rightarrow> (string, inum) dict" where
  "entries f d = (case inode_at f d of Some (Directory es) \<Rightarrow> es | _ \<Rightarrow> [])"

text \<open>What a name in a directory refers to, without following a link there (\<^verbatim>\<open>lstat\<close>).\<close>

definition lookup :: "fs \<Rightarrow> inum \<Rightarrow> string \<Rightarrow> inum option" where
  "lookup f d name = dict_get (entries f d) name"

text \<open>\<^verbatim>\<open>st_nlink\<close> of a regular file: how many directory entries name the inode.\<close>

definition nlink :: "fs \<Rightarrow> inum \<Rightarrow> nat" where
  "nlink f i = length (filter (\<lambda>j. j = i)
     (concat (map (\<lambda>(d, n). case n of Directory es \<Rightarrow> map snd es | _ \<Rightarrow> []) (inodes f))))"

section \<open>System calls relative to a directory\<close>

text \<open>\<^verbatim>\<open>open\<close> with \<^verbatim>\<open>O_DIRECTORY | O_NOFOLLOW\<close>.\<close>

definition sys_open_dir :: "inum \<Rightarrow> string \<Rightarrow> fs \<Rightarrow> errno + inum" where
  "sys_open_dir d name f =
     (case lookup f d name of
        None \<Rightarrow> Inl ENOENT
      | Some i \<Rightarrow> if is_dir f i then Inr i else if is_link f i then Inl ELOOP else Inl ENOTDIR)"

definition alloc :: "inum \<Rightarrow> string \<Rightarrow> inode \<Rightarrow> fs \<Rightarrow> fs" where
  "alloc d name n f =
     (let i = next_ino f;
          f1 = set_inode i n f
      in set_inode d (Directory (dict_set name i (entries f d))) f1\<lparr>next_ino := i + 1\<rparr>)"

definition sys_mkdir :: "inum \<Rightarrow> string \<Rightarrow> fs \<Rightarrow> errno + fs" where
  "sys_mkdir d name f =
     (if \<not> is_dir f d then Inl ENOTDIR
      else if lookup f d name \<noteq> None then Inl EEXIST
      else Inr (alloc d name (Directory []) f))"

text \<open>\<^verbatim>\<open>open\<close> with \<^verbatim>\<open>O_WRONLY | O_CREAT | O_EXCL | O_NOFOLLOW\<close>; the descriptor is the new inode.\<close>

definition sys_create :: "inum \<Rightarrow> string \<Rightarrow> nat \<Rightarrow> fs \<Rightarrow> errno + (inum \<times> fs)" where
  "sys_create d name mode f =
     (if \<not> is_dir f d then Inl ENOTDIR
      else if lookup f d name \<noteq> None then Inl EEXIST
      else Inr (next_ino f, alloc d name (RegFile [] mode) f))"

definition sys_unlink :: "inum \<Rightarrow> string \<Rightarrow> fs \<Rightarrow> errno + fs" where
  "sys_unlink d name f =
     (case lookup f d name of
        None \<Rightarrow> Inl ENOENT
      | Some i \<Rightarrow> if is_dir f i then Inl EISDIR
                  else Inr (set_inode d (Directory (dict_pop name (entries f d))) f))"

text \<open>\<^verbatim>\<open>rename\<close> of a file within one directory; it replaces a file there atomically.\<close>

definition sys_replace :: "inum \<Rightarrow> string \<Rightarrow> string \<Rightarrow> fs \<Rightarrow> errno + fs" where
  "sys_replace d src dst f =
     (case lookup f d src of
        None \<Rightarrow> Inl ENOENT
      | Some i \<Rightarrow>
          if (case lookup f d dst of None \<Rightarrow> False | Some j \<Rightarrow> is_dir f j) then Inl EISDIR
          else if lookup f d dst = Some i then Inr f
          else Inr (set_inode d (Directory (dict_set dst i (dict_pop src (entries f d)))) f))"

text \<open>Writing through a descriptor, and \<^verbatim>\<open>fchmod\<close>.\<close>

definition sys_write :: "inum \<Rightarrow> bytes \<Rightarrow> fs \<Rightarrow> fs" where
  "sys_write i b f = (case inode_at f i of Some (RegFile b0 m) \<Rightarrow> set_inode i (RegFile (b0 @ b) m) f | _ \<Rightarrow> f)"

definition sys_fchmod :: "inum \<Rightarrow> nat \<Rightarrow> fs \<Rightarrow> fs" where
  "sys_fchmod i m f = (case inode_at f i of Some (RegFile b m0) \<Rightarrow> set_inode i (RegFile b m) f | _ \<Rightarrow> f)"

text \<open>\<^verbatim>\<open>stat.S_IMODE\<close> of a regular file.\<close>

definition mode_of :: "fs \<Rightarrow> inum \<Rightarrow> nat" where
  "mode_of f i = (case inode_at f i of Some (RegFile b m) \<Rightarrow> m | _ \<Rightarrow> 0)"

section \<open>Paths\<close>

fun split_on :: "char \<Rightarrow> string \<Rightarrow> string list" where
  "split_on c [] = [[]]"
| "split_on c (x # xs) =
     (if x = c then [] # split_on c xs
      else case split_on c xs of [] \<Rightarrow> [[x]] | p # ps \<Rightarrow> (x # p) # ps)"

text \<open>\<^verbatim>\<open>PurePosixPath(path).parts\<close> of a relative path: empty and \<^verbatim>\<open>.\<close> components vanish.\<close>

definition posix_absolute :: "string \<Rightarrow> bool" where
  "posix_absolute p \<longleftrightarrow> p \<noteq> [] \<and> hd p = CHR ''/''"

definition posix_parts :: "string \<Rightarrow> string list" where
  "posix_parts p = filter (\<lambda>c. c \<noteq> [] \<and> c \<noteq> ''.'') (split_on (CHR ''/'') p)"

section \<open>Frames\<close>

lemma inode_at_set [simp]: "inode_at (set_inode i n f) j = (if j = i then Some n else inode_at f j)"
  by (simp add: inode_at_def set_inode_def dict_get_set)

lemma inode_at_next [simp]: "inode_at (f\<lparr>next_ino := n\<rparr>) j = inode_at f j"
  by (simp add: inode_at_def)

lemma next_set_inode [simp]: "next_ino (set_inode i n f) = next_ino f"
  by (simp add: set_inode_def)

lemma inode_at_alloc:
  "inode_at (alloc d name n f) j =
     (if j = d then Some (Directory (dict_set name (next_ino f) (entries f d)))
      else if j = next_ino f then Some n else inode_at f j)"
  by (simp add: alloc_def Let_def)

lemma next_alloc [simp]: "next_ino (alloc d name n f) = next_ino f + 1"
  by (simp add: alloc_def Let_def)

text \<open>Well-formed: inode numbers in use lie below the next one, and every entry refers to one.\<close>

definition fs_ok :: "fs \<Rightarrow> bool" where
  "fs_ok f \<longleftrightarrow> (\<forall>i. inode_at f i \<noteq> None \<longrightarrow> i < next_ino f) \<and>
     (\<forall>d name i. lookup f d name = Some i \<longrightarrow> inode_at f i \<noteq> None)"

lemma lookup_cong: "inode_at f' d = inode_at f d \<Longrightarrow> lookup f' d name = lookup f d name"
  by (simp add: lookup_def entries_def)

lemma lookup_alloc:
  assumes "is_dir f d" and "fs_ok f" and "n = RegFile b m \<or> n = Directory []"
  shows "lookup (alloc d name n f) d' name' =
    (if d' = d \<and> name' = name then Some (next_ino f) else lookup f d' name')"
proof -
  have "d < next_ino f" using assms(1,2) by (auto simp: is_dir_def fs_ok_def split: option.splits)
  moreover have "inode_at f (next_ino f) = None" using assms(2) by (auto simp: fs_ok_def)
  ultimately show ?thesis
    using assms(3) by (auto simp: lookup_def entries_def inode_at_alloc dict_get_set)
qed

lemma fs_ok_alloc:
  assumes "is_dir f d" and "fs_ok f" and "n = RegFile b m \<or> n = Directory []"
  shows "fs_ok (alloc d name n f)"
proof -
  have *: "inode_at (alloc d name n f) i \<noteq> None \<longleftrightarrow> i = next_ino f \<or> inode_at f i \<noteq> None" for i
    using assms(1) by (auto simp: inode_at_alloc is_dir_def split: option.splits)
  show ?thesis
    unfolding fs_ok_def * lookup_alloc [OF assms]
    using assms(2) by (auto simp: fs_ok_def less_Suc_eq split: if_splits)
qed

end
