(* ===== verification/Fork.thy ===== *)
theory Fork
  imports Filesystem
begin

text \<open>
  sfx/fork.py: checking where a streamed write may go, writing it into a private fork, and
  the life cycle of a fork. Also \<^verbatim>\<open>_write_is_committed\<close> of sfx/daemon.py, which reads the
  same file back without following links. The root of a tree is its directory's inode; a
  path that is relative to it is the list of its components.
\<close>

section \<open>Write paths\<close>

text \<open>
  The loop of \<^verbatim>\<open>validate_write_path\<close> over an existing root. Below a missing component
  nothing exists, so the remaining turns of the loop only see \<^verbatim>\<open>FileNotFoundError\<close>.
\<close>

fun check_components :: "fs \<Rightarrow> inum \<Rightarrow> string list \<Rightarrow> py_error + unit" where
  "check_components f d [] = Inr ()"
| "check_components f d (p # ps) =
     (if \<not> is_dir f d then Inl (OSError ''not a directory'')
      else case lookup f d p of
        None \<Rightarrow> Inr ()
      | Some i \<Rightarrow>
          if is_link f i then Inl (WritePathError ''symlink in streamed write path'')
          else if ps \<noteq> [] \<and> \<not> is_dir f i then Inl (WritePathError ''non-directory write ancestor'')
          else if ps = [] \<and> (\<not> is_reg f i \<or> nlink f i > 1)
          then Inl (WritePathError ''non-private regular write target'')
          else check_components f i ps)"

definition validate_write_path :: "fs \<Rightarrow> inum option \<Rightarrow> pyval \<Rightarrow> py_error + string list" where
  "validate_write_path f base path =
     (case path of
        PStr p \<Rightarrow>
          if CHR 0x00 \<in> set p then Inl (WritePathError ''invalid streamed write path'')
          else if posix_absolute p \<or> posix_parts p = [] \<or> ''..'' \<in> set (posix_parts p)
          then Inl (WritePathError ''streamed write path escapes fork'')
          else (case base of
                  None \<Rightarrow> Inr (posix_parts p)
                | Some r \<Rightarrow> (case check_components f r (posix_parts p) of
                               Inl e \<Rightarrow> Inl e | Inr u \<Rightarrow> Inr (posix_parts p)))
      | _ \<Rightarrow> Inl (WritePathError ''invalid streamed write path''))"

section \<open>Writing into a fork\<close>

text \<open>Making and opening the parent directories, one descriptor at a time.\<close>

fun open_parents :: "inum \<Rightarrow> string list \<Rightarrow> fs \<Rightarrow> (errno + inum) \<times> fs" where
  "open_parents d [] f = (Inr d, f)"
| "open_parents d (p # ps) f =
     (case (case sys_mkdir d p f of
              Inl e \<Rightarrow> if e = EEXIST then Inr f else Inl e
            | Inr f1 \<Rightarrow> Inr f1) of
        Inl e \<Rightarrow> (Inl e, f)
      | Inr f1 \<Rightarrow> (case sys_open_dir d p f1 of
                     Inl e \<Rightarrow> (Inl e, f1)
                   | Inr i \<Rightarrow> open_parents i ps f1))"

text \<open>The \<^verbatim>\<open>finally\<close> clause: the temporary name is removed if it is still there.\<close>

definition drop_temporary :: "inum \<Rightarrow> string \<Rightarrow> py_error + unit \<Rightarrow> fs \<Rightarrow> (py_error + unit) \<times> fs" where
  "drop_temporary d tmp r f =
     (case sys_unlink d tmp f of
        Inl e \<Rightarrow> if e = ENOENT then (r, f) else (Inl (OSError ''unlink''), f)
      | Inr f1 \<Rightarrow> (r, f1))"

text \<open>
  \<open>tmp\<close> is the temporary name with its random suffix, \<open>mode\<close> the mode the process gives a
  new file (\<^verbatim>\<open>0o666\<close> less the umask).
\<close>

definition write_leaf ::
  "string \<Rightarrow> nat \<Rightarrow> inum \<Rightarrow> string \<Rightarrow> pyval \<Rightarrow> fs \<Rightarrow> (py_error + unit) \<times> fs" where
  "write_leaf tmp mode d leaf contents f =
     (let info = lookup f d leaf in
      if (case info of None \<Rightarrow> False | Some i \<Rightarrow> \<not> is_reg f i)
      then (Inl (WritePathError ''non-regular streamed write target''), f)
      else case sys_create d tmp mode f of
        Inl e \<Rightarrow> drop_temporary d tmp (Inl (WritePathError ''cannot safely write'')) f
      | Inr (t, f1) \<Rightarrow>
          let f2 = (case info of None \<Rightarrow> f1 | Some i \<Rightarrow> sys_fchmod t (mode_of f i) f1)
          in case contents of
               PStr body \<Rightarrow>
                 let f3 = sys_write t body f2
                 in (case sys_replace d tmp leaf f3 of
                       Inl e \<Rightarrow> drop_temporary d tmp (Inl (WritePathError ''cannot safely write'')) f3
                     | Inr f4 \<Rightarrow> (Inr (), f4))
             | _ \<Rightarrow> drop_temporary d tmp (Inl TypeError) f2)"

definition write_text_in_fork ::
  "string \<Rightarrow> nat \<Rightarrow> inum \<Rightarrow> pyval \<Rightarrow> pyval \<Rightarrow> fs \<Rightarrow> (py_error + unit) \<times> fs" where
  "write_text_in_fork tmp mode base path contents f =
     (case validate_write_path f None path of
        Inl e \<Rightarrow> (Inl e, f)
      | Inr parts \<Rightarrow>
          if \<not> is_dir f base then (Inl (WritePathError ''cannot safely write''), f)
          else case open_parents base (butlast parts) f of
                 (Inl e, f1) \<Rightarrow> (Inl (WritePathError ''cannot safely write''), f1)
               | (Inr d, f1) \<Rightarrow> write_leaf tmp mode d (last parts) contents f1)"

section \<open>Reading a write back\<close>

fun open_existing :: "fs \<Rightarrow> inum \<Rightarrow> string list \<Rightarrow> errno + inum" where
  "open_existing f d [] = Inr d"
| "open_existing f d (p # ps) =
     (case sys_open_dir d p f of Inl e \<Rightarrow> Inl e | Inr i \<Rightarrow> open_existing f i ps)"

text \<open>
  \<^verbatim>\<open>_write_is_committed\<close>. A missing argument and one that is not a string raise errors
  that its \<^verbatim>\<open>except\<close> clause does not name. Opening a directory to read fails only later, at
  the test for a regular file; opening a link fails at once.
\<close>

definition write_is_committed :: "fs \<Rightarrow> inum \<Rightarrow> (string, pyval) dict \<Rightarrow> py_error + bool" where
  "write_is_committed f repo args =
     (case dict_get args ''path'' of
        None \<Rightarrow> Inl (KeyError ''path'')
      | Some path \<Rightarrow>
          (case validate_write_path f None path of
             Inl e \<Rightarrow> Inr False
           | Inr parts \<Rightarrow>
               (case dict_get args ''contents'' of
                  None \<Rightarrow> Inl (KeyError ''contents'')
                | Some (PStr contents) \<Rightarrow>
                    if \<not> is_dir f repo then Inr False
                    else (case open_existing f repo (butlast parts) of
                            Inl e \<Rightarrow> Inr False
                          | Inr d \<Rightarrow>
                              (case lookup f d (last parts) of
                                 None \<Rightarrow> Inr False
                               | Some i \<Rightarrow>
                                   (case inode_at f i of
                                      Some (RegFile b m) \<Rightarrow>
                                        if length b \<noteq> length contents then Inr False
                                        else Inr (b = contents)
                                    | _ \<Rightarrow> Inr False)))
                | _ \<Rightarrow> Inl AttributeError)))"

section \<open>What the paths mean\<close>

text \<open>Following real directories only.\<close>

fun walk :: "fs \<Rightarrow> inum \<Rightarrow> string list \<Rightarrow> inum option" where
  "walk f d [] = Some d"
| "walk f d (p # ps) = (case lookup f d p of None \<Rightarrow> None | Some i \<Rightarrow> walk f i ps)"

inductive below :: "fs \<Rightarrow> inum \<Rightarrow> inum \<Rightarrow> bool" for f r where
  here: "is_dir f r \<Longrightarrow> below f r r"
| down: "below f r d \<Longrightarrow> lookup f d name = Some i \<Longrightarrow> is_dir f i \<Longrightarrow> below f r i"

inductive_cases below_cases: "below f r i"

lemma below_dir: "below f r i \<Longrightarrow> is_dir f i"
  by (induction rule: below.induct) simp_all

lemma below_trans: "below f d i \<Longrightarrow> below f r d \<Longrightarrow> below f r i"
  by (induction rule: below.induct) (auto intro: below.down)

lemma lookup_is_dir: "lookup f d name = Some i \<Longrightarrow> is_dir f d"
  by (auto simp: lookup_def entries_def is_dir_def split: option.splits inode.splits)

lemma walk_append: "walk f d (xs @ ys) = (case walk f d xs of None \<Rightarrow> None | Some e \<Rightarrow> walk f e ys)"
  by (induction xs arbitrary: d) (auto split: option.split)

lemma walk_below: "walk f d ps = Some e \<Longrightarrow> is_dir f e \<Longrightarrow> below f d e"
proof (induction ps arbitrary: d)
  case Nil
  then show ?case by (simp add: below.here)
next
  case (Cons p ps)
  then obtain i where i: "lookup f d p = Some i" "below f i e" by (auto split: option.splits)
  have "is_dir f d" by (rule lookup_is_dir [OF i(1)])
  moreover have "is_dir f i"
    using Cons.prems(2) i(1) Cons.prems(1) lookup_is_dir by (cases ps) (auto split: option.splits)
  ultimately have "below f d i" using i(1) by (blast intro: below.intros)
  with i(2) show ?case by (rule below_trans)
qed

lemma open_existing_walk:
  "is_dir f d \<Longrightarrow> open_existing f d ps = Inr e \<longleftrightarrow> walk f d ps = Some e \<and> is_dir f e"
proof (induction ps arbitrary: d)
  case Nil
  then show ?case by auto
next
  case (Cons p ps)
  show ?case
  proof (cases "lookup f d p")
    case None
    then show ?thesis by (simp add: sys_open_dir_def)
  next
    case (Some i)
    show ?thesis
    proof (cases "is_dir f i")
      case True
      with Cons Some show ?thesis by (simp add: sys_open_dir_def)
    next
      case False
      then have "walk f i ps = Some e \<Longrightarrow> \<not> is_dir f e"
        using lookup_is_dir by (cases ps) (auto split: option.splits)
      with False Some show ?thesis by (auto simp: sys_open_dir_def)
    qed
  qed
qed

section \<open>What a write changes\<close>

text \<open>
  A step that starts at directory \<open>d\<close> is contained when, of the inodes there were, it
  changed none but real directories below \<open>d\<close>, and kept every entry that is a directory.
\<close>

definition contained :: "inum \<Rightarrow> fs \<Rightarrow> fs \<Rightarrow> bool" where
  "contained d f f' \<longleftrightarrow> next_ino f \<le> next_ino f' \<and> fs_ok f' \<and>
     (\<forall>i < next_ino f. \<not> below f d i \<longrightarrow> inode_at f' i = inode_at f i) \<and>
     (\<forall>i < next_ino f. is_dir f' i = is_dir f i) \<and>
     (\<forall>e name i. lookup f e name = Some i \<and> is_dir f i \<longrightarrow> lookup f' e name = Some i)"

lemma fs_okD:
  assumes "fs_ok f"
  shows "is_dir f d \<Longrightarrow> d < next_ino f" "lookup f d name = Some i \<Longrightarrow> i < next_ino f"
    "inode_at f (next_ino f) = None" "\<not> is_dir f (next_ino f)" "lookup f (next_ino f) name = None"
proof -
  show n: "inode_at f (next_ino f) = None" using assms by (auto simp: fs_ok_def)
  then show "\<not> is_dir f (next_ino f)" by (simp add: is_dir_def)
  show "lookup f (next_ino f) name = None" using n by (simp add: lookup_def entries_def)
  show "is_dir f d \<Longrightarrow> d < next_ino f"
    using assms by (auto simp: fs_ok_def is_dir_def split: option.splits)
  show "lookup f d name = Some i \<Longrightarrow> i < next_ino f" using assms unfolding fs_ok_def by blast
qed

lemma contained_refl: "fs_ok f \<Longrightarrow> contained d f f"
  by (simp add: contained_def)

lemma is_dir_alloc:
  assumes "is_dir f d" and "fs_ok f"
  shows "is_dir (alloc d name n f) i =
    (if i = next_ino f then (case n of Directory es \<Rightarrow> True | _ \<Rightarrow> False) else is_dir f i)"
  using assms(1) fs_okD(1) [OF assms(2,1)] by (auto simp: is_dir_def inode_at_alloc)

lemma contained_alloc:
  assumes d: "is_dir f d" and ok: "fs_ok f" and n: "n = RegFile b m \<or> n = Directory []"
    and new: "lookup f d name = None"
  shows "contained d f (alloc d name n f)"
  using fs_ok_alloc [OF d ok n] below.here [OF d] new
  by (auto simp: contained_def inode_at_alloc is_dir_alloc [OF d ok] lookup_alloc [OF d ok n])

text \<open>Below a directory of the new tree lies what was below it, or what is new.\<close>

lemma below_alloc:
  assumes d: "is_dir f d" and ok: "fs_ok f" and n: "n = RegFile b m \<or> n = Directory []"
    and "below (alloc d name n f) r i"
  shows "r < next_ino f \<Longrightarrow> i = next_ino f \<or> below f r i"
    "r = next_ino f \<Longrightarrow> i = next_ino f"
  using assms(4)
proof (induction rule: below.induct)
  case here
  { case 1 then show ?case using here is_dir_alloc [OF d ok] by (auto intro: below.here)
  next case 2 then show ?case by simp }
next
  case (down d' name' i)
  note L = lookup_alloc [OF d ok n]
  { case 1
    with down have "d' = next_ino f \<or> below f r d'" by blast
    with down.hyps(2,3) show ?case
      using is_dir_alloc [OF d ok] fs_okD(5) [OF ok]
      by (auto simp: L intro: below.down split: if_splits)
  next
    case 2
    with down have "d' = next_ino f" by blast
    with down.hyps(2) show ?case using fs_okD(1) [OF ok d] fs_okD(5) [OF ok]
      by (auto simp: L split: if_splits) }
qed

lemma contained_step:
  assumes ok: "fs_ok f" and c1: "contained d f f1" and c2: "contained e f1 f2"
    and b: "\<And>i. i < next_ino f \<Longrightarrow> below f1 e i \<Longrightarrow> below f d i"
  shows "contained d f f2"
proof -
  have "inode_at f2 i = inode_at f i" if "i < next_ino f" "\<not> below f d i" for i
  proof -
    have "\<not> below f1 e i" using b that by blast
    moreover have "i < next_ino f1" using that(1) c1 by (simp add: contained_def)
    ultimately show ?thesis using c1 c2 that by (simp add: contained_def)
  qed
  moreover have "is_dir f2 i = is_dir f i" if "i < next_ino f" for i
    using c1 c2 that by (simp add: contained_def)
  moreover have "lookup f2 a name = Some i" if "lookup f a name = Some i" "is_dir f i" for a name i
  proof -
    have "is_dir f1 i" "lookup f1 a name = Some i"
      using c1 that fs_okD(2) [OF ok that(1)] by (simp_all add: contained_def)
    with c2 show ?thesis by (simp add: contained_def)
  qed
  ultimately show ?thesis using c1 c2 unfolding contained_def by (meson order_trans)
qed

text \<open>The only entries a failed write may leave are new directories.\<close>

definition adds_dirs :: "fs \<Rightarrow> fs \<Rightarrow> bool" where
  "adds_dirs f f' \<longleftrightarrow> (\<forall>a name. lookup f' a name = lookup f a name \<or>
     lookup f a name = None \<and> (\<exists>i. lookup f' a name = Some i \<and> is_dir f' i))"

lemma adds_dirs_refl: "adds_dirs f f"
  by (simp add: adds_dirs_def)

lemma adds_dirs_trans:
  assumes "adds_dirs f g" and "adds_dirs g h" and "contained d g h" and "fs_ok g"
  shows "adds_dirs f h"
  unfolding adds_dirs_def
proof (intro allI)
  fix a name
  show "lookup h a name = lookup f a name \<or>
     lookup f a name = None \<and> (\<exists>i. lookup h a name = Some i \<and> is_dir h i)"
  proof (cases "lookup g a name")
    case None
    with assms(1,2) show ?thesis unfolding adds_dirs_def by (metis option.distinct(1))
  next
    case (Some i)
    then have "lookup h a name = Some i" using assms(2) unfolding adds_dirs_def by (metis option.distinct(1))
    moreover have "is_dir h i = is_dir g i"
      using fs_okD(2) [OF assms(4) Some] assms(3) by (simp add: contained_def)
    ultimately show ?thesis using assms(1) Some unfolding adds_dirs_def by (metis option.inject)
  qed
qed

text \<open>Opening or making one directory.\<close>

lemma mkdir_open:
  assumes ok: "fs_ok f" and d: "is_dir f d"
    and g: "(case sys_mkdir d p f of Inl e \<Rightarrow> if e = EEXIST then Inr f else Inl e | Inr f1 \<Rightarrow> Inr f1) = Inr g"
  shows "fs_ok g" "contained d f g" "adds_dirs f g" "is_dir g d"
    "\<And>i j. sys_open_dir d p g = Inr i \<Longrightarrow> j < next_ino f \<Longrightarrow> below g i j \<Longrightarrow> below f d j"
proof -
  have g': "g = f \<or> lookup f d p = None \<and> g = alloc d p (Directory []) f"
    using g by (auto simp: sys_mkdir_def split: if_splits)
  then show c: "contained d f g"
    using contained_refl [OF ok] contained_alloc [OF d ok] by auto
  then show "fs_ok g" by (simp add: contained_def)
  from c d fs_okD(1) [OF ok d] show "is_dir g d" by (simp add: contained_def)
  from g' show "adds_dirs f g"
    using is_dir_alloc [OF d ok] lookup_alloc [OF d ok]
    by (auto simp: adds_dirs_def split: if_splits)
  fix i j assume i: "sys_open_dir d p g = Inr i" and j: "j < next_ino f" and b: "below g i j"
  from i have l: "lookup g d p = Some i" "is_dir g i"
    by (auto simp: sys_open_dir_def split: option.splits if_splits)
  from g' show "below f d j"
  proof
    assume "g = f"
    with l have "below f d i" by (auto intro: below.down [OF below.here [OF d]])
    with b \<open>g = f\<close> show ?thesis using below_trans by simp
  next
    assume "lookup f d p = None \<and> g = alloc d p (Directory []) f"
    with l have "g = alloc d p (Directory []) f" "i = next_ino f"
      using lookup_alloc [OF d ok, of "Directory []"] by simp_all
    with below_alloc(2) [where n = "Directory []" and name = p and r = i and i = j, OF d ok] b j show ?thesis by simp
  qed
qed

lemma open_parents_spec:
  assumes "fs_ok f" and "is_dir f d" and "open_parents d ps f = (r, f1)"
  shows "contained d f f1 \<and> adds_dirs f f1 \<and>
    (\<forall>e. r = Inr e \<longrightarrow> is_dir f1 e \<and> walk f1 d ps = Some e \<and>
       (\<forall>j < next_ino f. below f1 e j \<longrightarrow> below f d j))"
  using assms
proof (induction ps arbitrary: d f)
  case Nil
  then show ?case by (auto simp: contained_refl adds_dirs_refl)
next
  case (Cons p ps)
  note ok = Cons.prems(1) and d = Cons.prems(2)
  let ?m = "case sys_mkdir d p f of Inl e \<Rightarrow> if e = EEXIST then Inr f else Inl e | Inr f1 \<Rightarrow> Inr f1"
  show ?case
  proof (cases ?m)
    case (Inl e)
    with Cons.prems(3) have "f1 = f" "r = Inl e" by simp_all
    with contained_refl [OF ok] show ?thesis by (simp add: adds_dirs_refl)
  next
    case (Inr g)
    note M = mkdir_open [OF ok d Inr]
    show ?thesis
    proof (cases "sys_open_dir d p g")
      case (Inl e)
      with Cons.prems(3) Inr have "f1 = g" "r = Inl e" by simp_all
      with M show ?thesis by simp
    next
      case (Inr i)
      then have l: "lookup g d p = Some i" "is_dir g i"
        by (auto simp: sys_open_dir_def split: option.splits if_splits)
      from Cons.prems(3) \<open>?m = Inr g\<close> Inr have "open_parents i ps g = (r, f1)" by simp
      note IH = Cons.IH [OF M(1) l(2) this]
      have c: "contained d f f1"
        by (rule contained_step [OF ok M(2) conjunct1 [OF IH]]) (rule M(5) [OF Inr])
      moreover have "adds_dirs f f1"
        using adds_dirs_trans [OF M(3)] IH M(1) by blast
      moreover have "lookup f1 d p = Some i" using IH l by (simp add: contained_def)
      moreover have "next_ino f \<le> next_ino g" using M(2) by (simp add: contained_def)
      ultimately show ?thesis using IH M(5) [OF Inr] by auto
    qed
  qed
qed

lemma lookup_set_dir:
  "is_dir f d \<Longrightarrow> lookup (set_inode d (Directory es) f) d' name =
     (if d' = d then dict_get es name else lookup f d' name)"
  by (simp add: lookup_def entries_def)

lemma contained_unlink:
  assumes ok: "fs_ok f" and d: "is_dir f d" and u: "sys_unlink d name f = Inr f'"
  shows "contained d f f'"
proof -
  from u obtain i where i: "lookup f d name = Some i" "\<not> is_dir f i"
      and f': "f' = set_inode d (Directory (dict_pop name (entries f d))) f"
    by (auto simp: sys_unlink_def split: option.splits if_splits)
  have l: "lookup f' a n = (if a = d \<and> n = name then None else lookup f a n)" for a n
    using d by (simp add: f' lookup_set_dir) (simp add: lookup_def delete_conv)
  have dirs: "is_dir f' j = is_dir f j" for j using d by (simp add: f' is_dir_def)
  have "fs_ok f'"
    unfolding fs_ok_def l using ok fs_okD(1) [OF ok d] by (auto simp: fs_ok_def f')
  then show ?thesis
    using i below.here [OF d] by (auto simp: contained_def dirs l) (auto simp: f')
qed

lemma drop_temporary_spec:
  assumes "fs_ok f" and "is_dir f d" and "drop_temporary d tmp (Inl e) f = (r, f')"
  shows "contained d f f' \<and> (\<exists>e'. r = Inl e') \<and> (lookup f d tmp = None \<longrightarrow> f' = f)"
proof (cases "sys_unlink d tmp f")
  case (Inl e')
  with assms contained_refl [OF assms(1)] show ?thesis
    by (auto simp: drop_temporary_def split: if_splits)
next
  case (Inr f1)
  with assms contained_unlink [OF assms(1,2) Inr] show ?thesis
    by (auto simp: drop_temporary_def sys_unlink_def split: if_splits option.splits)
qed

text \<open>A successful last step: one fresh file, under the leaf's name, and nothing else new.\<close>

definition wrote :: "inum \<Rightarrow> string \<Rightarrow> bytes \<Rightarrow> nat \<Rightarrow> fs \<Rightarrow> fs \<Rightarrow> bool" where
  "wrote d leaf b m f f' \<longleftrightarrow> next_ino f' = next_ino f + 1 \<and>
     (\<forall>a n. lookup f' a n = (if a = d \<and> n = leaf then Some (next_ino f) else lookup f a n)) \<and>
     inode_at f' (next_ino f) = Some (RegFile b m) \<and>
     (\<forall>i. i \<noteq> d \<longrightarrow> i \<noteq> next_ino f \<longrightarrow> inode_at f' i = inode_at f i) \<and> is_dir f' d"

lemma write_leaf_ok:
  fixes mode :: nat
  assumes ok: "fs_ok f" and d: "is_dir f d" and new: "lookup f d tmp = None"
    and reg: "\<And>i. lookup f d leaf = Some i \<Longrightarrow> is_reg f i"
    and m_def: "m = (case lookup f d leaf of None \<Rightarrow> mode | Some i \<Rightarrow> mode_of f i)"
  shows "\<exists>f'. write_leaf tmp mode d leaf (PStr contents) f = (Inr (), f') \<and>
    wrote d leaf contents m f f'"
proof -
  let ?t = "next_ino f"
  let ?f1 = "alloc d tmp (RegFile [] mode) f"
  have dt: "d \<noteq> ?t" using fs_okD(1) [OF ok d] by simp
  define f2 where "f2 = (case lookup f d leaf of None \<Rightarrow> ?f1 | Some i \<Rightarrow> sys_fchmod ?t (mode_of f i) ?f1)"
  define f3 where "f3 = sys_write ?t contents f2"
  have i2: "inode_at f2 j = (if j = ?t then Some (RegFile [] m) else inode_at ?f1 j)"
      and n2: "next_ino f2 = ?t + 1" for j
    using dt by (auto simp: f2_def m_def sys_fchmod_def inode_at_alloc split: option.split)
  have i3: "inode_at f3 j = (if j = ?t then Some (RegFile contents m) else inode_at ?f1 j)"
      and n3: "next_ino f3 = ?t + 1" for j
    using n2 by (simp_all add: f3_def sys_write_def i2)
  have e3: "entries f3 d = dict_set tmp ?t (entries f d)"
    using dt by (simp add: entries_def i3 inode_at_alloc)
  have notdir: "\<not> (case lookup f3 d leaf of None \<Rightarrow> False | Some j \<Rightarrow> is_dir f3 j)"
  proof (cases "lookup f3 d leaf")
    case (Some j)
    then have "j = ?t \<or> lookup f d leaf = Some j"
      by (auto simp: lookup_def e3 dict_get_set split: if_splits)
    then have "\<not> is_dir f3 j"
      using reg [of j] by (auto simp: is_dir_def i3 inode_at_alloc is_reg_def split: option.splits)
        (use d in \<open>auto simp: is_dir_def split: option.splits inode.splits\<close>)
    with Some show ?thesis by simp
  qed simp
  define f4 where "f4 = (if tmp = leaf then f3
     else set_inode d (Directory (dict_set leaf ?t (dict_pop tmp (entries f3 d)))) f3)"
  have "sys_replace d tmp leaf f3 = Inr f4"
  proof (cases "tmp = leaf")
    case True
    with notdir show ?thesis by (simp add: sys_replace_def f4_def lookup_def e3 dict_get_set)
  next
    case False
    have "lookup f3 d leaf \<noteq> Some ?t"
      using False fs_okD(2) [OF ok, of d leaf] by (auto simp: lookup_def e3 dict_get_set)
    with False notdir show ?thesis
      by (simp add: sys_replace_def f4_def lookup_def e3 dict_get_set)
  qed
  moreover have "sys_create d tmp mode f = Inr (?t, ?f1)"
    using d new by (simp add: sys_create_def)
  ultimately have "write_leaf tmp mode d leaf (PStr contents) f = (Inr (), f4)"
    using reg by (auto simp: write_leaf_def Let_def f2_def f3_def split: option.splits)
  moreover have "wrote d leaf contents m f f4"
  proof -
    have "lookup f4 a n = (if a = d \<and> n = leaf then Some ?t else lookup f a n)" for a n
    proof (cases "a = d")
      case True
      then show ?thesis
        using new by (auto simp: f4_def lookup_def e3 entries_def [of "set_inode _ _ _"] dict_get_set delete_conv)
    next
      case False
      have "entries f4 a = entries f a"
        using False fs_okD(3) [OF ok] by (auto simp: f4_def entries_def i3 inode_at_alloc)
      with False show ?thesis by (simp add: lookup_def)
    qed
    moreover have "inode_at f4 i = inode_at f i" if "i \<noteq> d" "i \<noteq> ?t" for i
      using that by (simp add: f4_def i3 inode_at_alloc)
    moreover have "is_dir f4 d" using dt by (simp add: f4_def is_dir_def i3 inode_at_alloc)
    moreover have "inode_at f4 ?t = Some (RegFile contents m)" using dt by (simp add: f4_def i3)
    ultimately show ?thesis by (simp add: wrote_def f4_def n3)
  qed
  ultimately show ?thesis by blast
qed

lemma contained_wrote:
  assumes ok: "fs_ok f" and d: "is_dir f d" and w: "wrote d leaf b m f f'"
    and reg: "\<And>i. lookup f d leaf = Some i \<Longrightarrow> is_reg f i"
  shows "contained d f f'"
proof -
  have L: "lookup f' a n = (if a = d \<and> n = leaf then Some (next_ino f) else lookup f a n)" for a n
    using w by (simp add: wrote_def)
  have I: "inode_at f' i = inode_at f i" if "i \<noteq> d" "i \<noteq> next_ino f" for i
    using w that by (simp add: wrote_def)
  have D: "is_dir f' i = is_dir f i" if "i < next_ino f" for i
    using w d that by (cases "i = d") (simp_all add: wrote_def is_dir_def)
  have some: "inode_at f' i \<noteq> None \<longleftrightarrow> i = next_ino f \<or> inode_at f i \<noteq> None" for i
    using w d by (cases "i = d"; cases "i = next_ino f") (auto simp: wrote_def is_dir_def split: option.splits)
  have "fs_ok f'"
    unfolding fs_ok_def some L using ok w
    by (auto simp: fs_ok_def wrote_def less_Suc_eq split: if_splits)
  moreover have "\<not> is_dir f i" if "lookup f d leaf = Some i" for i
    using reg [OF that] by (auto simp: is_reg_def is_dir_def split: option.splits inode.splits)
  moreover have "inode_at f' i = inode_at f i" if "i < next_ino f" "\<not> below f d i" for i
    using that below.here [OF d] by (intro I) auto
  ultimately show ?thesis
    using w D by (auto simp: contained_def L wrote_def)
qed

lemma write_leaf_type_error:
  assumes ok: "fs_ok f" and d: "is_dir f d" and new: "lookup f d tmp = None"
    and reg: "\<And>i. lookup f d leaf = Some i \<Longrightarrow> is_reg f i" and c: "\<forall>body. contents \<noteq> PStr body"
    and w: "write_leaf tmp mode d leaf contents f = (r, f')"
  shows "contained d f f' \<and> r = Inl TypeError \<and> (\<forall>a n. lookup f' a n = lookup f a n)"
proof -
  let ?t = "next_ino f"
  let ?f1 = "alloc d tmp (RegFile [] mode) f"
  have dt: "d \<noteq> ?t" using fs_okD(1) [OF ok d] by simp
  define f2 where "f2 = (case lookup f d leaf of None \<Rightarrow> ?f1 | Some i \<Rightarrow> sys_fchmod ?t (mode_of f i) ?f1)"
  have "\<exists>m. inode_at f2 ?t = Some (RegFile [] m)" and i2: "\<And>j. j \<noteq> ?t \<Longrightarrow> inode_at f2 j = inode_at ?f1 j"
      and n2: "next_ino f2 = ?t + 1"
    using dt by (auto simp: f2_def sys_fchmod_def inode_at_alloc split: option.split)
  then obtain m where m: "inode_at f2 ?t = Some (RegFile [] m)" by blast
  have d2: "is_dir f2 d" using dt by (simp add: is_dir_def i2 inode_at_alloc)
  have e2: "entries f2 d = dict_set tmp ?t (entries f d)"
    using dt by (simp add: entries_def i2 inode_at_alloc)
  let ?f' = "set_inode d (Directory (dict_pop tmp (entries f2 d))) f2"
  have "sys_create d tmp mode f = Inr (?t, ?f1)" using d new by (simp add: sys_create_def)
  then have "write_leaf tmp mode d leaf contents f = drop_temporary d tmp (Inl TypeError) f2"
    using reg c by (auto simp: write_leaf_def Let_def f2_def split: pyval.split option.splits)
  moreover have "sys_unlink d tmp f2 = Inr ?f'"
    by (simp add: sys_unlink_def lookup_def e2 dict_get_set is_dir_def m)
  ultimately have f': "f' = ?f'" "r = Inl TypeError" using w by (simp_all add: drop_temporary_def)
  have lk: "lookup ?f' a n = lookup f a n" for a n
  proof (cases "a = d")
    case True
    then show ?thesis
      using new by (simp add: lookup_set_dir [OF d2]) (auto simp: lookup_def e2 delete_conv dict_get_set)
  next
    case False
    have "entries f2 a = entries f a"
      using False fs_okD(3) [OF ok] by (cases "a = ?t") (auto simp: entries_def i2 inode_at_alloc m)
    with False show ?thesis by (simp add: lookup_set_dir [OF d2]) (simp add: lookup_def)
  qed
  have same: "inode_at ?f' i = inode_at f i" if "i \<noteq> d" "i \<noteq> ?t" for i
    using that by (simp add: i2 inode_at_alloc)
  have dir: "is_dir ?f' i = is_dir f i" if "i \<noteq> ?t" for i
    using that d by (cases "i = d") (simp_all add: is_dir_def i2 inode_at_alloc)
  have "inode_at ?f' i \<noteq> None \<longleftrightarrow> i = ?t \<or> inode_at f i \<noteq> None" for i
    using d dt m same by (cases "i = d"; cases "i = ?t") (auto simp: is_dir_def split: option.splits)
  then have "fs_ok ?f'"
    using ok unfolding fs_ok_def lk by (auto simp: n2 less_Suc_eq)
  moreover have "inode_at ?f' i = inode_at f i" if "i < ?t" "\<not> below f d i" for i
    using that below.here [OF d] by (intro same) auto
  ultimately have "contained d f ?f'" using dir by (simp add: contained_def lk n2)
  with f' lk show ?thesis by simp
qed

lemma write_leaf_spec:
  assumes ok: "fs_ok f" and d: "is_dir f d" and w: "write_leaf tmp mode d leaf contents f = (r, f')"
  shows "contained d f f' \<and>
    (case r of
       Inl e \<Rightarrow> lookup f d tmp = None \<longrightarrow> (\<forall>a n. lookup f' a n = lookup f a n)
     | Inr u \<Rightarrow> \<exists>body. contents = PStr body \<and> wrote d leaf body
         (case lookup f d leaf of None \<Rightarrow> mode | Some i \<Rightarrow> mode_of f i) f f')"
proof (cases "case lookup f d leaf of None \<Rightarrow> False | Some i \<Rightarrow> \<not> is_reg f i")
  case True
  with w contained_refl [OF ok] show ?thesis by (auto simp: write_leaf_def)
next
  case reg: False
  have R: "\<And>i. lookup f d leaf = Some i \<Longrightarrow> is_reg f i" using reg by simp
  show ?thesis
  proof (cases "lookup f d tmp")
    case None
    show ?thesis
    proof (cases "\<exists>body. contents = PStr body")
      case True
      then obtain body where body: "contents = PStr body" by blast
      from write_leaf_ok [where mode = mode and contents = body and leaf = leaf, OF ok d None R refl]
      obtain g where g: "write_leaf tmp mode d leaf contents f = (Inr (), g)"
        "wrote d leaf body (case lookup f d leaf of None \<Rightarrow> mode | Some i \<Rightarrow> mode_of f i) f g"
        unfolding body by blast
      have "contained d f g" by (rule contained_wrote [OF ok d g(2)]) (rule R)
      with g w body show ?thesis by auto
    next
      case False
      then have "\<forall>body. contents \<noteq> PStr body" by blast
      from write_leaf_type_error [where leaf = leaf, OF ok d None R this w] show ?thesis by simp
    qed
  next
    case (Some j)
    with reg w d have "drop_temporary d tmp (Inl (WritePathError ''cannot safely write'')) f = (r, f')"
      by (simp add: write_leaf_def Let_def sys_create_def)
    from drop_temporary_spec [OF ok d this] Some show ?thesis by auto
  qed
qed

lemma walk_contained:
  assumes "contained d f f'" and "fs_ok f" and "walk f r ps = Some e" and "is_dir f e"
  shows "walk f' r ps = Some e"
  using assms(3)
proof (induction ps arbitrary: r)
  case Nil
  then show ?case by simp
next
  case (Cons p ps)
  then obtain i where i: "lookup f r p = Some i" "walk f i ps = Some e" by (auto split: option.splits)
  have "is_dir f i" using i(2) assms(4) lookup_is_dir by (cases ps) (auto split: option.splits)
  with i(1) assms(1) have "lookup f' r p = Some i" by (simp add: contained_def)
  with Cons.IH [OF i(2)] show ?case by simp
qed

text \<open>All of a write, in one lemma.\<close>

definition write_effect :: "string \<Rightarrow> nat \<Rightarrow> inum \<Rightarrow> string list \<Rightarrow> pyval \<Rightarrow> py_error + unit \<Rightarrow> fs \<Rightarrow> fs \<Rightarrow> bool" where
  "write_effect tmp mode base parts contents r f f' \<longleftrightarrow>
     (case r of
        Inl e \<Rightarrow> (\<forall>a. lookup f a tmp = None) \<and> tmp \<notin> set parts \<longrightarrow> adds_dirs f f'
      | Inr u \<Rightarrow> \<exists>i d. i \<ge> next_ino f \<and> walk f' base (butlast parts) = Some d \<and> is_dir f' d \<and>
          lookup f' d (last parts) = Some i \<and>
          (\<exists>body m. contents = PStr body \<and> inode_at f' i = Some (RegFile body m) \<and>
             (\<forall>j. walk f base parts = Some j \<longrightarrow> m = mode_of f j)) \<and>
          (\<forall>a n. lookup f' a n = Some i \<longrightarrow> a = d \<and> n = last parts))"

lemma adds_dirs_new:
  assumes "adds_dirs f g" and "lookup f a n = None" and "lookup g a n \<noteq> None"
  shows "\<exists>i. lookup g a n = Some i \<and> is_dir g i"
  using assms unfolding adds_dirs_def by metis

lemma open_parents_names:
  assumes "open_parents d ps f = (r, g)" and "n \<notin> set ps"
  shows "is_dir f d \<Longrightarrow> fs_ok f \<Longrightarrow> lookup g a n = lookup f a n"
  using assms
proof (induction ps arbitrary: d f)
  case Nil
  then show ?case by simp
next
  case (Cons p ps)
  let ?m = "case sys_mkdir d p f of Inl e \<Rightarrow> if e = EEXIST then Inr f else Inl e | Inr f1 \<Rightarrow> Inr f1"
  show ?case
  proof (cases ?m)
    case (Inl e)
    with Cons.prems show ?thesis by simp
  next
    case (Inr f1)
    note M = mkdir_open [OF Cons.prems(2,1) Inr]
    have "lookup f1 a n = lookup f a n"
      using Inr Cons.prems lookup_alloc [where n = "Directory []" and name = p, OF Cons.prems(1,2)]
      by (auto simp: sys_mkdir_def split: if_splits)
    moreover have "lookup g a n = lookup f1 a n"
    proof (cases "sys_open_dir d p f1")
      case (Inl e)
      with Cons.prems(3) \<open>?m = Inr f1\<close> show ?thesis by simp
    next
      case (Inr i)
      then have "is_dir f1 i" by (auto simp: sys_open_dir_def split: option.splits if_splits)
      with Cons.IH [of f1 i] Cons.prems(3,4) \<open>?m = Inr f1\<close> Inr M(1) show ?thesis by simp
    qed
    ultimately show ?thesis by simp
  qed
qed

lemma validate_InrD:
  assumes "validate_write_path f base path = Inr parts"
  shows "\<exists>p. path = PStr p \<and> parts = posix_parts p \<and> parts \<noteq> [] \<and> ''..'' \<notin> set parts \<and>
    validate_write_path g None path = Inr parts"
  using assms
  by (auto simp: validate_write_path_def split: pyval.splits if_splits option.splits sum.splits)

lemma write_text_spec:
  assumes ok: "fs_ok f" and w: "write_text_in_fork tmp mode base path contents f = (r, f')"
    and v: "validate_write_path f None path = Inr parts"
  shows "contained base f f' \<and> write_effect tmp mode base parts contents r f f'"
proof (cases "is_dir f base")
  case False
  have bad: "contained base f f \<and> adds_dirs f f"
    using contained_refl [OF ok] by (simp add: adds_dirs_refl)
  from False w v bad show ?thesis by (auto simp: write_text_in_fork_def write_effect_def)
next
  case True
  have ne: "parts \<noteq> []" using validate_InrD [OF v] by blast
  obtain r1 g where o1: "open_parents base (butlast parts) f = (r1, g)" by fastforce
  note O1 = open_parents_spec [OF ok True o1]
  show ?thesis
  proof (cases r1)
    case (Inl e)
    with w v True o1 O1 show ?thesis by (auto simp: write_text_in_fork_def write_effect_def)
  next
    case (Inr d)
    with w v True o1 have w1: "write_leaf tmp mode d (last parts) contents g = (r, f')"
      by (simp add: write_text_in_fork_def)
    have d: "is_dir g d" "walk g base (butlast parts) = Some d"
        "\<And>j. j < next_ino f \<Longrightarrow> below g d j \<Longrightarrow> below f base j"
      using O1 Inr by auto
    have okg: "fs_ok g" using O1 by (simp add: contained_def)
    note W = write_leaf_spec [OF okg d(1) w1]
    have c: "contained base f f'"
      using contained_step [OF ok _ conjunct1 [OF W] d(3)] O1 by blast
    have "write_effect tmp mode base parts contents r f f'"
    proof (cases r)
      case (Inl e)
      have "adds_dirs f f'" if "\<forall>a. lookup f a tmp = None" "tmp \<notin> set parts"
      proof -
        have "tmp \<notin> set (butlast parts)" using that(2) by (blast dest: in_set_butlastD)
        with open_parents_names [OF o1 _ True ok] that(1) have "lookup g d tmp = None" by simp
        with W Inl have "\<forall>a n. lookup f' a n = lookup g a n" by simp
        then have "adds_dirs g f'" by (simp add: adds_dirs_def)
        with adds_dirs_trans [OF _ _ conjunct1 [OF W] okg] O1 show ?thesis by blast
      qed
      with Inl show ?thesis by (simp add: write_effect_def)
    next
      case (Inr u)
      let ?m = "case lookup g d (last parts) of None \<Rightarrow> mode | Some i \<Rightarrow> mode_of g i"
      from W Inr obtain body where body: "contents = PStr body"
          and wr: "wrote d (last parts) body ?m g f'" by auto
      have le: "next_ino f \<le> next_ino g" using O1 by (simp add: contained_def)
      have only: "lookup f' a n = Some (next_ino g) \<longrightarrow> a = d \<and> n = last parts" for a n
        using wr fs_okD(2) [OF okg, of a n "next_ino g"] by (auto simp: wrote_def)
      have m: "?m = mode_of f j" if j: "walk f base parts = Some j" for j
      proof -
        from ne have "walk f base (butlast parts @ [last parts]) = Some j" using j by simp
        then obtain e where e: "walk f base (butlast parts) = Some e" "lookup f e (last parts) = Some j"
          by (auto simp: walk_append split: option.splits)
        from walk_contained [OF conjunct1 [OF O1] ok e(1) lookup_is_dir [OF e(2)]] d(2)
        have "e = d" by simp
        have l: "lookup g d (last parts) = Some j"
          using O1 e(2) \<open>e = d\<close> unfolding adds_dirs_def by (metis option.distinct(1))
        have "\<not> is_dir g j"
        proof
          assume "is_dir g j"
          then have "r = Inl (WritePathError ''non-regular streamed write target'')"
            using w1 l by (auto simp: write_leaf_def is_dir_def is_reg_def split: option.splits inode.splits)
          with Inr show False by simp
        qed
        moreover have "j < next_ino f" by (rule fs_okD(2) [OF ok e(2)])
        ultimately have "inode_at g j = inode_at f j"
          using O1 below_dir [of f base j] unfolding contained_def by metis
        then have "mode_of g j = mode_of f j" by (simp add: mode_of_def)
        with l show ?thesis by simp
      qed
      have "walk f' base (butlast parts) = Some d"
        by (rule walk_contained [OF conjunct1 [OF W] okg d(2) d(1)])
      moreover have "is_dir f' d" "lookup f' d (last parts) = Some (next_ino g)"
          "inode_at f' (next_ino g) = Some (RegFile body ?m)"
        using wr by (simp_all add: wrote_def)
      moreover have "\<forall>j. walk f base parts = Some j \<longrightarrow> ?m = mode_of f j" using m by blast
      ultimately have "walk f' base (butlast parts) = Some d \<and> is_dir f' d \<and>
          lookup f' d (last parts) = Some (next_ino g) \<and>
          (\<exists>body m. contents = PStr body \<and> inode_at f' (next_ino g) = Some (RegFile body m) \<and>
             (\<forall>j. walk f base parts = Some j \<longrightarrow> m = mode_of f j))"
        using body by simp
      then have "\<exists>i d. i \<ge> next_ino f \<and> walk f' base (butlast parts) = Some d \<and> is_dir f' d \<and>
          lookup f' d (last parts) = Some i \<and>
          (\<exists>body m. contents = PStr body \<and> inode_at f' i = Some (RegFile body m) \<and>
             (\<forall>j. walk f base parts = Some j \<longrightarrow> m = mode_of f j)) \<and>
          (\<forall>a n. lookup f' a n = Some i \<longrightarrow> a = d \<and> n = last parts)"
        using le only by blast
      with Inr show ?thesis by (simp add: write_effect_def)
    qed
    with c show ?thesis by simp
  qed
qed

section \<open>Properties of writes\<close>

text \<open>A repository (0) and its fork (1) that share a hard-linked file; a link out of the fork.\<close>

definition demo_fs :: fs where
  "demo_fs = \<lparr>inodes = [(0, Directory [(''a'', 2)]), (1, Directory [(''a'', 3), (''out'', 4)]),
      (2, Directory [(''x'', 5)]), (3, Directory [(''x'', 5)]), (4, SymLink ''/repo''),
      (5, RegFile ''old'' 420)], next_ino = 6\<rparr>"

lemma demo_fs_ok: "fs_ok demo_fs"
proof -
  have i: "inode_at demo_fs i \<noteq> None \<longleftrightarrow> i \<in> {0, 1, 2, 3, 4, 5}" for i
    by (auto simp: inode_at_def demo_fs_def)
  have l: "i \<in> {2, 3, 4, 5}" if "lookup demo_fs d name = Some i" for d name i
    using that by (auto simp: lookup_def entries_def inode_at_def demo_fs_def split: if_splits)
  show ?thesis unfolding fs_ok_def i using l by (auto simp: demo_fs_def)
qed

definition demo_write :: "string \<Rightarrow> (py_error + unit) \<times> fs" where
  "demo_write p = write_text_in_fork ''.sfx-write-1'' 420 1 (PStr p) (PStr ''new'') demo_fs"

text \<open>
  C9: a write stays in its fork. Whatever the path, whatever links the tree holds, and
  whether the write succeeds or fails, every inode that is not a directory reached from the
  fork's root through real directories keeps its contents: files outside, link targets, and
  the other names of a hard-linked file.
\<close>

theorem write_stays_in_fork:
  assumes "fs_ok f" and "write_text_in_fork tmp mode base path contents f = (r, f')"
  shows "fs_ok f' \<and> (\<forall>i n. inode_at f i = Some n \<and> \<not> below f base i \<longrightarrow> inode_at f' i = Some n)"
proof (cases "validate_write_path f None path")
  case (Inl e)
  with assms show ?thesis by (simp add: write_text_in_fork_def)
next
  case (Inr parts)
  from write_text_spec [OF assms Inr] assms(1) show ?thesis
    unfolding contained_def fs_ok_def by fastforce
qed

theorem write_stays_in_fork_witness:
  "fst (demo_write ''out/a/x'') = Inl (WritePathError ''cannot safely write'') \<and>
   fst (demo_write ''a/x'') = Inr () \<and>
   inode_at (snd (demo_write ''a/x'')) 5 = Some (RegFile ''old'' 420)"
proof -
  have w: "write_text_in_fork ''.sfx-write-1'' 420 1 (PStr ''a/x'') (PStr ''new'') demo_fs =
      (fst (demo_write ''a/x''), snd (demo_write ''a/x''))"
    by (simp add: demo_write_def)
  have "\<not> is_dir demo_fs 5" by code_simp
  then have "\<not> below demo_fs 1 5" using below_dir by blast
  moreover have "inode_at demo_fs 5 = Some (RegFile ''old'' 420)" by code_simp
  ultimately have "inode_at (snd (demo_write ''a/x'')) 5 = Some (RegFile ''old'' 420)"
    using write_stays_in_fork [OF demo_fs_ok w] by blast
  moreover have "fst (demo_write ''out/a/x'') = Inl (WritePathError ''cannot safely write'')"
    by code_simp
  moreover have "fst (demo_write ''a/x'') = Inr ()" by code_simp
  ultimately show ?thesis by simp
qed

text \<open>
  C10: a write that succeeds is the write that was asked for. The path then leads, through
  real directories only, to a private new file with exactly the body, and a file that was
  there passes its mode on; the check for a committed write reads it back.
\<close>

theorem write_reads_back:
  assumes ok: "fs_ok f" and w: "write_text_in_fork tmp mode base path contents f = (Inr (), f')"
  shows "write_is_committed f' base [(''path'', path), (''contents'', contents)] = Inr True \<and>
    (\<exists>parts i body m. contents = PStr body \<and> validate_write_path f None path = Inr parts \<and> walk f' base parts = Some i \<and>
       inode_at f i = None \<and> inode_at f' i = Some (RegFile body m) \<and>
       (\<forall>j. walk f base parts = Some j \<longrightarrow> m = mode_of f j))"
proof -
  obtain parts where v: "validate_write_path f None path = Inr parts"
    using w by (auto simp: write_text_in_fork_def split: sum.splits)
  have ne: "parts \<noteq> []" and v': "validate_write_path f' None path = Inr parts"
    using validate_InrD [OF v] by blast+
  obtain i d body m where i: "i \<ge> next_ino f" "walk f' base (butlast parts) = Some d" "is_dir f' d"
      "lookup f' d (last parts) = Some i" "inode_at f' i = Some (RegFile body m)"
      "\<forall>j. walk f base parts = Some j \<longrightarrow> m = mode_of f j"
      "contents = PStr body"
    using write_text_spec [OF ok w v] by (auto simp: write_effect_def)
  have b: "is_dir f base" using w v by (simp add: write_text_in_fork_def split: if_splits)
  then have b': "is_dir f' base"
    using write_text_spec [OF ok w v] fs_okD(1) [OF ok b] by (simp add: contained_def)
  have "walk f' base (butlast parts @ [last parts]) = Some i"
    unfolding walk_append using i(2,4) by simp
  then have "walk f' base parts = Some i" using ne by simp
  moreover have "inode_at f i = None"
    using ok i(1) by (metis fs_ok_def linorder_not_less)
  moreover have "open_existing f' base (butlast parts) = Inr d"
    using open_existing_walk [OF b'] i(2,3) by simp
  ultimately show ?thesis
    using v v' i b' by (auto simp: write_is_committed_def)
qed

theorem write_reads_back_witness:
  "write_is_committed (snd (demo_write ''a/x'')) 1
     [(''path'', PStr ''a/x''), (''contents'', PStr ''new'')] = Inr True"
proof -
  have "fst (demo_write ''a/x'') = Inr ()" by code_simp
  then have "write_text_in_fork ''.sfx-write-1'' 420 1 (PStr ''a/x'') (PStr ''new'') demo_fs =
      (Inr (), snd (demo_write ''a/x''))"
    by (simp add: demo_write_def prod_eq_iff)
  from write_reads_back [OF demo_fs_ok this] show ?thesis by simp
qed

text \<open>
  C11: a write that fails leaves no file behind. With a temporary name that is in use nowhere,
  every directory entry is as it was, except for parent directories that were made.
\<close>

theorem failed_write_leaves_no_file:
  assumes ok: "fs_ok f" and w: "write_text_in_fork tmp mode base path contents f = (Inl e, f')"
    and fresh: "\<forall>a. lookup f a tmp = None" "\<forall>p. path = PStr p \<longrightarrow> tmp \<notin> set (posix_parts p)"
  shows "\<forall>a name. lookup f' a name = lookup f a name \<or>
    lookup f a name = None \<and> (\<exists>i. lookup f' a name = Some i \<and> is_dir f' i)"
proof (cases "validate_write_path f None path")
  case (Inl e')
  with w show ?thesis by (simp add: write_text_in_fork_def)
next
  case (Inr parts)
  with validate_InrD [OF Inr] write_text_spec [OF ok w Inr] fresh show ?thesis
    by (auto simp: write_effect_def adds_dirs_def)
qed

theorem failed_write_leaves_no_file_witness:
  "fst (demo_write ''new/out/../x'') = Inl (WritePathError ''streamed write path escapes fork'') \<and>
   fst (demo_write ''out/y'') = Inl (WritePathError ''cannot safely write'') \<and>
   lookup (snd (demo_write ''out/y'')) 0 ''y'' = None"
proof -
  have r: "fst (demo_write ''out/y'') = Inl (WritePathError ''cannot safely write'')" by code_simp
  then have w: "write_text_in_fork ''.sfx-write-1'' 420 1 (PStr ''out/y'') (PStr ''new'') demo_fs =
      (Inl (WritePathError ''cannot safely write''), snd (demo_write ''out/y''))"
    by (simp add: demo_write_def prod_eq_iff)
  have "lookup demo_fs a ''.sfx-write-1'' = None" for a
    by (auto simp: lookup_def entries_def inode_at_def demo_fs_def)
  moreover have "''.sfx-write-1'' \<notin> set (posix_parts ''out/y'')" by code_simp
  ultimately have L: "lookup (snd (demo_write ''out/y'')) 0 ''y'' = lookup demo_fs 0 ''y'' \<or>
      (\<exists>i. lookup (snd (demo_write ''out/y'')) 0 ''y'' = Some i \<and> is_dir (snd (demo_write ''out/y'')) i)"
    using failed_write_leaves_no_file [OF demo_fs_ok w] by blast
  have "lookup (snd (demo_write ''out/y'')) 0 ''y'' = None" by code_simp
  moreover have "fst (demo_write ''new/out/../x'') =
      Inl (WritePathError ''streamed write path escapes fork'')"
    by code_simp
  ultimately show ?thesis using L r by simp
qed

end
