(* ===== verification/Fork_Life.thy ===== *)
theory Fork_Life
  imports Fork
begin

text \<open>
  The life cycle of a fork in sfx/fork.py: choosing a copy-on-write substrate, making the
  fork, handing it to a body, and tearing it down; and \<^verbatim>\<open>discard\<close>, which refuses to remove
  anything outside the scratch root. What cloning, mounting and removing do to the disk is
  not code of the program: the record \<open>fork_env\<close> holds those calls, over a world \<open>'w\<close>.
  Absolute paths are lists of components.
\<close>

section \<open>Choosing a substrate\<close>

record caps =
  cap_clonefile :: bool
  cap_reflink :: bool
  cap_overlay :: bool
  cap_large_repo :: bool

definition decide_substrate :: "caps \<Rightarrow> py_error + string" where
  "decide_substrate c =
     (if cap_clonefile c then Inr ''clonefile''
      else if cap_large_repo c \<and> cap_overlay c then Inr ''overlayfs''
      else if cap_reflink c then Inr ''reflink''
      else if cap_overlay c then Inr ''overlayfs''
      else Inl (ForkError ''no COW/overlay substrate available; cannot fork''))"

definition LARGE_REPO_BYTES :: nat where
  "LARGE_REPO_BYTES = 512 * 1024 * 1024"

text \<open>\<^verbatim>\<open>os.walk\<close> over files, as \<^verbatim>\<open>_repo_bytes\<close> counts them: a list of (is a regular file, size).\<close>

definition repo_bytes :: "(bool \<times> nat) list \<Rightarrow> nat" where
  "repo_bytes files = sum_list (map snd (filter fst files))"

text \<open>The probes' answers are arguments; one that raises \<^verbatim>\<open>OSError\<close> stops the choice.\<close>

definition choose_substrate ::
  "bool \<Rightarrow> bool \<Rightarrow> bool \<Rightarrow> (py_error + (bool \<times> nat) list) option \<Rightarrow> py_error + string" where
  "choose_substrate clone_ok reflink_ok overlay_ok files =
     (case files of
        None \<Rightarrow> decide_substrate \<lparr>cap_clonefile = clone_ok, cap_reflink = reflink_ok,
          cap_overlay = overlay_ok, cap_large_repo = False\<rparr>
      | Some (Inl e) \<Rightarrow> Inl (ForkError ''cannot probe COW substrate'')
      | Some (Inr fl) \<Rightarrow> decide_substrate \<lparr>cap_clonefile = clone_ok, cap_reflink = reflink_ok,
          cap_overlay = overlay_ok, cap_large_repo = repo_bytes fl \<ge> LARGE_REPO_BYTES\<rparr>)"

section \<open>The context manager\<close>

type_synonym path = "string list"

record fork_handle =
  fh_path :: path
  fh_scratch_root :: path
  fh_substrate :: string
  fh_repo :: path

text \<open>
  The calls into the operating system: strict \<^verbatim>\<open>resolve\<close>, the choice of a substrate,
  \<^verbatim>\<open>is_symlink\<close>, the three ways to make a fork, and removing one.
\<close>

record 'w fork_env =
  env_resolve :: "'w \<Rightarrow> path \<Rightarrow> path option"
  env_choose :: "'w \<Rightarrow> path \<Rightarrow> path \<Rightarrow> py_error + string"
  env_symlink :: "'w \<Rightarrow> path \<Rightarrow> bool"
  env_make :: "string \<Rightarrow> path \<Rightarrow> path \<Rightarrow> 'w \<Rightarrow> (py_error + unit) \<times> 'w"
  env_teardown :: "fork_handle \<Rightarrow> 'w \<Rightarrow> (py_error + unit) \<times> 'w"

definition validate_target :: "(path \<Rightarrow> bool) \<Rightarrow> path \<Rightarrow> path \<Rightarrow> py_error + unit" where
  "validate_target linked base parts =
     (if \<exists>p \<in> set parts. p \<in> {[], ''.'', ''..''} then Inl (ForkError ''non-normal path component'')
      else if \<exists>n < length parts. linked (base @ take (Suc n) parts)
      then Inl (ForkError ''symlink in fork path'')
      else Inr ())"

definition verify_canonical :: "(path \<Rightarrow> path option) \<Rightarrow> path \<Rightarrow> path \<Rightarrow> py_error + unit" where
  "verify_canonical resolve p expected =
     (case resolve p of
        None \<Rightarrow> Inl (OSError ''resolve'')
      | Some r \<Rightarrow> if r \<noteq> expected then Inl (ForkError ''canonical mismatch'') else Inr ())"

text \<open>Errors of the operating system are reported as \<^verbatim>\<open>ForkError\<close>; others pass through.\<close>

definition wrap_os_error :: "py_error \<Rightarrow> py_error" where
  "wrap_os_error e = (case e of OSError m \<Rightarrow> ForkError ''fork failed without copy fallback'' | _ \<Rightarrow> e)"

datatype life_event = Making | Verifying | Running | TearingDown

text \<open>
  \<^verbatim>\<open>with fork(...) as handle: body\<close>, from the point where the handle exists. The result
  carries the trace of what was done. An error from the teardown replaces the body's result,
  as \<^verbatim>\<open>finally\<close> has it.
\<close>

definition run_fork ::
  "'w fork_env \<Rightarrow> fork_handle \<Rightarrow> path \<Rightarrow> (fork_handle \<Rightarrow> 'w \<Rightarrow> (py_error + 'r) \<times> 'w) \<Rightarrow> 'w \<Rightarrow>
   (py_error + 'r) \<times> life_event list \<times> 'w" where
  "run_fork env h target body w =
     (let (made, w1) = env_make env (fh_substrate h) (fh_repo h) target w;
          checked = (case made of Inl e \<Rightarrow> Inl e
                     | Inr u \<Rightarrow> verify_canonical (env_resolve env w1) (fh_path h) (fh_path h));
          upto = (case made of Inl e \<Rightarrow> [Making] | Inr u \<Rightarrow> [Making, Verifying])
      in case checked of
           Inl e \<Rightarrow>
             (let (t, w2) = env_teardown env h w1
              in (case t of Inl e' \<Rightarrow> Inl e' | Inr u \<Rightarrow> Inl (wrap_os_error e), upto @ [TearingDown], w2))
         | Inr u \<Rightarrow>
             (let (r, w2) = body h w1;
                  (t, w3) = env_teardown env h w2
              in (case t of Inl e' \<Rightarrow> Inl e' | Inr u \<Rightarrow> r, upto @ [Running, TearingDown], w3)))"

definition with_fork ::
  "'w fork_env \<Rightarrow> string \<Rightarrow> path \<Rightarrow> path \<Rightarrow> string option \<Rightarrow>
   (fork_handle \<Rightarrow> 'w \<Rightarrow> (py_error + 'r) \<times> 'w) \<Rightarrow> 'w \<Rightarrow> (py_error + 'r) \<times> life_event list \<times> 'w" where
  "with_fork env name repo_dir scratch substrate body w =
     (case (env_resolve env w repo_dir, env_resolve env w scratch) of
        (Some repo, Some sroot) \<Rightarrow>
          (case (case substrate of Some s \<Rightarrow> Inr s | None \<Rightarrow> env_choose env w sroot repo) of
             Inl e \<Rightarrow> (Inl (case e of OSError m \<Rightarrow> ForkError ''cannot prepare COW fork'' | _ \<Rightarrow> e), [], w)
           | Inr sub \<Rightarrow>
               if sub \<notin> {''clonefile'', ''reflink'', ''overlayfs''}
               then (Inl (ForkError ''unknown COW substrate''), [], w)
               else case validate_target (env_symlink env w) sroot [name] of
                 Inl e \<Rightarrow> (Inl e, [], w)
               | Inr u \<Rightarrow>
                   let target = sroot @ [name];
                       p = (if sub = ''overlayfs'' then target @ [''merged''] else target);
                       h = \<lparr>fh_path = p, fh_scratch_root = sroot, fh_substrate = sub, fh_repo = repo\<rparr>
                   in run_fork env h target body w)
      | _ \<Rightarrow> (Inl (ForkError ''cannot prepare COW fork''), [], w))"

section \<open>Discarding\<close>

text \<open>
  \<^verbatim>\<open>_canonicalize_existing\<close>: the deepest existing ancestor is resolved, the missing
  components are put back. \<open>None\<close> is a loop that never ends, at a root that does not resolve.
\<close>

function canonicalize_existing :: "(path \<Rightarrow> path option) \<Rightarrow> path \<Rightarrow> path option" where
  "canonicalize_existing resolve p =
     (case resolve p of
        Some c \<Rightarrow> Some c
      | None \<Rightarrow> if p = [] then None
                else (case canonicalize_existing resolve (butlast p) of
                        None \<Rightarrow> None | Some c \<Rightarrow> Some (c @ [last p])))"
  by pat_completeness auto
termination
  by (relation "measure (\<lambda>(resolve, p). length p)") auto

declare canonicalize_existing.simps [simp del]

definition strict_prefix_of :: "path \<Rightarrow> path \<Rightarrow> bool" where
  "strict_prefix_of a b \<longleftrightarrow> length a < length b \<and> take (length a) b = a"

definition in_scratch :: "(path \<Rightarrow> path option) \<Rightarrow> path \<Rightarrow> path \<Rightarrow> bool option" where
  "in_scratch resolve scratch p =
     (case resolve scratch of
        None \<Rightarrow> Some False
      | Some r \<Rightarrow> (case canonicalize_existing resolve p of
                     None \<Rightarrow> None | Some c \<Rightarrow> Some (r \<noteq> c \<and> strict_prefix_of r c)))"

definition teardown_root :: "fork_handle \<Rightarrow> path" where
  "teardown_root h = (if fh_substrate h = ''overlayfs'' then butlast (fh_path h) else fh_path h)"

definition discard :: "'w fork_env \<Rightarrow> fork_handle \<Rightarrow> 'w \<Rightarrow> ((py_error + unit) \<times> 'w) option" where
  "discard env h w =
     (case in_scratch (env_resolve env w) (fh_scratch_root h) (teardown_root h) of
        None \<Rightarrow> None
      | Some False \<Rightarrow> Some (Inl (ForkError ''refusing to discard path outside scratch root''), w)
      | Some True \<Rightarrow> Some (env_teardown env h w))"

section \<open>Properties\<close>

text \<open>
  The substrate chosen is one whose capability was found, and the choice fails exactly
  when there is none.
\<close>

theorem decide_substrate_sound:
  "(case decide_substrate c of
      Inr s \<Rightarrow> s = ''clonefile'' \<and> cap_clonefile c \<or> s = ''reflink'' \<and> cap_reflink c \<or>
              s = ''overlayfs'' \<and> cap_overlay c
    | Inl e \<Rightarrow> \<not> cap_clonefile c \<and> \<not> cap_reflink c \<and> \<not> cap_overlay c) \<and>
   (cap_large_repo c \<and> cap_overlay c \<and> \<not> cap_clonefile c \<longrightarrow> decide_substrate c = Inr ''overlayfs'')"
  by (simp add: decide_substrate_def)

theorem decide_substrate_sound_witness:
  "decide_substrate \<lparr>cap_clonefile = False, cap_reflink = True, cap_overlay = True, cap_large_repo = True\<rparr>
     = Inr ''overlayfs''"
  using decide_substrate_sound [of "\<lparr>cap_clonefile = False, cap_reflink = True, cap_overlay = True,
    cap_large_repo = True\<rparr>"] by simp

definition life_traces :: "life_event list set" where
  "life_traces = {[], [Making, TearingDown], [Making, Verifying, TearingDown],
     [Making, Verifying, Running, TearingDown]}"

lemma run_fork_trace:
  assumes "run_fork env h target body w = (r, tr, w')"
  shows "tr \<in> life_traces \<and> tr \<noteq> [] \<and> (\<forall>v. r = Inr v \<longrightarrow> tr = [Making, Verifying, Running, TearingDown] \<and>
    (\<exists>w1 w2. body h w1 = (Inr v, w2) \<and> env_teardown env h w2 = (Inr (), w')))"
proof -
  obtain made w1 where m: "env_make env (fh_substrate h) (fh_repo h) target w = (made, w1)"
    by fastforce
  define checked where "checked = (case made of Inl e \<Rightarrow> Inl e
     | Inr u \<Rightarrow> verify_canonical (env_resolve env w1) (fh_path h) (fh_path h))"
  show ?thesis
  proof (cases checked)
    case (Inl e)
    obtain t w2 where t: "env_teardown env h w1 = (t, w2)" by fastforce
    from assms m Inl t show ?thesis
      by (cases made; cases t) (auto simp: run_fork_def checked_def life_traces_def)
  next
    case (Inr u)
    then obtain u' where made: "made = Inr u'" by (cases made) (auto simp: checked_def)
    obtain r' w2 where b: "body h w1 = (r', w2)" by fastforce
    obtain t w3 where t: "env_teardown env h w2 = (t, w3)" by fastforce
    from assms m Inr made b t show ?thesis
      by (cases t) (auto simp: run_fork_def checked_def life_traces_def)
  qed
qed

lemma fork_steps:
  assumes "with_fork env name repo scratch sub body w = (r, tr, w')"
  shows "tr \<in> life_traces \<and> (tr = [] \<longrightarrow> w' = w \<and> (\<exists>e. r = Inl e)) \<and>
    (\<forall>v. r = Inr v \<longrightarrow> tr = [Making, Verifying, Running, TearingDown] \<and>
       (\<exists>h w1 w2. body h w1 = (Inr v, w2) \<and> env_teardown env h w2 = (Inr (), w')))"
proof -
  from assms consider "tr = []" "w' = w" "\<exists>e. r = Inl e"
    | h target where "run_fork env h target body w = (r, tr, w')"
    by (auto simp: with_fork_def Let_def split: option.splits sum.splits if_splits)
  then show ?thesis
  proof cases
    case 1
    then show ?thesis by (auto simp: life_traces_def)
  next
    case 2
    with run_fork_trace [OF 2] show ?thesis by blast
  qed
qed


definition demo_env :: "nat fork_env" where
  "demo_env = \<lparr>env_resolve = (\<lambda>w p. Some p), env_choose = (\<lambda>w s r. Inr ''clonefile''),
     env_symlink = (\<lambda>w p. False), env_make = (\<lambda>s r t w. (Inr (), w + 1)),
     env_teardown = (\<lambda>h w. (Inr (), w + 10))\<rparr>"



definition demo_resolve :: "path \<Rightarrow> path option" where
  "demo_resolve p = (if p = [] then Some [] else if p = [''tmp''] then Some [''private'', ''tmp'']
     else if p = [''tmp'', ''evil''] then Some [''repo''] else None)"


text \<open>
  \<^verbatim>\<open>discard\<close> removes nothing outside the scratch root. Unless the canonical form of the
  directory to be removed lies strictly inside the canonical scratch root, it raises and
  leaves the world as it is; a link out of the scratch root is resolved before the test.
\<close>

theorem discard_only_inside_scratch:
  assumes "discard env h w = Some (r, w')" and "\<not> (\<exists>base rest. env_resolve env w (fh_scratch_root h) = Some base \<and>
      rest \<noteq> [] \<and> canonicalize_existing (env_resolve env w) (teardown_root h) = Some (base @ rest))"
  shows "w' = w \<and> r = Inl (ForkError ''refusing to discard path outside scratch root'')"
proof -
  have *: "strict_prefix_of a b \<Longrightarrow> \<exists>rest. rest \<noteq> [] \<and> b = a @ rest" for a b :: path
    unfolding strict_prefix_of_def
    by (metis append_take_drop_id append_Nil2 nat_neq_iff)
  have "in_scratch (env_resolve env w) (fh_scratch_root h) (teardown_root h) \<noteq> Some True"
    using assms(2) by (auto simp: in_scratch_def split: option.splits dest!: *)
  with assms(1) show ?thesis by (auto simp: discard_def split: option.splits bool.splits)
qed

theorem discard_only_inside_scratch_witness:
  "discard (demo_env\<lparr>env_resolve := (\<lambda>w. demo_resolve)\<rparr>)
     \<lparr>fh_path = [''tmp'', ''evil''], fh_scratch_root = [''tmp''], fh_substrate = ''clonefile'', fh_repo = [''repo'']\<rparr> 0
   = Some (Inl (ForkError ''refusing to discard path outside scratch root''), 0)"
proof -
  let ?e = "demo_env\<lparr>env_resolve := (\<lambda>w. demo_resolve)\<rparr>"
  let ?h = "\<lparr>fh_path = [''tmp'', ''evil''], fh_scratch_root = [''tmp''], fh_substrate = ''clonefile'', fh_repo = [''repo'']\<rparr>"
  have c: "canonicalize_existing demo_resolve [''tmp'', ''evil''] = Some [''repo'']"
    by (subst canonicalize_existing.simps) (simp add: demo_resolve_def)
  obtain r w' where d: "discard ?e ?h 0 = Some (r, w')"
    using c by (simp add: discard_def in_scratch_def teardown_root_def demo_resolve_def strict_prefix_of_def)
  have "\<not> (\<exists>base rest. env_resolve ?e 0 (fh_scratch_root ?h) = Some base \<and>
      rest \<noteq> [] \<and> canonicalize_existing (env_resolve ?e 0) (teardown_root ?h) = Some (base @ rest))"
    using c by (simp add: teardown_root_def) (simp add: demo_resolve_def)
  from discard_only_inside_scratch [OF d this] d show ?thesis by simp
qed

end
