(* ===== verification/Chain.thy ===== *)
theory Chain
  imports Stream Fork_Life
begin

text \<open>
  sfx/chain.py and sfx/substrate.py: a chain is a streamed write and the calls predicted to
  follow it, run in a private fork in which the write was applied. Applying the write and
  running a command are callbacks given to \<^verbatim>\<open>FilesystemSubstrate\<close>; what its own checks
  guarantee is proved for the callback the program uses, \<open>write_text_in_fork\<close>.
\<close>

section \<open>Data\<close>

record hop =
  hop_kind :: string
  hop_verb :: string
  hop_args :: pyval
  hop_outcome :: "string option"
  hop_result :: pyval
  hop_duration :: rat
  hop_launch :: rat

text \<open>A predicted call: kind, verb, arguments.\<close>

type_synonym pred_call = "string \<times> string \<times> pyval"

record chain =
  ch_write :: streamed_write
  ch_hops :: "hop list"

text \<open>\<^verbatim>\<open>write.args["path"]\<close>; arguments that are not a dict have no keys.\<close>

definition arg_of :: "pyval \<Rightarrow> string \<Rightarrow> pyval option" where
  "arg_of v k = (case v of PDict kvs \<Rightarrow> dict_get kvs k | _ \<Rightarrow> None)"

section \<open>The filesystem substrate\<close>

text \<open>
  \<open>sub_inode\<close> is the directory a canonical path names, \<open>sub_apply_write\<close> and \<open>sub_run\<close> are
  the two callbacks, \<open>sub_validate\<close> the optional one that looks at the handle first.
\<close>

record 'w fs_substrate = "'w fork_env" +
  sub_fs :: "'w \<Rightarrow> fs"
  sub_inode :: "'w \<Rightarrow> path \<Rightarrow> inum option"
  sub_apply_write :: "path \<Rightarrow> streamed_write \<Rightarrow> 'w \<Rightarrow> (py_error + unit) \<times> 'w"
  sub_run :: "path \<Rightarrow> pred_call \<Rightarrow> 'w \<Rightarrow> (py_error + (pyval \<times> string)) \<times> 'w"
  sub_validate :: "(fork_handle \<Rightarrow> pred_call \<Rightarrow> 'w \<Rightarrow> py_error + unit) option"

definition substrate_apply ::
  "('w, 'x) fs_substrate_scheme \<Rightarrow> fork_handle \<Rightarrow> streamed_write \<Rightarrow> 'w \<Rightarrow> (py_error + unit) \<times> 'w" where
  "substrate_apply sub h write w =
     (case arg_of (sw_args write) ''path'' of
        None \<Rightarrow> (Inl (WritePathError ''streamed write missing path''), w)
      | Some p \<Rightarrow>
          (case validate_write_path (sub_fs sub w) (sub_inode sub w (fh_path h)) p of
             Inl e \<Rightarrow> (Inl e, w)
           | Inr parts \<Rightarrow>
               (case validate_write_path (sub_fs sub w) (sub_inode sub w (fh_repo h)) p of
                  Inl e \<Rightarrow> (Inl e, w)
                | Inr parts' \<Rightarrow> sub_apply_write sub (fh_path h) write w)))"

definition substrate_run_get ::
  "('w, 'x) fs_substrate_scheme \<Rightarrow> fork_handle \<Rightarrow> pred_call \<Rightarrow> 'w \<Rightarrow> (py_error + (pyval \<times> string)) \<times> 'w" where
  "substrate_run_get sub h hop w =
     (case (case sub_validate sub of None \<Rightarrow> Inr () | Some v \<Rightarrow> v h hop w) of
        Inl e \<Rightarrow> (Inl e, w)
      | Inr u \<Rightarrow> sub_run sub (fh_path h) hop w)"

section \<open>Running a chain\<close>

text \<open>
  The world holds the clock's count of readings. The loop is bounded by \<open>depth_cap\<close>: its
  first argument is how many hops may still be added.
\<close>

fun chain_loop ::
  "clock \<Rightarrow> ('w :: type \<Rightarrow> nat) \<Rightarrow> ('w \<Rightarrow> 'w) \<Rightarrow>
   (pred_call \<Rightarrow> 'w \<Rightarrow> (py_error + (pyval \<times> string)) \<times> 'w) \<Rightarrow>
   (string list \<Rightarrow> 'w \<Rightarrow> pred_call option \<times> 'w) \<Rightarrow>
   nat \<Rightarrow> string list \<Rightarrow> 'w \<Rightarrow> (py_error + hop list) \<times> 'w" where
  "chain_loop clk ticks_of tickw run_get next_hop 0 outcomes w = (Inr [], w)"
| "chain_loop clk ticks_of tickw run_get next_hop (Suc n) outcomes w =
     (case next_hop outcomes w of
        (None, w1) \<Rightarrow> (Inr [], w1)
      | (Some (kind, verb, args), w1) \<Rightarrow>
          if verb = ''never'' \<or> verb \<in> STREAM_ONLY then (Inr [], w1)
          else let t0 = clk (ticks_of w1) in
            case run_get (kind, verb, args) (tickw w1) of
              (Inl e, w2) \<Rightarrow> (Inl e, w2)
            | (Inr (result, status), w2) \<Rightarrow>
                let h = \<lparr>hop_kind = kind, hop_verb = verb, hop_args = args, hop_outcome = Some status,
                         hop_result = result, hop_duration = clk (ticks_of w2) - t0, hop_launch = t0\<rparr>
                in case chain_loop clk ticks_of tickw run_get next_hop n (outcomes @ [status]) (tickw w2) of
                     (Inl e, w3) \<Rightarrow> (Inl e, w3)
                   | (Inr hops, w3) \<Rightarrow> (Inr (h # hops), w3))"

definition run_chain ::
  "('w, 'x) fs_substrate_scheme \<Rightarrow> clock \<Rightarrow> ('w \<Rightarrow> nat) \<Rightarrow> ('w \<Rightarrow> 'w) \<Rightarrow> string \<Rightarrow>
   streamed_write \<Rightarrow> path \<Rightarrow> path \<Rightarrow> (string list \<Rightarrow> 'w \<Rightarrow> pred_call option \<times> 'w) \<Rightarrow> nat \<Rightarrow> 'w \<Rightarrow>
   (py_error + chain) \<times> life_event list \<times> 'w" where
  "run_chain sub clk ticks_of tickw name write repo scratch next_hop depth_cap w =
     (case arg_of (sw_args write) ''path'' of
        None \<Rightarrow> (Inl (WritePathError ''streamed write missing path''), [], w)
      | Some p \<Rightarrow>
          (case validate_write_path (sub_fs sub w) None p of
             Inl e \<Rightarrow> (Inl e, [], w)
           | Inr parts \<Rightarrow>
               with_fork (fork_env.truncate sub) name repo scratch None
                 (\<lambda>h w1. case substrate_apply sub h write w1 of
                    (Inl e, w2) \<Rightarrow> (Inl e, w2)
                  | (Inr u, w2) \<Rightarrow>
                      (case chain_loop clk ticks_of tickw (substrate_run_get sub h) next_hop depth_cap [] w2 of
                         (Inl e, w3) \<Rightarrow> (Inl e, w3)
                       | (Inr hops, w3) \<Rightarrow> (Inr \<lparr>ch_write = write, ch_hops = hops\<rparr>, w3)))
                 w))"

text \<open>
  \<^verbatim>\<open>run_hop_in_fork\<close>; the duration it returns is read after the fork was torn down.
\<close>

definition run_hop_in_fork ::
  "('w, 'x) fs_substrate_scheme \<Rightarrow> clock \<Rightarrow> ('w \<Rightarrow> nat) \<Rightarrow> ('w \<Rightarrow> 'w) \<Rightarrow> string \<Rightarrow>
   streamed_write \<Rightarrow> pred_call \<Rightarrow> path \<Rightarrow> path \<Rightarrow> 'w \<Rightarrow>
   (py_error + (pyval \<times> string \<times> rat)) \<times> life_event list \<times> 'w" where
  "run_hop_in_fork sub clk ticks_of tickw name write hop repo scratch w =
     (case arg_of (sw_args write) ''path'' of
        None \<Rightarrow> (Inl (KeyError ''path''), [], w)
      | Some p \<Rightarrow>
          (case validate_write_path (sub_fs sub w) None p of
             Inl e \<Rightarrow> (Inl e, [], w)
           | Inr parts \<Rightarrow>
               (case with_fork (fork_env.truncate sub) name repo scratch None
                  (\<lambda>h w1. case substrate_apply sub h write w1 of
                     (Inl e, w2) \<Rightarrow> (Inl e, w2)
                   | (Inr u, w2) \<Rightarrow>
                       (case substrate_run_get sub h hop (tickw w2) of
                          (Inl e, w3) \<Rightarrow> (Inl e, w3)
                        | (Inr (result, status), w3) \<Rightarrow> (Inr (result, status, clk (ticks_of w2)), w3)))
                  w of
                  (Inl e, tr, w4) \<Rightarrow> (Inl e, tr, w4)
                | (Inr (result, status, t0), tr, w4) \<Rightarrow>
                    (Inr (result, status, clk (ticks_of w4) - t0), tr, tickw w4))))"

text \<open>How far a speculated chain agrees with what really happened.\<close>

fun longest_prefix_len :: "'a list \<Rightarrow> 'a list \<Rightarrow> nat" where
  "longest_prefix_len (x # xs) (y # ys) = (if x \<noteq> y then 0 else Suc (longest_prefix_len xs ys))"
| "longest_prefix_len xs ys = 0"

definition longest_prefix :: "'a list \<Rightarrow> 'a list \<Rightarrow> 'a list \<times> 'a list" where
  "longest_prefix speculated real_calls =
     (let n = longest_prefix_len speculated real_calls in (take n speculated, drop n speculated))"

section \<open>The program's callback\<close>

text \<open>\<^verbatim>\<open>_apply_write\<close> of eval/sfx_daemon_run.py: the write goes through \<open>write_text_in_fork\<close>.\<close>

definition apply_write :: "string \<Rightarrow> nat \<Rightarrow> inum \<Rightarrow> streamed_write \<Rightarrow> fs \<Rightarrow> (py_error + unit) \<times> fs" where
  "apply_write tmp mode dir write f =
     (case (arg_of (sw_args write) ''path'', arg_of (sw_args write) ''contents'') of
        (Some p, Some c) \<Rightarrow> write_text_in_fork tmp mode dir p c f
      | (None, _) \<Rightarrow> (Inl (KeyError ''path''), f)
      | (_, None) \<Rightarrow> (Inl (KeyError ''contents''), f))"

text \<open>A substrate that writes this way, over a world that is the filesystem.\<close>

definition uses_apply_write :: "string \<Rightarrow> nat \<Rightarrow> (fs, 'x) fs_substrate_scheme \<Rightarrow> bool" where
  "uses_apply_write tmp mode sub \<longleftrightarrow> sub_fs sub = id \<and>
     (\<forall>p write f. sub_apply_write sub p write f =
        (case sub_inode sub f p of
           None \<Rightarrow> (Inl (WritePathError ''cannot safely write''), f)
         | Some dir \<Rightarrow> apply_write tmp mode dir write f))"

section \<open>Lemmas\<close>

text \<open>What the check over an existing root establishes.\<close>

definition safe_target :: "fs \<Rightarrow> inum \<Rightarrow> string list \<Rightarrow> bool" where
  "safe_target f base parts \<longleftrightarrow>
     (\<forall>n i. 0 < n \<and> n \<le> length parts \<and> walk f base (take n parts) = Some i \<longrightarrow>
        \<not> is_link f i \<and> (n < length parts \<longrightarrow> is_dir f i) \<and>
        (n = length parts \<longrightarrow> is_reg f i \<and> nlink f i \<le> 1))"

lemma check_components_safe:
  "check_components f d ps = Inr u \<Longrightarrow> safe_target f d ps"
proof (induction f d ps rule: check_components.induct)
  case (1 f d)
  then show ?case by (simp add: safe_target_def)
next
  case (2 f d p ps)
  show ?case
  proof (cases "lookup f d p")
    case None
    have "walk f d (take n (p # ps)) = None" if "0 < n" for n
      using that None by (cases n) simp_all
    then show ?thesis unfolding safe_target_def by (metis option.distinct(1))
  next
    case (Some i)
    from "2.prems" Some have c: "\<not> is_link f i" "ps \<noteq> [] \<longrightarrow> is_dir f i"
        "ps = [] \<longrightarrow> is_reg f i \<and> nlink f i \<le> 1" "is_dir f d"
      by (auto split: if_splits)
    have rest: "check_components f i ps = Inr u" using "2.prems" Some by (auto split: if_splits)
    have IH: "safe_target f i ps"
      by (rule "2.IH" [OF _ Some]) (use c rest in \<open>auto\<close>)
    show ?thesis
      unfolding safe_target_def
    proof (intro allI impI)
      fix n j
      assume n: "0 < n \<and> n \<le> length (p # ps) \<and> walk f d (take n (p # ps)) = Some j"
      then obtain m where m: "n = Suc m" "m \<le> length ps" "walk f i (take m ps) = Some j"
        using Some by (cases n) auto
      show "\<not> is_link f j \<and> (n < length (p # ps) \<longrightarrow> is_dir f j) \<and>
          (n = length (p # ps) \<longrightarrow> is_reg f j \<and> nlink f j \<le> 1)"
      proof (cases "m = 0")
        case True
        with m c show ?thesis by (cases ps) auto
      next
        case False
        with m IH show ?thesis unfolding safe_target_def by auto
      qed
    qed
  qed
qed

lemma validate_safe:
  assumes "validate_write_path f (Some base) path = Inr parts"
  shows "safe_target f base parts"
proof -
  from assms obtain u where "check_components f base parts = Inr u"
    by (auto simp: validate_write_path_def split: pyval.splits if_splits sum.splits)
  then show ?thesis by (rule check_components_safe)
qed

lemma chain_loop_spec:
  assumes "chain_loop clk ticks_of tickw run_get next_hop n outcomes w = (Inr hops, w')"
  shows "length hops \<le> n \<and> (\<forall>i < length hops.
    hop_verb (hops ! i) \<noteq> ''never'' \<and> hop_verb (hops ! i) \<notin> STREAM_ONLY \<and>
    (\<exists>w1 w2. next_hop (outcomes @ map (\<lambda>h. the (hop_outcome h)) (take i hops)) w1 =
       (Some (hop_kind (hops ! i), hop_verb (hops ! i), hop_args (hops ! i)), w2)))"
  using assms
proof (induction n arbitrary: outcomes w hops)
  case 0
  then show ?case by simp
next
  case (Suc n)
  obtain r w1 where nh: "next_hop outcomes w = (r, w1)" by fastforce
  show ?case
  proof (cases r)
    case None
    with Suc.prems nh show ?thesis by simp
  next
    case (Some p)
    obtain kind verb args where p: "p = (kind, verb, args)" by (cases p)
    show ?thesis
    proof (cases "verb = ''never'' \<or> verb \<in> STREAM_ONLY")
      case True
      with Suc.prems nh Some p show ?thesis by simp
    next
      case False
      with Suc.prems nh Some p obtain result status w2 hops' h where
        rg: "run_get (kind, verb, args) (tickw w1) = (Inr (result, status), w2)"
        and rec: "chain_loop clk ticks_of tickw run_get next_hop n (outcomes @ [status]) (tickw w2) = (Inr hops', w')"
        and h: "hops = h # hops'" "hop_kind h = kind" "hop_verb h = verb" "hop_args h = args"
          "hop_outcome h = Some status"
        by (auto simp: Let_def split: prod.splits sum.splits)
      note IH = Suc.IH [OF rec]
      have "hop_verb (hops ! i) \<noteq> ''never'' \<and> hop_verb (hops ! i) \<notin> STREAM_ONLY \<and>
          (\<exists>w1 w2. next_hop (outcomes @ map (\<lambda>h. the (hop_outcome h)) (take i hops)) w1 =
            (Some (hop_kind (hops ! i), hop_verb (hops ! i), hop_args (hops ! i)), w2))"
        if "i < length hops" for i
      proof (cases i)
        case 0
        with h nh Some p False show ?thesis by auto
      next
        case (Suc j)
        with that h(1) have "j < length hops'" by simp
        with IH Suc h show ?thesis by simp
      qed
      moreover have "length hops \<le> Suc n" using IH h(1) by simp
      ultimately show ?thesis by blast
    qed
  qed
qed

section \<open>Properties\<close>

text \<open>
  C15: a chain is bounded and speculates only what a fork may run. If it returns, it has at
  most \<open>depth_cap\<close> hops, each is the predictor's answer to the outcomes of the hops before
  it, none has a policy that forbids speculation, and the fork it ran in was torn down.
\<close>

theorem run_chain_bounded:
  assumes "run_chain sub clk ticks_of tickw name write repo scratch next_hop depth_cap w = (Inr c, tr, w')"
  shows "length (ch_hops c) \<le> depth_cap \<and> ch_write c = write \<and> last tr = TearingDown \<and>
    (\<forall>i < length (ch_hops c).
      hop_verb (ch_hops c ! i) \<noteq> ''never'' \<and> hop_verb (ch_hops c ! i) \<notin> STREAM_ONLY \<and>
      (\<exists>w1 w2. next_hop (map (\<lambda>h. the (hop_outcome h)) (take i (ch_hops c))) w1 =
         (Some (hop_kind (ch_hops c ! i), hop_verb (ch_hops c ! i), hop_args (ch_hops c ! i)), w2)))"
proof -
  let ?body = "\<lambda>h w1. case substrate_apply sub h write w1 of
      (Inl e, w2) \<Rightarrow> (Inl e, w2)
    | (Inr u, w2) \<Rightarrow>
        (case chain_loop clk ticks_of tickw (substrate_run_get sub h) next_hop depth_cap [] w2 of
           (Inl e, w3) \<Rightarrow> (Inl e, w3)
         | (Inr hops, w3) \<Rightarrow> (Inr \<lparr>ch_write = write, ch_hops = hops\<rparr>, w3))"
  have f: "with_fork (fork_env.truncate sub) name repo scratch None ?body w = (Inr c, tr, w')"
    using assms by (auto simp: run_chain_def split: option.splits sum.splits)
  from fork_steps [OF f] obtain h w1 w2 where b: "?body h w1 = (Inr c, w2)" and tr: "last tr = TearingDown"
    by auto
  from b obtain w3 hops where
    "chain_loop clk ticks_of tickw (substrate_run_get sub h) next_hop depth_cap [] w3 = (Inr hops, w2)"
    and c: "c = \<lparr>ch_write = write, ch_hops = hops\<rparr>"
    by (auto split: prod.splits sum.splits)
  from chain_loop_spec [OF this(1)] c tr show ?thesis by simp
qed

fun demo_inode :: "fs \<Rightarrow> path \<Rightarrow> inum option" where
  "demo_inode f p = (if p = [''repo''] then Some 0 else if p = [''tmp'', ''f0''] then Some 1 else None)"

fun demo_apply :: "path \<Rightarrow> streamed_write \<Rightarrow> fs \<Rightarrow> (py_error + unit) \<times> fs" where
  "demo_apply p write f =
     (case demo_inode f p of
        None \<Rightarrow> (Inl (WritePathError ''cannot safely write''), f)
      | Some dir \<Rightarrow> apply_write ''.sfx-write-1'' 420 dir write f)"

definition demo_sub :: "fs fs_substrate" where
  "demo_sub = \<lparr>env_resolve = (\<lambda>w p. Some p), env_choose = (\<lambda>w s r. Inr ''clonefile''),
     env_symlink = (\<lambda>w p. False), env_make = (\<lambda>s r t w. (Inr (), w)),
     env_teardown = (\<lambda>h w. (Inr (), w)), sub_fs = id, sub_inode = demo_inode,
     sub_apply_write = demo_apply, sub_run = (\<lambda>p hop f. (Inr (PStr ''passed'', ''PASS''), f)),
     sub_validate = None\<rparr>"

definition demo_sw :: streamed_write where
  "demo_sw = \<lparr>sw_id = ''c1'', sw_tool = ''Write'', sw_verb = ''fork'',
     sw_args = PDict [(''path'', PStr ''a/new.py''), (''contents'', PStr ''x'')]\<rparr>"

definition demo_next :: "string list \<Rightarrow> fs \<Rightarrow> pred_call option \<times> fs" where
  "demo_next outcomes f = (if length outcomes < 2 then Some (''test'', ''free'', PDict []) else Some (''edit'', ''fork'', PDict []), f)"

definition demo_chain :: "(py_error + chain) \<times> life_event list \<times> fs" where
  "demo_chain = run_chain demo_sub (\<lambda>_. 0) (\<lambda>_. 0) id ''f0'' demo_sw [''repo''] [''tmp''] demo_next 5 demo_fs"

lemma demo_sw_steps:
  "arg_of (sw_args demo_sw) ''path'' = Some (PStr ''a/new.py'')"
  "validate_write_path demo_fs None (PStr ''a/new.py'') = Inr [''a'', ''new.py'']"
  "validate_write_path demo_fs (Some 1) (PStr ''a/new.py'') = Inr [''a'', ''new.py'']"
  "validate_write_path demo_fs (Some 0) (PStr ''a/new.py'') = Inr [''a'', ''new.py'']"
  "fst (apply_write ''.sfx-write-1'' 420 1 demo_sw demo_fs) = Inr ()"
  by code_simp+

lemma demo_chain_loop:
  "\<exists>hops. chain_loop (\<lambda>_. 0) (\<lambda>_. 0) id (substrate_run_get demo_sub h) demo_next 5 [] f = (Inr hops, f) \<and>
     length hops = 2"
  by (simp add: numeral_eq_Suc demo_next_def substrate_run_get_def demo_sub_def STREAM_ONLY_def)

lemma demo_with_fork:
  "with_fork (fork_env.truncate demo_sub) ''f0'' [''repo''] [''tmp''] None body demo_fs =
     (case body \<lparr>fh_path = [''tmp'', ''f0''], fh_scratch_root = [''tmp''],
        fh_substrate = ''clonefile'', fh_repo = [''repo'']\<rparr> demo_fs of
      (r, f) \<Rightarrow> (r, [Making, Verifying, Running, TearingDown], f))"
  by (simp add: with_fork_def run_fork_def demo_sub_def fork_env.defs validate_target_def
      verify_canonical_def Let_def split: prod.split)

lemma demo_sub_fs: "sub_fs demo_sub = id"
  by (simp add: demo_sub_def)

lemma demo_chain_runs: "\<exists>c tr f. demo_chain = (Inr c, tr, f) \<and> length (ch_hops c) = 2"
proof -
  let ?h = "\<lparr>fh_path = [''tmp'', ''f0''], fh_scratch_root = [''tmp''],
      fh_substrate = ''clonefile'', fh_repo = [''repo'']\<rparr>"
  obtain f1 where f1: "apply_write ''.sfx-write-1'' 420 1 demo_sw demo_fs = (Inr (), f1)"
    using demo_sw_steps(5) by (cases "apply_write ''.sfx-write-1'' 420 1 demo_sw demo_fs") auto
  have "substrate_apply demo_sub ?h demo_sw demo_fs = (Inr (), f1)"
    using f1 by (simp add: substrate_apply_def demo_sw_steps demo_sub_def del: One_nat_def)
  moreover obtain hops where
    "chain_loop (\<lambda>_. 0) (\<lambda>_. 0) id (substrate_run_get demo_sub ?h) demo_next 5 [] f1 = (Inr hops, f1)"
    "length hops = 2"
    using demo_chain_loop by blast
  ultimately show ?thesis
    using demo_sub_fs by (simp add: demo_chain_def run_chain_def demo_with_fork demo_sw_steps)
qed

theorem run_chain_bounded_witness:
  "\<exists>c tr f. demo_chain = (Inr c, tr, f) \<and> length (ch_hops c) = 2 \<and> length (ch_hops c) \<le> 5 \<and> last tr = TearingDown"
proof -
  obtain c tr f where d: "demo_chain = (Inr c, tr, f)" "length (ch_hops c) = 2"
    using demo_chain_runs by blast
  from run_chain_bounded [OF d(1) [unfolded demo_chain_def]] d show ?thesis by blast
qed

text \<open>
  \<^verbatim>\<open>longest_prefix\<close> splits the speculated chain into the longest part that agrees with
  the real one and the rest.
\<close>

theorem longest_prefix_correct:
  "(case longest_prefix xs ys of (p, q) \<Rightarrow>
     xs = p @ q \<and> p = take (length p) ys \<and>
     (q = [] \<or> length p = length ys \<or> hd q \<noteq> ys ! length p))"
  unfolding longest_prefix_def Let_def
  by (induction xs ys rule: longest_prefix_len.induct) auto

theorem longest_prefix_correct_witness:
  "longest_prefix [1, 2, 3 :: nat] [1, 2, 4, 5] = ([1, 2], [3])"
  using longest_prefix_correct [of "[1, 2, 3 :: nat]" "[1, 2, 4, 5]"]
  by (simp add: longest_prefix_def)

text \<open>
  C12: applying a streamed write never touches the repository. Whatever the result, every
  inode that is no directory of the fork keeps its contents, and a write is applied only
  when the target is safe in the fork and in the repository it was copied from: no link on
  the way, no shared file at the end.
\<close>

theorem substrate_apply_safe:
  assumes use: "uses_apply_write tmp mode sub" and ok: "fs_ok f"
    and base: "sub_inode sub f (fh_path h) = Some base" and repo: "sub_inode sub f (fh_repo h) = Some rbase"
    and a: "substrate_apply sub h write f = (r, f')"
  shows "(\<forall>i n. inode_at f i = Some n \<and> \<not> below f base i \<longrightarrow> inode_at f' i = Some n) \<and>
    (f' \<noteq> f \<or> r = Inr () \<longrightarrow> (\<exists>p parts. arg_of (sw_args write) ''path'' = Some p \<and>
       validate_write_path f None p = Inr parts \<and> safe_target f base parts \<and> safe_target f rbase parts))"
proof (cases "\<exists>p parts. arg_of (sw_args write) ''path'' = Some p \<and>
    validate_write_path f (Some base) p = Inr parts \<and> validate_write_path f (Some rbase) p = Inr parts")
  case True
  then obtain p parts where p: "arg_of (sw_args write) ''path'' = Some p"
    "validate_write_path f (Some base) p = Inr parts" "validate_write_path f (Some rbase) p = Inr parts"
    by blast
  then have "sub_apply_write sub (fh_path h) write f = (r, f')"
    using a use base repo by (simp add: substrate_apply_def uses_apply_write_def)
  then have "apply_write tmp mode base write f = (r, f')"
    using use base by (simp add: uses_apply_write_def)
  then consider "f' = f" | c where "write_text_in_fork tmp mode base p c f = (r, f')"
    using p(1) by (auto simp: apply_write_def split: option.splits)
  then have "\<forall>i n. inode_at f i = Some n \<and> \<not> below f base i \<longrightarrow> inode_at f' i = Some n"
  proof cases
    case 2
    from write_text_spec [OF ok 2] validate_InrD [OF p(2), of f] show ?thesis
      using ok unfolding contained_def fs_ok_def by fastforce
  qed simp
  moreover have "validate_write_path f None p = Inr parts" using validate_InrD [OF p(2)] by blast
  ultimately show ?thesis using p validate_safe by blast
next
  case False
  have "f' = f \<and> (\<exists>e. r = Inl e)"
  proof (cases "arg_of (sw_args write) ''path''")
    case None
    with a show ?thesis by (auto simp: substrate_apply_def)
  next
    case (Some p)
    have "\<exists>e. validate_write_path f (Some base) p = Inl e \<or> validate_write_path f (Some rbase) p = Inl e"
    proof (rule ccontr)
      assume "\<not> ?thesis"
      then obtain ps qs where v: "validate_write_path f (Some base) p = Inr ps"
        "validate_write_path f (Some rbase) p = Inr qs"
        by (metis sum.exhaust)
      with validate_InrD [OF v(1), of f] validate_InrD [OF v(2), of f] have "ps = qs" by auto
      with v Some False show False by blast
    qed
    with a use base repo Some show ?thesis
      by (auto simp: substrate_apply_def uses_apply_write_def split: sum.splits)
  qed
  then show ?thesis by auto
qed

theorem substrate_apply_safe_witness:
  "inode_at (snd (substrate_apply demo_sub \<lparr>fh_path = [''tmp'', ''f0''], fh_scratch_root = [''tmp''],
      fh_substrate = ''clonefile'', fh_repo = [''repo'']\<rparr> demo_sw demo_fs)) 0 = Some (Directory [(''a'', 2)])"
proof -
  let ?h = "\<lparr>fh_path = [''tmp'', ''f0''], fh_scratch_root = [''tmp''], fh_substrate = ''clonefile'', fh_repo = [''repo'']\<rparr>"
  let ?r = "substrate_apply demo_sub ?h demo_sw demo_fs"
  have use: "uses_apply_write ''.sfx-write-1'' 420 demo_sub"
    by (simp add: uses_apply_write_def demo_sub_def)
  have s: "sub_inode demo_sub demo_fs (fh_path ?h) = Some 1" "sub_inode demo_sub demo_fs (fh_repo ?h) = Some 0"
    by (simp_all add: demo_sub_def)
  have e: "lookup demo_fs d name = Some i \<Longrightarrow> d \<noteq> 0 \<Longrightarrow> i \<noteq> 0" for d name i
    by (auto simp: lookup_def entries_def inode_at_def demo_fs_def split: if_splits)
  have "below demo_fs 1 i \<Longrightarrow> i \<noteq> 0" for i
    by (induction rule: below.induct) (auto dest: e)
  then have "\<not> below demo_fs 1 0" by blast
  moreover have "inode_at demo_fs 0 = Some (Directory [(''a'', 2)])" by code_simp
  ultimately show ?thesis
    using substrate_apply_safe [OF use demo_fs_ok s, of demo_sw "fst ?r" "snd ?r"] by simp
qed

end
