(* ===== verification/Daemon.thy ===== *)
theory Daemon
  imports Executor_Machine Predictor Gate Chain
begin

text \<open>
  sfx/daemon.py: the sessions, the fence around authoritative writes, and the handlers.

  A session is an object that running requests hold on to, so sessions live in a heap (a
  list; the place is the identity) and \<open>d_sessions\<close> maps session ids to places. Every
  handler runs under the daemon's lock and is one step; \<^verbatim>\<open>resolve\<close>, which waits for a
  job between two locked parts, is two. A handler returns a result or an error and the
  daemon; after an error the changes made so far stay, as in the code.

  The callbacks and the rest of the outside world are arguments, in the record
  \<open>daemon_env\<close>: the clock, the argument resolver, the check for a fork substrate, and
  canonical repository paths. Fresh \<^verbatim>\<open>uuid4\<close> ids are numbers from a counter.
\<close>

section \<open>State\<close>

definition GET_BREADTH :: nat where
  "GET_BREADTH = 2"

definition KIND_POLICY :: "(string, string) dict" where
  "KIND_POLICY =
     [(''read'', ''free''), (''grep'', ''free''), (''search'', ''free''), (''test'', ''free''),
      (''lint'', ''free''), (''typecheck'', ''free''), (''build'', ''free''),
      (''run'', ''free''), (''edit'', ''fork''), (''sub-LLM'', ''free''),
      (''install'', ''never''), (''network'', ''never''), (''append'', ''never''), (''git'', ''never''),
      (''unknown'', ''never''), (''unsafe'', ''never'')]"

text \<open>\<open>dc_id\<close> and \<open>cc_id\<close> are object identities, for the code's \<^verbatim>\<open>is\<close>.\<close>

record dchain =
  dc_id :: nat
  dc_write :: streamed_write
  dc_hops :: "hop list"
  dc_future :: "spec_id option"

record chain_claim =
  cc_id :: nat
  cc_chain :: dchain
  cc_job :: nat
  cc_hop :: nat

record session = executor +
  s_sid :: string
  s_repo :: string
  s_repo_key :: string
  s_scratch :: "string option"
  s_state_dir :: "string option"
  s_role :: string
  s_profile :: profile
  s_predictor :: predictor
  s_stream :: stream_parser
  s_last_event :: rat
  s_chain :: "dchain option"
  s_chain_claim :: "chain_claim option"
  s_chain_cursor :: nat
  s_chain_spec_ids :: "spec_id list"
  s_real_hops :: "hop list"
  s_seq :: nat
  s_flushed :: nat
  s_arg_by_kind :: "(string, pyval) dict"
  s_last_edit_path :: pyval
  s_last_observation :: string
  s_registered_kinds :: "string list option"
  s_spec_disabled :: bool
  s_trajectory :: "(string, pyval) dict list option"
  s_traj_cursor :: nat
  s_streamed_write :: bool
  s_streamed_gets :: "string set"
  s_sptc_enabled :: bool
  s_chain_mutation :: "nat option"
  s_completed :: "(nat, bool) dict"
  s_objs :: nat

record mutation =
  m_sid :: string
  m_write_args :: pyval
  m_conflicted :: bool

record daemon = clocked +
  d_heap :: "session list"
  d_sessions :: "(string, nat) dict"
  d_mutations :: "(string, (nat, mutation) dict) dict"
  d_uuid :: nat
  d_log :: "(string, pyval) dict list"
  d_tables :: "(string, table) dict"

text \<open>\<^verbatim>\<open>resolver.Ctx\<close>.\<close>

record rctx =
  rc_repo :: string
  rc_last_observation :: string
  rc_session :: "(string, pyval) dict"
  rc_last_edit_path :: pyval
  rc_last_edit_contents :: "pyval option"

record daemon_env =
  de_clock :: clock
  de_global :: table
  de_k :: nat
  de_depth_cap :: nat
  de_resolve_args :: "string \<Rightarrow> rctx \<Rightarrow> pyval"
  de_resolve_details :: "string \<Rightarrow> rctx \<Rightarrow> pyval \<times> string \<times> string"
  de_probe :: "string \<Rightarrow> string option \<Rightarrow> py_error + unit"
  de_realpath :: "string \<Rightarrow> string"

definition init_daemon :: daemon where
  "init_daemon = \<lparr>ticks = 0, d_heap = [], d_sessions = [], d_mutations = [], d_uuid = 0, d_log = [],
     d_tables = []\<rparr>"

section \<open>Steps over the daemon\<close>

type_synonym 'r dm = "daemon \<Rightarrow> (py_error + 'r) \<times> daemon"

definition ret :: "'r \<Rightarrow> 'r dm" where
  "ret x d = (Inr x, d)"

definition raise :: "py_error \<Rightarrow> 'r dm" where
  "raise e d = (Inl e, d)"

definition andthen :: "'r dm \<Rightarrow> ('r \<Rightarrow> 't dm) \<Rightarrow> 't dm" where
  "andthen m k d = (case m d of (Inl e, d') \<Rightarrow> (Inl e, d') | (Inr x, d') \<Rightarrow> k x d')"

fun for_each :: "'x list \<Rightarrow> ('x \<Rightarrow> unit dm) \<Rightarrow> unit dm" where
  "for_each [] f = ret ()"
| "for_each (x # xs) f = andthen (f x) (\<lambda>_. for_each xs f)"

definition of_res :: "py_error + 'r \<Rightarrow> 'r dm" where
  "of_res r d = (r, d)"

definition d_clock :: "daemon_env \<Rightarrow> rat dm" where
  "d_clock env d = (Inr (now (de_clock env) d), tick d)"

definition log :: "(string, pyval) dict \<Rightarrow> unit dm" where
  "log rec d = (Inr (), d\<lparr>d_log := d_log d @ [rec]\<rparr>)"

definition fresh_uuid :: "nat dm" where
  "fresh_uuid d = (Inr (d_uuid d), d\<lparr>d_uuid := d_uuid d + 1\<rparr>)"

text \<open>The sessions share the daemon's clock: its count is handed to the session and back.\<close>

definition sess :: "daemon \<Rightarrow> nat \<Rightarrow> session" where
  "sess d i = (d_heap d ! i)\<lparr>ticks := ticks d\<rparr>"

definition put_sess :: "nat \<Rightarrow> session \<Rightarrow> daemon \<Rightarrow> daemon" where
  "put_sess i s d = d\<lparr>d_heap := (d_heap d)[i := s], ticks := ticks s\<rparr>"

definition read_s :: "nat \<Rightarrow> (session \<Rightarrow> 'r) \<Rightarrow> 'r dm" where
  "read_s i f d = (Inr (f (sess d i)), d)"

definition upd_s :: "nat \<Rightarrow> (session \<Rightarrow> session) \<Rightarrow> unit dm" where
  "upd_s i f d = (Inr (), put_sess i (f (sess d i)) d)"

definition run_s :: "nat \<Rightarrow> (session \<Rightarrow> py_error + 'r \<times> session) \<Rightarrow> 'r dm" where
  "run_s i f d =
     (case f (sess d i) of Inl e \<Rightarrow> (Inl e, d) | Inr (x, s') \<Rightarrow> (Inr x, put_sess i s' d))"

definition the_session :: "string \<Rightarrow> nat dm" where
  "the_session sid d =
     (case dict_get (d_sessions d) sid of None \<Rightarrow> (Inl (KeyError sid), d) | Some i \<Rightarrow> (Inr i, d))"

definition active_of :: "daemon \<Rightarrow> string \<Rightarrow> (nat, mutation) dict" where
  "active_of d key = dict_get_default (d_mutations d) key []"

definition active_s :: "nat \<Rightarrow> (nat, mutation) dict dm" where
  "active_s i d = (Inr (active_of d (s_repo_key (d_heap d ! i))), d)"

section \<open>Log entries\<close>

definition spec_val :: "spec_id \<Rightarrow> pyval" where
  "spec_val sid = (case sid of Spec n \<Rightarrow> PStr (''spec'' @ nat_str n))"

definition nat_val :: "nat \<Rightarrow> pyval" where
  "nat_val n = PInt (int n)"

definition str_opt :: "string option \<Rightarrow> pyval" where
  "str_opt v = (case v of None \<Rightarrow> PNone | Some x \<Rightarrow> PStr x)"

fun spec_end_log :: "lrec \<Rightarrow> (string, pyval) dict list" where
  "spec_end_log (LEvent sid ev fs) = []"
| "spec_end_log (LEnd sid st sv ws) =
     (if st \<in> HIT_TERMINALS then []
      else [[(''ev'', PStr ''spec_end''), (''id'', spec_val sid), (''terminal'', PStr st),
             (''wasted_cpu_ms'', PFloat ws)]])"

definition flush_spec_end :: "nat \<Rightarrow> unit dm" where
  "flush_spec_end i =
     andthen (read_s i (\<lambda>s. concat (map spec_end_log (drop (s_flushed s) (records s))))) (\<lambda>recs.
     andthen (for_each recs log) (\<lambda>_.
     upd_s i (\<lambda>s. s\<lparr>s_flushed := length (records s)\<rparr>)))"

definition next_id :: "nat \<Rightarrow> (nat \<times> string) dm" where
  "next_id i =
     andthen (upd_s i (\<lambda>s. s\<lparr>s_seq := s_seq s + 1\<rparr>)) (\<lambda>_.
     read_s i (\<lambda>s. (s_seq s, s_sid s @ '':'' @ nat_str (s_seq s))))"

definition emit_chain :: "nat \<Rightarrow> string \<Rightarrow> string list \<Rightarrow> bool \<Rightarrow> string option \<Rightarrow> nat option \<Rightarrow> unit dm" where
  "emit_chain i verb hops kept reason execution_id =
     andthen (next_id i) (\<lambda>(seq, cid).
     andthen (read_s i epoch) (\<lambda>ep.
     andthen (log ([(''ev'', PStr ''chain''), (''seq'', nat_val seq), (''id'', PStr cid), (''verb'', PStr verb),
         (''hops'', PList (map PStr hops)), (''commit'', PBool kept), (''discard_reason'', str_opt reason),
         (''epoch'', nat_val ep)] @
         (case execution_id of None \<Rightarrow> [] | Some x \<Rightarrow> [(''execution_id'', nat_val x)]))) (\<lambda>_.
     flush_spec_end i)))"

definition emit_resolve :: "daemon_env \<Rightarrow> nat \<Rightarrow> string \<Rightarrow> pyval \<Rightarrow> string \<Rightarrow> pyval \<Rightarrow> rat \<Rightarrow> rat \<Rightarrow> unit dm" where
  "emit_resolve env i kind args outcome result saved_ms t0 =
     andthen (next_id i) (\<lambda>(seq, cid).
     andthen (d_clock env) (\<lambda>t.
     andthen (read_s i epoch) (\<lambda>ep.
     andthen (log [(''ev'', PStr ''resolve''), (''seq'', nat_val seq), (''id'', PStr cid), (''kind'', PStr kind),
         (''args'', args), (''outcome'', PStr outcome), (''has_result'', PBool (result \<noteq> PNone)),
         (''saved_ms'', PFloat saved_ms), (''wall_ms'', PFloat (t - t0)), (''epoch'', nat_val ep)]) (\<lambda>_.
     flush_spec_end i))))"

definition step_tau :: "string option \<Rightarrow> rat" where
  "step_tau verb = (if verb = Some ''fork'' then TAU_FORK else TAU_GET)"

definition round4 :: "rat \<Rightarrow> rat" where
  "round4 p = of_int (py_round (p * 10000)) / 10000"

text \<open>\<^verbatim>\<open>_emit_step\<close>; the context it logs raises when the session has no event yet.\<close>

definition emit_step ::
  "daemon_env \<Rightarrow> nat \<Rightarrow> nat \<Rightarrow> string \<Rightarrow> string option \<Rightarrow> string option \<Rightarrow> (string \<times> rat) list \<Rightarrow>
   pyval \<Rightarrow> string \<Rightarrow> string \<Rightarrow> string \<Rightarrow> rat \<Rightarrow> pyval \<Rightarrow> rat \<Rightarrow> unit dm" where
  "emit_step env i seq cid kind verb ranked args tier gate reason priority spec t0 =
     andthen (read_s i (\<lambda>s. context_key (pr_events (s_predictor s)) (pr_k (s_predictor s)) True)) (\<lambda>ck.
     andthen (of_res ck) (\<lambda>(role, kinds, oc).
     andthen (read_s i (\<lambda>s. sum_list (map (counter_sum \<circ> snd) (pr_counts (s_predictor s))))) (\<lambda>support.
     andthen (run_s i (free_slots (de_clock env))) (\<lambda>free.
     andthen (d_clock env) (\<lambda>t.
     andthen (read_s i epoch) (\<lambda>ep.
     andthen (log [(''ev'', PStr ''step''), (''seq'', nat_val seq), (''id'', PStr cid), (''kind'', str_opt kind),
         (''verb'', str_opt verb), (''ctx'', PStr (key_str role kinds oc)), (''session_support'', PInt support),
         (''proposal'', PList (map (\<lambda>(k, p). PList [PStr k, PFloat (round4 p)]) (take 3 ranked))),
         (''resolved_args'', args), (''args_tier'', PStr tier), (''gate'', PStr gate),
         (''gate_reason'', PStr reason), (''tau'', PFloat (step_tau verb)), (''free_slots'', PInt free),
         (''spec'', spec), (''wall_ms'', PFloat (t - t0)), (''epoch'', nat_val ep)]) (\<lambda>_.
     flush_spec_end i)))))))"

end
