(* ===== verification/Daemon_Handlers.thy ===== *)
theory Daemon_Handlers
  imports Daemon
begin

text \<open>
  The handlers of \<^verbatim>\<open>Daemon\<close> in sfx/daemon.py: sessions, mutations of the repository and the
  fence around them, and the operations on a session's chain.
\<close>

section \<open>Chains and the fence\<close>

definition discard_chain_spec :: "nat \<Rightarrow> spec_id \<Rightarrow> unit dm" where
  "discard_chain_spec i sid =
     run_s i (\<lambda>s. if sid \<in> terminated s then Inr ((), s)
       else case terminal sid ''discarded'' 0 0 s of
              Inl e \<Rightarrow> Inl e | Inr s' \<Rightarrow> Inr ((), discard_spec sid s'))"

definition discard_chain :: "nat \<Rightarrow> nat \<Rightarrow> string \<Rightarrow> unit dm" where
  "discard_chain i from_hop reason =
     andthen (read_s i (\<lambda>s. drop from_hop (s_chain_spec_ids s))) (\<lambda>sids.
     andthen (for_each sids (discard_chain_spec i)) (\<lambda>_.
     andthen (upd_s i (\<lambda>s. s\<lparr>s_chain := None, s_chain_claim := None, s_chain_mutation := None\<rparr>)) (\<lambda>_.
     emit_chain i ''fork'' [] False (Some reason) None)))"

definition bump_s :: "daemon_env \<Rightarrow> nat \<Rightarrow> unit dm" where
  "bump_s env i = run_s i (\<lambda>s. case bump_epoch (de_clock env) s of Inl e \<Rightarrow> Inl e | Inr s' \<Rightarrow> Inr ((), s'))"

definition invalidate_session :: "daemon_env \<Rightarrow> nat \<Rightarrow> unit dm" where
  "invalidate_session env i =
     andthen (read_s i s_chain) (\<lambda>c.
     andthen (if c \<noteq> None then discard_chain i 0 ''epoch_bump'' else ret ()) (\<lambda>_.
     andthen (upd_s i (\<lambda>s. s\<lparr>s_streamed_write := False\<rparr>)) (\<lambda>_.
     andthen (bump_s env i) (\<lambda>_.
     andthen (next_id i) (\<lambda>(seq, cid).
     andthen (read_s i epoch) (\<lambda>ep.
     log [(''ev'', PStr ''epoch''), (''seq'', nat_val seq), (''epoch'', nat_val ep)]))))))"

definition repo_sessions :: "daemon \<Rightarrow> string \<Rightarrow> nat option \<Rightarrow> nat list" where
  "repo_sessions d key preserve =
     filter (\<lambda>i. s_repo_key (d_heap d ! i) = key \<and> preserve \<noteq> Some i) (map snd (d_sessions d))"

definition invalidate_repo :: "daemon_env \<Rightarrow> string \<Rightarrow> nat option \<Rightarrow> unit dm" where
  "invalidate_repo env key preserve d =
     for_each (repo_sessions d key preserve) (invalidate_session env) d"

definition conflict_all :: "string \<Rightarrow> unit dm" where
  "conflict_all key d =
     (case dict_get (d_mutations d) key of
        None \<Rightarrow> (Inr (), d)
      | Some active \<Rightarrow> (Inr (), d\<lparr>d_mutations :=
          dict_set key (map (\<lambda>(mid, m). (mid, m\<lparr>m_conflicted := True\<rparr>)) active) (d_mutations d)\<rparr>))"

definition on_fs_change :: "daemon_env \<Rightarrow> string \<Rightarrow> unit dm" where
  "on_fs_change env sid =
     andthen (the_session sid) (\<lambda>i.
     andthen (read_s i s_repo_key) (\<lambda>key.
     andthen (conflict_all key) (\<lambda>_.
     invalidate_repo env key None)))"

section \<open>Mutations\<close>

definition empty_fs :: fs where
  "empty_fs = \<lparr>inodes = [], next_ino = 0\<rparr>"

definition check_write_path :: "pyval \<Rightarrow> py_error + string list" where
  "check_write_path path = validate_write_path empty_fs None path"

definition is_str :: "pyval \<Rightarrow> bool" where
  "is_str v = (case v of PStr s \<Rightarrow> True | _ \<Rightarrow> False)"

definition check_write_args :: "pyval \<Rightarrow> py_error + unit" where
  "check_write_args v =
     (if v = PNone then Inr ()
      else case v of
        PDict kvs \<Rightarrow>
          (if set (map fst kvs) = {''path'', ''contents''} \<and>
              is_str (opt_val (dict_get kvs ''path'')) \<and> is_str (opt_val (dict_get kvs ''contents''))
           then (case check_write_path (opt_val (dict_get kvs ''path'')) of
                   Inl e \<Rightarrow> Inl e | Inr parts \<Rightarrow> Inr ())
           else Inl (ValueError ''write_args must contain only string path and contents''))
      | _ \<Rightarrow> Inl (ValueError ''write_args must contain only string path and contents''))"

definition add_mutation :: "string \<Rightarrow> string \<Rightarrow> pyval \<Rightarrow> nat \<Rightarrow> unit dm" where
  "add_mutation key sid write_args mid d =
     (let active = active_of d key;
          m = \<lparr>m_sid = sid, m_write_args = write_args, m_conflicted = (active \<noteq> [])\<rparr>
      in (Inr (), d\<lparr>d_mutations := dict_set key (dict_set mid m active) (d_mutations d)\<rparr>))"

definition mutation_begin :: "daemon_env \<Rightarrow> string \<Rightarrow> pyval \<Rightarrow> nat dm" where
  "mutation_begin env sid write_args =
     andthen (the_session sid) (\<lambda>i.
     andthen (of_res (check_write_args write_args)) (\<lambda>_.
     andthen (read_s i s_repo_key) (\<lambda>key.
     andthen (conflict_all key) (\<lambda>_.
     andthen fresh_uuid (\<lambda>mid.
     andthen (add_mutation key sid write_args mid) (\<lambda>_.
     andthen (invalidate_repo env key None) (\<lambda>_.
     ret mid)))))))"

definition chain_future_ok :: "session \<Rightarrow> dchain \<Rightarrow> bool" where
  "chain_future_ok s c =
     (case dc_future c of
        None \<Rightarrow> True
      | Some sid \<Rightarrow>
          (case dict_get (chain_futures s) sid of
             None \<Rightarrow> True
           | Some f \<Rightarrow> f_done f \<longrightarrow> f \<noteq> FCancelled \<and> \<not> f_exception f))"

text \<open>The three tests for keeping the chain; the last reads the repository \<open>f\<close> at \<open>base\<close>.\<close>

definition may_preserve :: "session \<Rightarrow> (nat, mutation) dict \<Rightarrow> nat \<Rightarrow> mutation \<Rightarrow> pyval \<Rightarrow> bool" where
  "may_preserve s active mid m success \<longleftrightarrow>
     success = PBool True \<and> \<not> m_conflicted m \<and> length active = 1 \<and>
     (case s_chain s of
        None \<Rightarrow> False
      | Some c \<Rightarrow> s_chain_mutation s = Some mid \<and> py_eq (m_write_args m) (sw_args (dc_write c)) \<and>
                  chain_future_ok s c)"

definition is_committed :: "fs \<Rightarrow> inum \<Rightarrow> pyval \<Rightarrow> py_error + bool" where
  "is_committed f base args = (case args of PDict kvs \<Rightarrow> write_is_committed f base kvs | _ \<Rightarrow> Inl TypeError)"

definition drop_mutation :: "string \<Rightarrow> nat \<Rightarrow> unit dm" where
  "drop_mutation key mid d =
     (let active = dict_pop mid (active_of d key) in
      (Inr (), d\<lparr>d_mutations := (if active = [] then dict_pop key (d_mutations d)
                                else dict_set key active (d_mutations d))\<rparr>))"

definition mutation_end :: "daemon_env \<Rightarrow> fs \<Rightarrow> inum \<Rightarrow> string \<Rightarrow> nat \<Rightarrow> pyval \<Rightarrow> bool dm" where
  "mutation_end env f base sid mid success =
     andthen (the_session sid) (\<lambda>i.
     andthen (active_s i) (\<lambda>active.
     case dict_get active mid of
       None \<Rightarrow> raise (ValueError ''unknown mutation for this session'')
     | Some m \<Rightarrow>
         if m_sid m \<noteq> sid then raise (ValueError ''unknown mutation for this session'')
         else
           andthen (read_s i (\<lambda>s. may_preserve s active mid m success)) (\<lambda>may.
           andthen (of_res (if may then is_committed f base (m_write_args m) else Inr False)) (\<lambda>preserve.
           andthen (read_s i s_repo_key) (\<lambda>key.
           andthen (drop_mutation key mid) (\<lambda>_.
           andthen (invalidate_repo env key (if preserve then Some i else None)) (\<lambda>_.
           andthen (upd_s i (\<lambda>s. s\<lparr>s_completed := dict_set mid preserve (s_completed s),
                                  s_chain_mutation := None\<rparr>)) (\<lambda>_.
           ret preserve))))))))"

section \<open>Sessions\<close>

datatype profile_arg = NoProfile | NamedProfile string | GivenProfile profile

definition resolve_profile :: "profile_arg \<Rightarrow> string \<Rightarrow> py_error + profile" where
  "resolve_profile p model =
     (if model \<notin> STATE_MODELS then Inl (ValueError (''unsupported state model: '' @ model))
      else case p of
        GivenProfile q \<Rightarrow> Inr q
      | NamedProfile name \<Rightarrow>
          (case dict_get PROFILES name of
             None \<Rightarrow> Inl (ValueError (''unknown profile: '' @ name)) | Some q \<Rightarrow> Inr q)
      | NoProfile \<Rightarrow> mk_profile \<lparr>emission_format = ''json-stream'', state_model = model,
          interception_grade = ''full'', stream_visibility = Some ''full'', fork_substrate = ''clonefile''\<rparr>)"

text \<open>Where a repository's table is kept: the state directory, or the repository itself.\<close>

definition table_place :: "string \<Rightarrow> string option \<Rightarrow> string" where
  "table_place repo state_dir =
     (case state_dir of Some dir \<Rightarrow> if dir = [] then repo @ ''/.sfx'' else dir | None \<Rightarrow> repo @ ''/.sfx'')"

definition load_repo_table :: "string \<Rightarrow> string option \<Rightarrow> daemon \<Rightarrow> table option" where
  "load_repo_table repo state_dir d = dict_get (d_tables d) (table_place repo state_dir)"

record session_args =
  sa_role :: string
  sa_scratch :: "string option"
  sa_state_model :: string
  sa_profile :: profile_arg
  sa_registered_kinds :: "string list option"
  sa_state_dir :: "string option"
  sa_spec_disabled :: bool
  sa_trajectory :: "(string, pyval) dict list option"
  sa_sptc :: bool

definition new_session ::
  "daemon_env \<Rightarrow> string \<Rightarrow> string \<Rightarrow> session_args \<Rightarrow> profile \<Rightarrow> table option \<Rightarrow> rat \<Rightarrow> session" where
  "new_session env sid repo a prof repo_table t =
     executor.extend (init_executor 4)
       \<lparr>s_sid = sid, s_repo = repo, s_repo_key = de_realpath env repo, s_scratch = sa_scratch a,
        s_state_dir = sa_state_dir a, s_role = sa_role a, s_profile = prof,
        s_predictor = init_predictor (de_global env) (de_k env) repo_table (profile_outcome_visible prof),
        s_stream = init_stream, s_last_event = t, s_chain = None, s_chain_claim = None, s_chain_cursor = 0,
        s_chain_spec_ids = [], s_real_hops = [], s_seq = 0, s_flushed = 0, s_arg_by_kind = [],
        s_last_edit_path = PStr [], s_last_observation = [],
        s_registered_kinds = (case sa_registered_kinds a of Some [] \<Rightarrow> None | ks \<Rightarrow> ks),
        s_spec_disabled = sa_spec_disabled a, s_trajectory = sa_trajectory a, s_traj_cursor = 0,
        s_streamed_write = False, s_streamed_gets = {}, s_sptc_enabled = sa_sptc a, s_chain_mutation = None,
        s_completed = [], s_objs = 0\<rparr>"

definition session_start :: "daemon_env \<Rightarrow> string \<Rightarrow> string \<Rightarrow> session_args \<Rightarrow> nat dm" where
  "session_start env sid repo a =
     andthen (of_res (resolve_profile (sa_profile a) (sa_state_model a))) (\<lambda>prof.
     andthen (\<lambda>d. (Inr (load_repo_table repo (sa_state_dir a) d), d)) (\<lambda>t.
     andthen (d_clock env) (\<lambda>t0.
     (\<lambda>d. (Inr (length (d_heap d)),
           d\<lparr>d_heap := d_heap d @ [new_session env sid repo a prof t t0],
             d_sessions := dict_set sid (length (d_heap d)) (d_sessions d)\<rparr>)))))"

definition persist_table :: "nat \<Rightarrow> unit dm" where
  "persist_table i d =
     (let s = sess d i in
      case persist_repo_table (load_repo_table (s_repo s) (s_state_dir s) d) (pr_counts (s_predictor s)) of
        Inl e \<Rightarrow> (Inl e, d)
      | Inr None \<Rightarrow> (Inr (), d)
      | Inr (Some t) \<Rightarrow> (Inr (), d\<lparr>d_tables := dict_set (table_place (s_repo s) (s_state_dir s)) t (d_tables d)\<rparr>))"

text \<open>\<open>queued\<close>: the session's jobs that no worker thread has started.\<close>

definition end_session_work :: "daemon_env \<Rightarrow> (nat \<Rightarrow> spec_id set) \<Rightarrow> nat \<Rightarrow> unit dm" where
  "end_session_work env queued i =
     andthen (bump_s env i) (\<lambda>_.
     andthen (upd_s i (shutdown_pool (queued i))) (\<lambda>_.
     flush_spec_end i))"

definition session_end :: "daemon_env \<Rightarrow> (nat \<Rightarrow> spec_id set) \<Rightarrow> string \<Rightarrow> unit dm" where
  "session_end env queued sid =
     andthen (the_session sid) (\<lambda>i.
     andthen (active_s i) (\<lambda>active.
     if \<exists>m \<in> snd ` set active. m_sid m = sid
     then raise (ValueError ''cannot end a session with an active mutation'')
     else
       andthen (persist_table i) (\<lambda>_.
       andthen (end_session_work env queued i) (\<lambda>_.
       (\<lambda>d. (Inr (), d\<lparr>d_sessions := dict_pop sid (d_sessions d)\<rparr>))))))"

definition turn_end :: "string \<Rightarrow> unit dm" where
  "turn_end sid = andthen (the_session sid) flush_spec_end"

definition shutdown_daemon :: "daemon_env \<Rightarrow> (nat \<Rightarrow> spec_id set) \<Rightarrow> unit dm" where
  "shutdown_daemon env queued =
     andthen (\<lambda>d. for_each (map snd (d_sessions d)) (end_session_work env queued) d) (\<lambda>_.
     (\<lambda>d. (Inr (), d\<lparr>d_sessions := [], d_mutations := []\<rparr>)))"

text \<open>\<^verbatim>\<open>tick\<close>: the sessions the idle callback is called for.\<close>

definition daemon_tick :: "daemon_env \<Rightarrow> rat \<Rightarrow> string list dm" where
  "daemon_tick env idle_after =
     andthen (d_clock env) (\<lambda>t.
     (\<lambda>d. (Inr (map fst (filter (\<lambda>(sid, i). t - s_last_event (d_heap d ! i) \<ge> idle_after) (d_sessions d))), d)))"

end
