(* ===== verification/Daemon_Calls.thy ===== *)
theory Daemon_Calls
  imports Daemon_Handlers
begin

text \<open>
  The handlers of \<^verbatim>\<open>Daemon\<close> in sfx/daemon.py that speculate and serve: reports of executed
  calls, streamed writes and reads, chains, and \<^verbatim>\<open>resolve\<close>.
\<close>

section \<open>Observing and proposing\<close>

definition observe_s :: "nat \<Rightarrow> rat \<Rightarrow> string \<Rightarrow> string \<Rightarrow> pyval \<Rightarrow> string \<Rightarrow> unit dm" where
  "observe_s i t kind verb args status =
     run_s i (\<lambda>s.
       case mk_tool_event \<lparr>te_t = t, te_kind = kind, te_verb = verb, te_role = s_role s, te_epoch = epoch s,
              te_args = args, te_outcome = Some \<lparr>oc_kind = kind, oc_status = status\<rparr>\<rparr> of
         Inl e \<Rightarrow> Inl e
       | Inr ev \<Rightarrow> (case observe ev (s_predictor s) of
                     Inl e \<Rightarrow> Inl e | Inr pr \<Rightarrow> Inr ((), s\<lparr>s_predictor := pr\<rparr>)))"

definition propose_s :: "nat \<Rightarrow> (string \<times> rat) list dm" where
  "propose_s i = andthen (read_s i (\<lambda>s. propose (s_predictor s))) of_res"

definition policy_of :: "string \<Rightarrow> string dm" where
  "policy_of kind = (case dict_get KIND_POLICY kind of None \<Rightarrow> raise (KeyError kind) | Some v \<Rightarrow> ret v)"

definition rctx_of :: "pyval option \<Rightarrow> session \<Rightarrow> rctx" where
  "rctx_of contents s =
     \<lparr>rc_repo = s_repo s, rc_last_observation = s_last_observation s, rc_session = s_arg_by_kind s,
      rc_last_edit_path = s_last_edit_path s, rc_last_edit_contents = contents\<rparr>"

section \<open>Chains of predicted calls\<close>

definition hop_candidates :: "string list \<Rightarrow> (string \<times> rat) list \<Rightarrow> (string \<times> rat \<times> string) list" where
  "hop_candidates carried ranked =
     (let predicted = map (\<lambda>(kind, p). (kind, p, ''predictor'')) ranked in
      case carried of
        [] \<Rightarrow> predicted
      | kind # _ \<Rightarrow> (kind, 1, ''carried'') # filter (\<lambda>c. fst c \<noteq> kind) predicted)"

fun try_candidates ::
  "daemon_env \<Rightarrow> nat \<Rightarrow> rctx \<Rightarrow> (string \<times> rat \<times> string) list \<Rightarrow> pred_call option dm" where
  "try_candidates env i ctx [] = ret None"
| "try_candidates env i ctx ((kind, p, src) # rest) =
     (let verb = (case dict_get KIND_POLICY kind of None \<Rightarrow> ''never'' | Some v \<Rightarrow> v);
          args = (if verb = ''free'' then de_resolve_args env kind ctx else PNone);
          (res, tier, resolution) = de_resolve_details env kind ctx
      in andthen (run_s i (free_slots (de_clock env))) (\<lambda>free.
         let a = admit \<lparr>c_kind = kind, c_verb = verb, c_p = p, c_args = val_opt args,
                        c_hidden_ms = 0, c_cost_ms = 1\<rparr> free;
             reason = (if a_reason a = ''unresolved_args''
                       then (if resolution \<noteq> ''resolved'' then resolution else a_reason a) else a_reason a)
         in andthen (read_s i (\<lambda>s. (s_sid s, epoch s))) (\<lambda>(sid, ep).
            andthen (log [(''ev'', PStr ''chain_prediction''), (''session'', PStr sid), (''kind'', PStr kind),
              (''verb'', PStr verb), (''source'', PStr src),
              (''probability'', if src = ''predictor'' then PFloat p else PNone), (''resolved_args'', args),
              (''args_tier'', PStr tier), (''gate'', PStr (a_action a)), (''gate_reason'', PStr reason),
              (''epoch'', nat_val ep)]) (\<lambda>_.
            if a_action a = ''execute'' then ret (Some (kind, verb, args))
            else if reason = ''no_slots'' then ret None
            else try_candidates env i ctx rest))))"

text \<open>
  The closure \<^verbatim>\<open>_next_hop\<close> makes: \<open>prior\<close> and \<open>carried\<close> are its captured variables, handed
  in and back.
\<close>

definition observe_prior :: "daemon_env \<Rightarrow> nat \<Rightarrow> string option \<Rightarrow> string list \<Rightarrow> unit dm" where
  "observe_prior env i prior outcomes =
     (if outcomes = [] then ret ()
      else andthen (d_clock env) (\<lambda>t.
           case prior of
             None \<Rightarrow> raise (KeyError ''None'')
           | Some kind \<Rightarrow> andthen (policy_of kind) (\<lambda>verb. observe_s i t kind verb (PDict []) (last outcomes))))"

definition next_hop ::
  "daemon_env \<Rightarrow> nat \<Rightarrow> pyval option \<Rightarrow> string option \<Rightarrow> string list \<Rightarrow> string list \<Rightarrow>
   (pred_call option \<times> string option \<times> string list) dm" where
  "next_hop env i contents prior carried outcomes =
     andthen (observe_prior env i prior outcomes) (\<lambda>_.
     andthen (propose_s i) (\<lambda>ranked.
     if hop_candidates carried ranked = []
     then andthen (read_s i (\<lambda>s. (s_sid s, epoch s))) (\<lambda>(sid, ep).
          andthen (log [(''ev'', PStr ''chain_prediction''), (''session'', PStr sid), (''gate'', PStr ''reject''),
             (''gate_reason'', PStr ''no_proposal''), (''epoch'', nat_val ep)]) (\<lambda>_.
          ret (None, prior, carried)))
     else andthen (read_s i (rctx_of contents)) (\<lambda>ctx.
          andthen (try_candidates env i ctx (hop_candidates carried ranked)) (\<lambda>pred.
          ret (pred, (case pred of None \<Rightarrow> prior | Some (kind, _) \<Rightarrow> Some kind), drop 1 carried)))))"

definition new_obj :: "nat \<Rightarrow> nat dm" where
  "new_obj i = andthen (read_s i s_objs) (\<lambda>n. andthen (upd_s i (\<lambda>s. s\<lparr>s_objs := n + 1\<rparr>)) (\<lambda>_. ret n))"

definition install_chain :: "nat \<Rightarrow> streamed_write \<Rightarrow> hop list \<Rightarrow> spec_id list \<Rightarrow> dchain dm" where
  "install_chain i write hops sids =
     andthen (new_obj i) (\<lambda>n.
     let c = \<lparr>dc_id = n, dc_write = write, dc_hops = hops,
              dc_future = (case sids of [] \<Rightarrow> None | sid # _ \<Rightarrow> Some sid)\<rparr>
     in andthen (upd_s i (\<lambda>s. s\<lparr>s_chain := Some c, s_chain_cursor := 0, s_chain_spec_ids := sids,
                               s_real_hops := []\<rparr>)) (\<lambda>_. ret c))"

definition is_fork_error :: "py_error \<Rightarrow> bool" where
  "is_fork_error e = (case e of ForkError m \<Rightarrow> True | WritePathError m \<Rightarrow> True | _ \<Rightarrow> False)"

definition start_chain :: "daemon_env \<Rightarrow> nat \<Rightarrow> streamed_write \<Rightarrow> pred_call \<Rightarrow> dchain option dm" where
  "start_chain env i write pred =
     (case pred of (kind, verb, args) \<Rightarrow>
        andthen (read_s i (\<lambda>s. de_probe env (s_repo s) (s_scratch s))) (\<lambda>probe.
        case probe of
          Inl e \<Rightarrow>
            if is_fork_error e
            then andthen (upd_s i (\<lambda>s. s\<lparr>s_chain := None\<rparr>)) (\<lambda>_.
                 andthen (emit_chain i (sw_verb write) [] False (Some ''no_substrate'') None) (\<lambda>_.
                 ret None))
            else raise e
        | Inr u \<Rightarrow>
            andthen fresh_uuid (\<lambda>execution_id.
            andthen (run_s i (submit_chain (de_clock env) kind args)) (\<lambda>sid.
            andthen (install_chain i write [\<lparr>hop_kind = kind, hop_verb = verb, hop_args = args,
                hop_outcome = None, hop_result = PNone, hop_duration = 0, hop_launch = 0\<rparr>] [sid]) (\<lambda>c.
            andthen (emit_chain i (sw_verb write) [kind] True None (Some execution_id)) (\<lambda>_.
            ret (Some c)))))))"

text \<open>The chain's job on a worker thread: its log entries around \<^verbatim>\<open>run_hop_in_fork\<close>.\<close>

definition chain_job_start :: "daemon_env \<Rightarrow> nat \<Rightarrow> string \<Rightarrow> rat dm" where
  "chain_job_start env execution_id kind =
     andthen (d_clock env) (\<lambda>started.
     andthen (log [(''ev'', PStr ''fork_execution''), (''execution_id'', nat_val execution_id), (''kind'', PStr kind),
        (''phase'', PStr ''started''), (''monotonic_ms'', PFloat started), (''elapsed_ms'', PFloat 0)]) (\<lambda>_.
     ret started))"

definition return_code :: "pyval \<Rightarrow> (string, pyval) dict" where
  "return_code result =
     (case (case result of PTuple xs \<Rightarrow> xs | PList xs \<Rightarrow> xs | _ \<Rightarrow> []) of
        [] \<Rightarrow> []
      | x # xs \<Rightarrow> if length (x # xs) \<in> {2, 3}
                  then (case last (x # xs) of PInt n \<Rightarrow> [(''return_code'', PInt n)] | _ \<Rightarrow> [])
                  else [])"

definition chain_job_end ::
  "daemon_env \<Rightarrow> nat \<Rightarrow> spec_id \<Rightarrow> nat \<Rightarrow> string \<Rightarrow> rat \<Rightarrow> string + (pyval \<times> rat) \<Rightarrow> unit dm" where
  "chain_job_end env i sid execution_id kind started outcome =
     andthen (d_clock env) (\<lambda>ended.
     andthen (log (case outcome of
        Inl error_type \<Rightarrow> [(''ev'', PStr ''fork_execution''), (''execution_id'', nat_val execution_id),
          (''kind'', PStr kind), (''phase'', PStr ''error''), (''monotonic_ms'', PFloat ended),
          (''elapsed_ms'', PFloat (ended - started)), (''error_type'', PStr error_type)]
      | Inr (result, dur) \<Rightarrow> [(''ev'', PStr ''fork_execution''), (''execution_id'', nat_val execution_id),
          (''kind'', PStr kind), (''phase'', PStr ''completed''), (''monotonic_ms'', PFloat ended),
          (''elapsed_ms'', PFloat (ended - started))] @ return_code result)) (\<lambda>_.
     upd_s i (chain_run sid (case outcome of Inl e \<Rightarrow> None | Inr r \<Rightarrow> Some r))))"

section \<open>Streamed calls\<close>

definition get_item :: "pyval \<Rightarrow> string \<Rightarrow> py_error + pyval" where
  "get_item v k =
     (case v of
        PDict kvs \<Rightarrow> (case dict_get kvs k of None \<Rightarrow> Inl (KeyError k) | Some x \<Rightarrow> Inr x)
      | _ \<Rightarrow> Inl TypeError)"

definition feed_s :: "nat \<Rightarrow> string \<Rightarrow> string \<Rightarrow> string \<Rightarrow> streamed_write option dm" where
  "feed_s i call_id tool delta =
     run_s i (\<lambda>s. case feed call_id tool delta (s_stream s) of (w, p) \<Rightarrow> Inr (w, s\<lparr>s_stream := p\<rparr>))"

text \<open>Whether the stream belongs to the one mutation that is under way, or none is.\<close>

definition stream_allowed :: "(nat, mutation) dict \<Rightarrow> string \<Rightarrow> nat option \<Rightarrow> pyval \<Rightarrow> bool" where
  "stream_allowed active sid mid args \<longleftrightarrow>
     (if active \<noteq> [] \<or> mid \<noteq> None
      then (case (case mid of None \<Rightarrow> None | Some n \<Rightarrow> dict_get active n) of
              None \<Rightarrow> False
            | Some m \<Rightarrow> m_sid m = sid \<and> length active = 1 \<and> \<not> m_conflicted m \<and> py_eq (m_write_args m) args)
      else True)"

definition stream_write :: "daemon_env \<Rightarrow> string \<Rightarrow> nat \<Rightarrow> streamed_write \<Rightarrow> nat option \<Rightarrow> dchain option dm" where
  "stream_write env sid i write mid =
     andthen (read_s i (\<lambda>s. case s_chain s of None \<Rightarrow> []
        | Some c \<Rightarrow> map hop_kind (drop (s_chain_cursor s - 1) (dc_hops c)))) (\<lambda>carried.
     andthen (read_s i s_chain) (\<lambda>old.
     andthen (if mid = None then on_fs_change env sid
              else if old \<noteq> None then discard_chain i 0 ''replaced_stream'' else ret ()) (\<lambda>_.
     andthen (upd_s i (\<lambda>s. s\<lparr>s_chain_mutation := mid, s_streamed_write := True\<rparr>)) (\<lambda>_.
     andthen (of_res (get_item (sw_args write) ''path'')) (\<lambda>path.
     andthen (upd_s i (\<lambda>s. s\<lparr>s_last_edit_path := path\<rparr>)) (\<lambda>_.
     andthen (d_clock env) (\<lambda>t.
     andthen (observe_s i t ''edit'' (sw_verb write) (sw_args write) ''OK'') (\<lambda>_.
     case check_write_path path of
       Inl e \<Rightarrow> andthen (emit_chain i (sw_verb write) [] False (Some ''write_path_error'') None) (\<lambda>_. ret None)
     | Inr parts \<Rightarrow>
         andthen (if de_depth_cap env \<ge> 1
                  then andthen (next_hop env i (arg_of (sw_args write) ''contents'') None carried [])
                         (\<lambda>(pred, prior, rest). ret pred)
                  else ret None) (\<lambda>pred.
         case pred of
           None \<Rightarrow>
             andthen (install_chain i write [] []) (\<lambda>c.
             andthen (emit_chain i (sw_verb write) [] True None None) (\<lambda>_.
             ret (Some c)))
         | Some call \<Rightarrow> start_chain env i write call)))))))))"

definition call_stream_delta ::
  "daemon_env \<Rightarrow> string \<Rightarrow> string \<Rightarrow> string \<Rightarrow> string \<Rightarrow> nat option \<Rightarrow> dchain option dm" where
  "call_stream_delta env sid call_id tool delta mid =
     andthen (the_session sid) (\<lambda>i.
     andthen (d_clock env) (\<lambda>t.
     andthen (upd_s i (\<lambda>s. s\<lparr>s_last_event := t\<rparr>)) (\<lambda>_.
     andthen (read_s i (\<lambda>s. \<not> streams (s_profile s) \<or> s_spec_disabled s)) (\<lambda>off.
     if off then ret None
     else andthen (feed_s i call_id tool delta) (\<lambda>write.
          case write of
            None \<Rightarrow> ret None
          | Some w \<Rightarrow>
              andthen (active_s i) (\<lambda>active.
              if \<not> stream_allowed active sid mid (sw_args w) then ret None
              else stream_write env sid i w mid))))))"

definition stream_get_delta ::
  "daemon_env \<Rightarrow> string \<Rightarrow> string \<Rightarrow> string \<Rightarrow> string \<Rightarrow> pyval option dm" where
  "stream_get_delta env sid call_id kind delta =
     andthen (the_session sid) (\<lambda>i.
     andthen (d_clock env) (\<lambda>t.
     andthen (upd_s i (\<lambda>s. s\<lparr>s_last_event := t\<rparr>)) (\<lambda>_.
     andthen (active_s i) (\<lambda>active.
     andthen (read_s i (\<lambda>s. \<not> streams (s_profile s) \<or> \<not> s_sptc_enabled s \<or> s_spec_disabled s)) (\<lambda>off.
     if off \<or> active \<noteq> [] then ret None
     else
       andthen (run_s i (\<lambda>s. case feed_get call_id delta (s_stream s) of (r, p) \<Rightarrow> Inr (r, s\<lparr>s_stream := p\<rparr>))) (\<lambda>r.
       andthen (of_res r) (\<lambda>(partial, done).
       andthen (read_s i (\<lambda>s. call_id \<in> s_streamed_gets s)) (\<lambda>seen.
       case partial of
         None \<Rightarrow> ret None
       | Some args \<Rightarrow>
           if args = PNone \<or> seen then ret None
           else
             andthen (policy_of kind) (\<lambda>verb.
             if verb \<noteq> ''free'' then ret None
             else
               andthen (upd_s i (\<lambda>s. s\<lparr>s_streamed_gets := insert call_id (s_streamed_gets s)\<rparr>)) (\<lambda>_.
               andthen (run_s i (speculate (de_clock env) kind args 1)) (\<lambda>key.
               ret (Some args))))))))))))"

section \<open>Reports of executed calls\<close>

definition oracle_advance :: "nat \<Rightarrow> (string, pyval) dict option dm" where
  "oracle_advance i =
     run_s i (\<lambda>s. case s_trajectory s of
        None \<Rightarrow> Inr (None, s)
      | Some tr \<Rightarrow>
          let n = s_traj_cursor s + 1; s' = s\<lparr>s_traj_cursor := n\<rparr>
          in Inr (if n \<ge> length tr then None else Some (tr ! n), s'))"

text \<open>Keeping the last command of a kind, for grounding later predictions.\<close>

definition note_command :: "nat \<Rightarrow> string \<Rightarrow> pyval \<Rightarrow> unit dm" where
  "note_command i kind args =
     (if \<not> py_truthy args then ret ()
      else case args of
        PDict kvs \<Rightarrow>
          (if py_truthy (opt_val (dict_get kvs ''cmd''))
           then upd_s i (\<lambda>s. s\<lparr>s_arg_by_kind := dict_set kind (opt_val (dict_get kvs ''cmd'')) (s_arg_by_kind s)\<rparr>)
           else ret ())
      | _ \<Rightarrow> raise AttributeError)"

text \<open>What a report says about the repository: a finished mutation, or an unannounced write.\<close>

definition report_write :: "daemon_env \<Rightarrow> string \<Rightarrow> nat \<Rightarrow> string \<Rightarrow> pyval \<Rightarrow> nat option \<Rightarrow> bool dm" where
  "report_write env sid i verb args mid =
     (case mid of
        Some n \<Rightarrow>
          andthen (read_s i (\<lambda>s. dict_get (s_completed s) n)) (\<lambda>c.
          case c of
            None \<Rightarrow> raise (ValueError ''report requires a completed mutation for this session'')
          | Some preserved \<Rightarrow>
              andthen (upd_s i (\<lambda>s. s\<lparr>s_completed := dict_pop n (s_completed s), s_streamed_write := False\<rparr>)) (\<lambda>_.
              ret preserved))
      | None \<Rightarrow>
          if verb = ''free'' then ret False
          else
            andthen (read_s i (\<lambda>s. s_streamed_write s \<and>
               (case s_chain s of None \<Rightarrow> False | Some c \<Rightarrow> py_eq args (sw_args (dc_write c))))) (\<lambda>same.
            andthen (if same then ret () else on_fs_change env sid) (\<lambda>_.
            andthen (upd_s i (\<lambda>s. s\<lparr>s_streamed_write := False\<rparr>)) (\<lambda>_.
            ret False))))"

text \<open>The body of the loop over the ranked predictions; it returns whether to go on.\<close>

definition try_prediction ::
  "daemon_env \<Rightarrow> nat \<Rightarrow> (nat \<times> string) \<Rightarrow> (string \<times> rat) list \<Rightarrow> (string, pyval) dict option \<Rightarrow> rctx \<Rightarrow> rat \<Rightarrow> rat \<Rightarrow>
   nat \<Rightarrow> nat \<Rightarrow> string \<times> rat \<Rightarrow> (nat \<times> bool) dm" where
  "try_prediction env i ids ranked oracle ctx latency t0 n launched pred =
     (case pred of (kind, p) \<Rightarrow>
      andthen (policy_of kind) (\<lambda>verb.
      andthen (of_res (case oracle of None \<Rightarrow> Inr (de_resolve_args env kind ctx) | Some o' \<Rightarrow> get_item (PDict o') ''args'')) (\<lambda>args.
      let tier = fst (snd (de_resolve_details env kind ctx)) in
      andthen (if launched \<ge> GET_BREADTH then ret 0 else run_s i (free_slots (de_clock env))) (\<lambda>free.
      let a = admit \<lparr>c_kind = kind, c_verb = verb, c_p = p, c_args = val_opt args,
                     c_hidden_ms = latency, c_cost_ms = 1\<rparr> free in
      andthen (read_s i s_spec_disabled) (\<lambda>off.
      andthen (if a_action a = ''execute'' \<and> \<not> off
               then run_s i (speculate (de_clock env) kind args (a_priority a)) else ret None) (\<lambda>key.
      andthen (read_s i (\<lambda>s. case key of None \<Rightarrow> PNone
         | Some k \<Rightarrow> (case dict_get (specs s) k of None \<Rightarrow> PNone
            | Some sp \<Rightarrow> PDict [(''fork_id'', spec_val (x_spec_id sp)), (''kind'', PStr kind)]))) (\<lambda>spec.
      let launched' = (if key = None then launched else launched + 1);
          emit = (\<lambda>(seq, cid). emit_step env i seq cid (Some kind) (Some verb) ranked args tier
                    (a_action a) (a_reason a) (a_priority a) spec t0)
      in andthen (if n = 0 then emit ids
                  else if spec \<noteq> PNone then andthen (next_id i) emit
                  else ret ()) (\<lambda>_.
         ret (launched', a_reason a \<noteq> ''no_slots'')))))))))"

fun try_predictions ::
  "daemon_env \<Rightarrow> nat \<Rightarrow> (nat \<times> string) \<Rightarrow> (string \<times> rat) list \<Rightarrow> (string, pyval) dict option \<Rightarrow> rctx \<Rightarrow> rat \<Rightarrow> rat \<Rightarrow>
   nat \<Rightarrow> nat \<Rightarrow> (string \<times> rat) list \<Rightarrow> unit dm" where
  "try_predictions env i ids ranked oracle ctx latency t0 n launched [] = ret ()"
| "try_predictions env i ids ranked oracle ctx latency t0 n launched (pred # rest) =
     andthen (try_prediction env i ids ranked oracle ctx latency t0 n launched pred) (\<lambda>(launched', go_on).
     if go_on then try_predictions env i ids ranked oracle ctx latency t0 (n + 1) launched' rest else ret ())"

definition oracle_ranked :: "(string, pyval) dict option \<Rightarrow> nat \<Rightarrow> (string \<times> rat) list dm" where
  "oracle_ranked oracle i =
     (case oracle of
        None \<Rightarrow> propose_s i
      | Some o' \<Rightarrow> (case dict_get o' ''kind'' of
                     Some (PStr kind) \<Rightarrow> ret [(kind, 1)] | Some v \<Rightarrow> raise TypeError | None \<Rightarrow> raise (KeyError ''kind'')))"

definition speculate_next :: "daemon_env \<Rightarrow> nat \<Rightarrow> (string, pyval) dict option \<Rightarrow> rat \<Rightarrow> rat \<Rightarrow> unit dm" where
  "speculate_next env i oracle latency t0 =
     andthen (oracle_ranked oracle i) (\<lambda>ranked.
     andthen (next_id i) (\<lambda>(seq, cid).
     if ranked = []
     then emit_step env i seq cid None None ranked PNone ''none'' ''reject'' ''no_proposal'' 0 PNone t0
     else andthen (read_s i (rctx_of None)) (\<lambda>ctx.
          try_predictions env i (seq, cid) ranked oracle ctx latency t0 0 0 ranked)))"

definition call_executed ::
  "daemon_env \<Rightarrow> string \<Rightarrow> string \<Rightarrow> string \<Rightarrow> string \<Rightarrow> pyval \<Rightarrow> rat \<Rightarrow> string \<Rightarrow> nat option \<Rightarrow> bool \<Rightarrow> unit dm" where
  "call_executed env sid kind verb outcome args latency observation mid want_spec =
     andthen (the_session sid) (\<lambda>i.
     andthen (d_clock env) (\<lambda>t0.
     andthen (upd_s i (\<lambda>s. s\<lparr>s_last_event := t0, s_last_observation := observation\<rparr>)) (\<lambda>_.
     andthen (if want_spec then note_command i kind args else ret ()) (\<lambda>_.
     andthen (report_write env sid i verb args mid) (\<lambda>preserved.
     andthen (if preserved then ret () else observe_s i t0 kind verb args outcome) (\<lambda>_.
     andthen (oracle_advance i) (\<lambda>oracle0.
     let oracle = (if oracle0 = Some [] then None else oracle0) in
     andthen (active_s i) (\<lambda>active.
     andthen (read_s i s_spec_disabled) (\<lambda>off.
     if \<not> want_spec \<or> preserved \<or> off \<or> active \<noteq> []
     then andthen (next_id i) (\<lambda>(seq, cid).
          emit_step env i seq cid None None [] PNone ''none'' ''reject''
            (if active \<noteq> [] then ''mutation_active'' else ''speculation_suppressed'') 0 PNone t0)
     else speculate_next env i oracle latency t0)))))))))"

section \<open>Serving\<close>

datatype resolve_wait =
    Answered string pyval
  | Waiting nat rat "nat option" "chain_claim option"

definition same_chain :: "dchain option \<Rightarrow> dchain \<Rightarrow> bool" where
  "same_chain c c' = (case c of None \<Rightarrow> False | Some x \<Rightarrow> dc_id x = dc_id c')"

definition same_claim :: "chain_claim option \<Rightarrow> chain_claim \<Rightarrow> bool" where
  "same_claim c c' = (case c of None \<Rightarrow> False | Some x \<Rightarrow> cc_id x = cc_id c')"

definition call_keys :: "hop list \<Rightarrow> (string \<times> pykey) list" where
  "call_keys hops = map (\<lambda>h. (hop_kind h, canon (hop_args h))) hops"

text \<open>The edit itself, at the head of the chain.\<close>

definition resolve_chain_edit :: "nat \<Rightarrow> dchain \<Rightarrow> string \<Rightarrow> pyval \<Rightarrow> ((string \<times> pyval) + chain_claim) dm" where
  "resolve_chain_edit i c kind args =
     (if \<not> (kind = ''edit'' \<and> py_eq args (sw_args (dc_write c)))
      then andthen (discard_chain i 0 ''prefix_break'') (\<lambda>_. ret (Inl (''miss'', PNone)))
      else andthen (upd_s i (\<lambda>s. s\<lparr>s_chain_cursor := 1,
                 s_chain := (if dc_hops c = [] then None else s_chain s)\<rparr>)) (\<lambda>_.
           ret (Inl (''hit_completed'', opt_val (arg_of (sw_args (dc_write c)) ''contents'')))))"

text \<open>\<^verbatim>\<open>_resolve_chain\<close>: an answer, or the claim to wait for.\<close>

definition resolve_chain :: "nat \<Rightarrow> dchain \<Rightarrow> string \<Rightarrow> pyval \<Rightarrow> ((string \<times> pyval) + chain_claim) dm" where
  "resolve_chain i c kind args =
     andthen (read_s i (\<lambda>s. (s_chain_claim s, s_chain_cursor s, s_real_hops s))) (\<lambda>(held, cursor, real_hops).
     if held \<noteq> None then ret (Inl (''miss'', PNone))
     else if cursor = 0 then resolve_chain_edit i c kind args
     else
       let hop_i = cursor - 1;
           real_calls = call_keys real_hops @ [(kind, canon args)];
           served = fst (longest_prefix (call_keys (dc_hops c)) real_calls)
       in if length served < length real_calls
          then andthen (discard_chain i hop_i ''prefix_break'') (\<lambda>_. ret (Inl (''miss'', PNone)))
          else
            andthen (run_s i (\<lambda>s. Inr (claim kind args s))) (\<lambda>job.
            andthen (read_s i (\<lambda>s. case job of
               None \<Rightarrow> Inr False
             | Some j \<Rightarrow> if hop_i < length (s_chain_spec_ids s)
                         then Inr (jspec (job_at s j) = s_chain_spec_ids s ! hop_i) else Inl IndexError)) (\<lambda>mine.
            andthen (of_res mine) (\<lambda>ok.
            case (ok, job) of
              (True, Some j) \<Rightarrow>
                andthen (policy_of kind) (\<lambda>verb.
                andthen (new_obj i) (\<lambda>n.
                let cl = \<lparr>cc_id = n, cc_chain = c, cc_job = j, cc_hop = hop_i\<rparr> in
                andthen (upd_s i (\<lambda>s. s\<lparr>s_real_hops := s_real_hops s @ [\<lparr>hop_kind = kind, hop_verb = verb,
                     hop_args = args, hop_outcome = None, hop_result = PNone, hop_duration = 0, hop_launch = 0\<rparr>],
                   s_chain_cursor := cursor + 1, s_chain_claim := Some cl\<rparr>)) (\<lambda>_.
                ret (Inr cl))))
            | _ \<Rightarrow> andthen (discard_chain i hop_i ''chain_unavailable'') (\<lambda>_. ret (Inl (''miss'', PNone)))))))"

definition resolve_off :: "session \<Rightarrow> (nat, mutation) dict \<Rightarrow> string \<Rightarrow> bool" where
  "resolve_off s active kind \<longleftrightarrow>
     s_spec_disabled s \<or> active \<noteq> [] \<or>
     (\<not> intercepts (s_profile s) \<and> (case s_registered_kinds s of None \<Rightarrow> False | Some ks \<Rightarrow> kind \<notin> set ks)) \<or>
     dict_get_default KIND_POLICY kind ''never'' = ''never''"

text \<open>The first locked part of \<^verbatim>\<open>resolve\<close>.\<close>

definition resolve_begin :: "daemon_env \<Rightarrow> string \<Rightarrow> string \<Rightarrow> pyval \<Rightarrow> resolve_wait dm" where
  "resolve_begin env sid kind args =
     andthen (the_session sid) (\<lambda>i.
     andthen (d_clock env) (\<lambda>t0.
     andthen (upd_s i (\<lambda>s. s\<lparr>s_last_event := t0\<rparr>)) (\<lambda>_.
     andthen (active_s i) (\<lambda>active.
     andthen (read_s i (\<lambda>s. (resolve_off s active kind, s_chain s, total_saved_ms s))) (\<lambda>(off, c, before).
     if off then andthen (emit_resolve env i kind args ''miss'' PNone 0 t0) (\<lambda>_. ret (Answered ''miss'' PNone))
     else case c of
       None \<Rightarrow> andthen (run_s i (\<lambda>s. Inr (claim kind args s))) (\<lambda>job. ret (Waiting i t0 job None))
     | Some c \<Rightarrow>
         andthen (resolve_chain i c kind args) (\<lambda>r.
         case r of
           Inr cl \<Rightarrow> ret (Waiting i t0 (Some (cc_job cl)) (Some cl))
         | Inl (outcome, result) \<Rightarrow>
             andthen (read_s i total_saved_ms) (\<lambda>after.
             andthen (emit_resolve env i kind args outcome result (after - before) t0) (\<lambda>_.
             ret (Answered outcome result)))))))))"

definition live_session :: "nat \<Rightarrow> daemon \<Rightarrow> bool" where
  "live_session i d \<longleftrightarrow> dict_get (d_sessions d) (s_sid (d_heap d ! i)) = Some i"

text \<open>\<^verbatim>\<open>_finish_chain_claim\<close>.\<close>

definition finish_chain_claim :: "daemon_env \<Rightarrow> nat \<Rightarrow> chain_claim \<Rightarrow> rat \<Rightarrow> bool \<Rightarrow> (string \<times> pyval) dm" where
  "finish_chain_claim env i cl ask_time completed =
     andthen (active_s i) (\<lambda>active.
     andthen (\<lambda>d. (Inr (live_session i d), d)) (\<lambda>live.
     andthen (read_s i (\<lambda>s. same_chain (s_chain s) (cc_chain cl) \<and> same_claim (s_chain_claim s) cl)) (\<lambda>owned.
     andthen (read_s i (\<lambda>s. jepoch (job_at s (cc_job cl)) = epoch s)) (\<lambda>fresh.
     andthen (if owned \<and> live \<and> active = [] \<and> fresh \<and> completed
              then run_s i (finish (Some (cc_job cl)) ask_time) else ret miss) (\<lambda>(outcome, key, result).
     if outcome = ''miss''
     then
       andthen (if owned
                then discard_chain i (cc_hop cl) (if \<not> completed then ''chain_join_timeout'' else ''chain_unavailable'')
                else
                  andthen (run_s i (\<lambda>s.
                    case (if jspec (job_at s (cc_job cl)) \<in> terminated s then Inr s
                          else terminal (jspec (job_at s (cc_job cl))) ''discarded'' 0 0 s) of
                      Inl e \<Rightarrow> Inl e | Inr s' \<Rightarrow> Inr ((), discard_spec (jspec (job_at s' (cc_job cl))) s'))) (\<lambda>_.
                  upd_s i (\<lambda>s. if same_claim (s_chain_claim s) cl then s\<lparr>s_chain_claim := None\<rparr> else s))) (\<lambda>_.
       ret (outcome, result))
     else
       andthen (upd_s i (\<lambda>s. s\<lparr>s_chain_claim := None,
           s_chain := (if cc_hop cl + 1 \<ge> length (dc_hops (cc_chain cl)) then None else s_chain s)\<rparr>)) (\<lambda>_.
       ret (outcome, result)))))))"

definition promote_hit :: "nat \<Rightarrow> string \<Rightarrow> job_key option \<Rightarrow> unit dm" where
  "promote_hit i outcome key =
     run_s i (\<lambda>s. case key of
        None \<Rightarrow> Inr ((), s)
      | Some k \<Rightarrow> if outcome = ''hit_promoted'' \<and> dict_get (specs s) k \<noteq> None
                  then (case promote k s of Inl e \<Rightarrow> Inl e | Inr s' \<Rightarrow> Inr ((), s'))
                  else Inr ((), s))"

definition serve_job :: "daemon_env \<Rightarrow> string \<Rightarrow> nat \<Rightarrow> rat \<Rightarrow> nat option \<Rightarrow> (string \<times> pyval) dm" where
  "serve_job env sid i t0 job =
     andthen (active_s i) (\<lambda>active.
     andthen (\<lambda>d. (Inr (dict_get (d_sessions d) sid = Some i), d)) (\<lambda>live.
     andthen (if \<not> live \<or> active \<noteq> [] then ret miss else run_s i (finish job t0)) (\<lambda>(outcome, key, result).
     andthen (promote_hit i outcome key) (\<lambda>_.
     ret (outcome, result)))))"

text \<open>
  The second locked part, after the wait. \<open>completed\<close> is what \<^verbatim>\<open>job.done.wait(timeout)\<close>
  returned: true only if the job is done, false on a timeout.
\<close>

definition resolve_end ::
  "daemon_env \<Rightarrow> string \<Rightarrow> string \<Rightarrow> pyval \<Rightarrow> nat \<Rightarrow> rat \<Rightarrow> nat option \<Rightarrow> chain_claim option \<Rightarrow> bool \<Rightarrow>
   (string \<times> pyval) dm" where
  "resolve_end env sid kind args i t0 job cl completed =
     andthen (read_s i total_saved_ms) (\<lambda>before.
     andthen (case cl of
        Some c \<Rightarrow> finish_chain_claim env i c t0 completed
      | None \<Rightarrow> serve_job env sid i t0 job) (\<lambda>(outcome, result).
     andthen (read_s i total_saved_ms) (\<lambda>after.
     andthen (emit_resolve env i kind args outcome result (after - before) t0) (\<lambda>_.
     ret (outcome, result)))))"

end
