(* ===== verification/Daemon_Frame.thy ===== *)
theory Daemon_Frame
  imports Daemon_Calls
begin

text \<open>
  How the daemon's handlers may change the sessions: the relation \<open>adv\<close> between a session
  and its later states, and a small calculus (\<open>keeps\<close>) that carries such a relation, and
  the absence of errors, through the handlers' sequencing operations. The handlers are
  treated in Daemon_Machine.
\<close>

section \<open>Sessions over time\<close>

definition valid_spec :: "session \<Rightarrow> spec_id \<Rightarrow> bool" where
  "valid_spec s sid \<longleftrightarrow> (\<exists>n < spec_n s. sid = Spec n)"

definition sess_ok :: "session \<Rightarrow> bool" where
  "sess_ok s \<longleftrightarrow> exec_inv s \<and> (\<forall>sid \<in> set (s_chain_spec_ids s). valid_spec s sid)"

definition adv :: "session \<Rightarrow> session \<Rightarrow> bool" where
  "adv s s' \<longleftrightarrow> sess_ok s' \<and> grows s s' \<and> slots s' = slots s \<and> (pool_open s' \<longrightarrow> pool_open s) \<and>
     (\<forall>i. dropped i s \<longrightarrow> dropped i s') \<and> s_sid s' = s_sid s \<and> s_repo_key s' = s_repo_key s"

text \<open>A step that reserves no job.\<close>

definition quiet :: "session \<Rightarrow> session \<Rightarrow> bool" where
  "quiet s s' \<longleftrightarrow> adv s s' \<and> spec_n s' = spec_n s"

lemma sess_okD: "sess_ok s \<Longrightarrow> exec_inv s" "sess_ok s \<Longrightarrow> cache_inv s"
  by (simp_all add: sess_ok_def exec_invD(1))

lemma advD:
  assumes "adv s s'"
  shows "sess_ok s'" "grows s s'" "s_sid s' = s_sid s" "s_repo_key s' = s_repo_key s"
    "spec_n s \<le> spec_n s'" "epoch s \<le> epoch s'"
  using assms by (simp_all add: adv_def grows_def)

lemma adv_refl: "sess_ok s \<Longrightarrow> adv s s"
  by (simp add: adv_def grows_refl)

lemma adv_trans: "adv s t \<Longrightarrow> adv t u \<Longrightarrow> adv s u"
  unfolding adv_def using grows_trans by metis

lemma quiet_refl: "sess_ok s \<Longrightarrow> quiet s s"
  by (simp add: quiet_def adv_refl)

lemma quiet_trans: "quiet s t \<Longrightarrow> quiet t u \<Longrightarrow> quiet s u"
  unfolding quiet_def using adv_trans by metis

lemma quiet_adv: "quiet s t \<Longrightarrow> adv s t"
  by (simp add: quiet_def)

lemma valid_spec_grows: "valid_spec s sid \<Longrightarrow> grows s s' \<Longrightarrow> valid_spec s' sid"
  by (auto simp: valid_spec_def grows_def intro: less_le_trans)

text \<open>What an executor operation leaves alone: everything a session adds to it.\<close>

lemma session_of_more:
  fixes s s' :: session
  assumes "executor.more s' = executor.more s"
  shows "s_sid s' = s_sid s" "s_repo_key s' = s_repo_key s"
    "s_chain_spec_ids s' = s_chain_spec_ids s" "s_chain s' = s_chain s"
    "s_streamed_write s' = s_streamed_write s" "s_spec_disabled s' = s_spec_disabled s"
  using assms by (cases s; cases s'; simp)+

lemma adv_executor:
  assumes "sess_ok s" and "advances s s'" and "executor.more s' = executor.more s"
  shows "adv s s'"
  using assms session_of_more [OF assms(3)] valid_spec_grows
  by (auto simp: adv_def sess_ok_def advances_def)

lemma executor_more_of_cache:
  fixes s s' :: "'a executor_scheme"
  shows "cache.more s' = cache.more s \<Longrightarrow> executor.more s' = executor.more s"
  by (rule exec_fields_of_more(6))

lemma free_slots_more: "free_slots clk s = Inr (n, s') \<Longrightarrow> executor.more s' = executor.more s"
  by (auto simp: free_slots_def Let_def tick_def split: if_splits)

lemma speculate_more:
  assumes "speculate clk kind args p s = Inr (ko, s')"
  shows "executor.more s' = executor.more s"
proof -
  obtain n s1 where f: "free_slots clk s = Inr (n, s1)"
    using assms by (auto simp: speculate_def split: sum.splits)
  obtain k sid s2 where r: "reserve kind args (now clk s1) False (tick s1) = ((k, sid), s2)"
    by (metis prod.exhaust)
  have "cache.more s2 = cache.more (tick s1)"
    using reserve_more [of kind args "now clk s1" False "tick s1"] by (simp add: r)
  then have "executor.more s2 = executor.more s"
    using executor_more_of_cache [of s2 "tick s1"] free_slots_more [OF f] by (simp add: tick_def)
  with assms f r free_slots_more [OF f] show ?thesis
    by (auto simp: speculate_def Let_def split: if_splits)
qed

lemma submit_chain_more:
  assumes "submit_chain clk kind args s = Inr (sid, s')"
  shows "executor.more s' = executor.more s"
proof -
  obtain k sid' s1 where r: "reserve kind args (now clk s) False (tick s) = ((k, sid'), s1)"
    by (metis prod.exhaust)
  have "cache.more s1 = cache.more (tick s)"
    using reserve_more [of kind args "now clk s" False "tick s"] by (simp add: r)
  then have "executor.more s1 = executor.more s"
    using executor_more_of_cache [of s1 "tick s"] by (simp add: tick_def)
  with assms r show ?thesis by (auto simp: submit_chain_def Let_def split: if_splits)
qed

lemma promote_more: "promote key s = Inr s' \<Longrightarrow> executor.more s' = executor.more s"
  by (auto simp: promote_def split: option.splits)

lemmas cache_op_more = executor_more_of_cache [OF complete_more] executor_more_of_cache [OF discard_more]

lemma worker_run_more: "executor.more (worker_run key outcome s) = executor.more s"
  by (auto simp: worker_run_def Let_def cache_op_more split: option.splits prod.splits)

lemma worker_exit_more: "executor.more (worker_exit key s) = executor.more s"
  by (simp add: worker_exit_def split: option.split)

lemma chain_run_more: "executor.more (chain_run sid outcome s) = executor.more s"
  by (auto simp: chain_run_def Let_def cache_op_more split: option.splits prod.splits)

section \<open>Each session operation\<close>

named_theorems adv_facts \<open>session operations that advance a session\<close>

lemma adv_speculate: "sess_ok s \<Longrightarrow> speculate clk kind args p s = Inr (k, s') \<Longrightarrow> adv s s'"
  by (rule adv_executor [OF _ advances_speculate speculate_more]) (auto dest: sess_okD)

lemma adv_submit_chain: "sess_ok s \<Longrightarrow> submit_chain clk kind args s = Inr (sid, s') \<Longrightarrow> adv s s'"
  by (rule adv_executor [OF _ advances_submit_chain submit_chain_more]) (auto dest: sess_okD)

lemma submit_chain_valid:
  assumes "sess_ok s" and "submit_chain clk kind args s = Inr (sid, s')"
  shows "valid_spec s' sid"
proof -
  obtain k sid' s1 where r: "reserve kind args (now clk s) False (tick s) = ((k, sid'), s1)"
    by (metis prod.exhaust)
  with assms(2) reserve_simps(1,5) [OF r] show ?thesis
    by (auto simp: submit_chain_def Let_def valid_spec_def tick_def split: if_splits)
qed

lemma quiet_free_slots:
  assumes "sess_ok s" and "free_slots clk s = Inr (n, s')"
  shows "quiet s s'"
proof -
  have "spec_n s' = spec_n s" using assms(2) by (auto simp: free_slots_def Let_def tick_def split: if_splits)
  then show ?thesis
    using adv_executor [OF assms(1) advances_free_slots [OF sess_okD(1) [OF assms(1)] assms(2)]
        free_slots_more [OF assms(2)]]
    by (simp add: quiet_def)
qed

lemma quiet_cache_step:
  assumes "sess_ok s" and "spec_n (cache_step clk s x) = spec_n s"
  shows "quiet s (cache_step clk s x)"
  using adv_executor [OF assms(1) advances_cache_step executor_more_of_cache [OF cache_step_more]] assms
  by (simp add: quiet_def sess_okD)

lemma quiet_bump:
  assumes "sess_ok s" and "bump_epoch clk s = Inr s'"
  shows "quiet s s'"
proof -
  have "cache_step clk s OpBump = s'" using assms(2) by (simp add: cache_step_def)
  moreover have "spec_n s' = spec_n s"
    using bump_epoch_spec [OF sess_okD(2) [OF assms(1)], of clk] assms(2) by auto
  ultimately show ?thesis using quiet_cache_step [OF assms(1), of clk OpBump] by simp
qed

lemma quiet_claim:
  assumes "sess_ok s"
  shows "quiet s (snd (claim kind args s))"
proof -
  obtain r s' where c: "claim kind args s = (r, s')" by (metis prod.exhaust)
  then show ?thesis
    using quiet_cache_step [OF assms, of "\<lambda>_. 0" "OpClaim kind args"] claim_frame(4) [OF c]
    by (simp add: cache_step_claim)
qed

lemma quiet_finish:
  assumes "sess_ok s" and f: "finish jo t s = Inr (r, s')"
  shows "quiet s s'"
  using quiet_cache_step [OF assms(1), of "\<lambda>_. 0" "OpFinish jo t"] finish_frame(5) [OF f] f
  by (simp add: cache_step_def)

lemma quiet_discard_spec: "sess_ok s \<Longrightarrow> quiet s (discard_spec sid s)"
  using quiet_cache_step [of s "\<lambda>_. 0" "OpDiscard sid"] by (simp add: cache_step_def frame_simps)

lemma quiet_terminal:
  assumes "sess_ok s" and "valid_spec s sid" and t: "terminal sid st sv ws s = Inr s'"
  shows "quiet s s'"
proof -
  obtain n where n: "sid = Spec n" "n < spec_n s" using assms(2) by (auto simp: valid_spec_def)
  have e: "exec_inv s'" by (rule exec_inv_terminal [OF sess_okD(1) [OF assms(1)] n t])
  have "advances s s'" by (rule advances_fields [OF e]) (use terminal_InrD [OF t] in auto)
  moreover have "executor.more s' = executor.more s" "spec_n s' = spec_n s"
    using terminal_InrD [OF t] by simp_all
  ultimately show ?thesis using adv_executor [OF assms(1)] by (simp add: quiet_def)
qed

lemma quiet_promote:
  assumes "sess_ok s" and "promote key s = Inr s'"
  shows "quiet s s'"
proof -
  have "spec_n s' = spec_n s" using assms(2) by (auto simp: promote_def split: option.splits)
  then show ?thesis
    using adv_executor [OF assms(1) advances_promote [OF sess_okD(1) [OF assms(1)] assms(2)] promote_more [OF assms(2)]]
    by (simp add: quiet_def)
qed

lemma quiet_worker_run: "sess_ok s \<Longrightarrow> quiet s (worker_run key outcome s)"
  using adv_executor [OF _ advances_worker_run worker_run_more]
  by (auto simp: quiet_def sess_okD worker_run_def Let_def frame_simps split: option.splits prod.splits)

lemma quiet_worker_exit: "sess_ok s \<Longrightarrow> quiet s (worker_exit key s)"
  using adv_executor [OF _ advances_worker_exit worker_exit_more]
  by (auto simp: quiet_def sess_okD worker_exit_def split: option.splits)

lemma quiet_chain_run: "sess_ok s \<Longrightarrow> quiet s (chain_run sid outcome s)"
  using adv_executor [OF _ advances_chain_run chain_run_more]
  by (auto simp: quiet_def sess_okD chain_run_def Let_def frame_simps split: option.splits prod.splits)

lemma exec_inv_specs:
  assumes "exec_inv s" and d: "map fst d = map fst (specs s)"
    and "\<forall>p \<in> set d. spec_matches s (fst p) (snd p)"
  shows "exec_inv (s\<lparr>specs := d\<rparr>)"
proof -
  have "fst ` set d = fst ` set (specs s)" using d by (metis set_map)
  then show ?thesis using assms by (simp add: exec_inv_def specs_inv_def slots_inv_def)
qed

lemma exec_inv_shutdown_pool:
  assumes "exec_inv s"
  shows "exec_inv (shutdown_pool q s)"
proof -
  let ?f = "\<lambda>(k :: job_key, sp). (k, sp\<lparr>x_future := map_option (cancel_future q (x_spec_id sp)) (x_future sp)\<rparr>)"
  let ?g = "\<lambda>(sid, f). (sid, cancel_future q sid f)"
  have s': "shutdown_pool q s = (s\<lparr>specs := map ?f (specs s)\<rparr>)
      \<lparr>pool_open := False, chain_futures := map ?g (chain_futures s)\<rparr>"
    by (simp add: shutdown_pool_def)
  have "map fst (map ?f (specs s)) = map fst (specs s)" by (induction "specs s") auto
  moreover have "\<forall>p \<in> set (map ?f (specs s)). spec_matches s (fst p) (snd p)"
    using exec_invD(2) [OF assms] by (auto simp: specs_inv_def spec_matches_def)
  ultimately have "exec_inv (s\<lparr>specs := map ?f (specs s)\<rparr>)"
    by (rule exec_inv_specs [OF assms])
  then show ?thesis unfolding s' by simp
qed

lemma quiet_shutdown_pool:
  assumes "sess_ok s"
  shows "quiet s (shutdown_pool q s)"
  using exec_inv_shutdown_pool [OF sess_okD(1) [OF assms], of q] assms
  by (simp add: quiet_def adv_def sess_ok_def shutdown_pool_def grows_def valid_spec_def dropped_def)

text \<open>A change of the fields a session adds to the executor.\<close>

lemma exec_inv_cong:
  fixes s s' :: "'a executor_scheme"
  assumes "executor.truncate s' = executor.truncate s"
  shows "exec_inv s' = exec_inv s" "advances s s' = exec_inv s" "spec_n s' = spec_n s"
proof -
  have f: "records s' = records s" "terminated s' = terminated s" "total_saved_ms s' = total_saved_ms s"
    "total_wasted_ms s' = total_wasted_ms s" "epoch s' = epoch s" "jobs s' = jobs s"
    "put_counts s' = put_counts s" "serve_counts s' = serve_counts s" "spec_n s' = spec_n s"
    "job_objs s' = job_objs s" "slots s' = slots s" "running s' = running s" "specs s' = specs s"
    "pool_open s' = pool_open s"
    using assms by (simp_all add: executor.defs)
  have c: "cache_inv s' = cache_inv s" by (rule cache_inv_cong) (simp_all add: f)
  have "spec_matches s' = spec_matches s" by (intro ext) (simp add: spec_matches_def f)
  with c show "exec_inv s' = exec_inv s" by (simp add: exec_inv_def specs_inv_def slots_inv_def f)
  then show "advances s s' = exec_inv s"
    by (auto simp: advances_def grows_def dropped_def f)
  show "spec_n s' = spec_n s" by (rule f)
qed

lemma quiet_own:
  fixes s s' :: session
  assumes "sess_ok s" and t: "executor.truncate s' = executor.truncate s"
    and "s_sid s' = s_sid s" "s_repo_key s' = s_repo_key s"
    and "\<forall>sid \<in> set (s_chain_spec_ids s'). valid_spec s sid"
  shows "quiet s s'"
proof -
  have "advances s s'" using exec_inv_cong(2) [OF t] assms(1) by (simp add: sess_ok_def)
  then show ?thesis
    using assms exec_inv_cong [OF t]
    by (simp add: quiet_def adv_def sess_ok_def advances_def valid_spec_def)
qed

lemma quiet_own':
  fixes s s' :: session
  assumes "sess_ok s" and "executor.truncate s' = executor.truncate s"
    and "s_sid s' = s_sid s" "s_repo_key s' = s_repo_key s"
    and "set (s_chain_spec_ids s') \<subseteq> set (s_chain_spec_ids s)"
  shows "quiet s s'"
  by (rule quiet_own [OF assms(1-4)]) (use assms(1,5) in \<open>auto simp: sess_ok_def\<close>)

section \<open>The calculus\<close>

definition ok_daemon :: "daemon \<Rightarrow> bool" where
  "ok_daemon d \<longleftrightarrow> (\<forall>i < length (d_heap d). sess_ok (d_heap d ! i)) \<and>
     (\<forall>(sid, i) \<in> set (d_sessions d). i < length (d_heap d) \<and> s_sid (d_heap d ! i) = sid)"

type_synonym mutations = "(string, (nat, mutation) dict) dict"

definition moves ::
  "(session \<Rightarrow> session \<Rightarrow> bool) \<Rightarrow> (mutations \<Rightarrow> mutations \<Rightarrow> bool) \<Rightarrow> daemon \<Rightarrow> daemon \<Rightarrow> bool" where
  "moves Q D d d' \<longleftrightarrow> ok_daemon d' \<and> D (d_mutations d) (d_mutations d') \<and>
     length (d_heap d) \<le> length (d_heap d') \<and> (\<forall>i < length (d_heap d). Q (d_heap d ! i) (d_heap d' ! i))"

text \<open>From \<open>d\<close>, the step \<open>m\<close> moves the daemon, and if \<open>b\<close> does not raise.\<close>

definition keeps ::
  "(session \<Rightarrow> session \<Rightarrow> bool) \<Rightarrow> (mutations \<Rightarrow> mutations \<Rightarrow> bool) \<Rightarrow> bool \<Rightarrow> 'r dm \<Rightarrow> daemon \<Rightarrow> bool" where
  "keeps Q D b m d \<longleftrightarrow> (ok_daemon d \<longrightarrow> moves Q D d (snd (m d)) \<and> (b \<longrightarrow> (\<exists>x. fst (m d) = Inr x)))"

lemma movesD:
  assumes "moves Q D d d'"
  shows "ok_daemon d'" "D (d_mutations d) (d_mutations d')" "length (d_heap d) \<le> length (d_heap d')"
    "i < length (d_heap d) \<Longrightarrow> Q (d_heap d ! i) (d_heap d' ! i)"
    "i < length (d_heap d) \<Longrightarrow> i < length (d_heap d')"
  using assms by (auto simp: moves_def)

lemma ok_daemonD:
  assumes "ok_daemon d"
  shows "i < length (d_heap d) \<Longrightarrow> sess_ok (d_heap d ! i)"
    "dict_get (d_sessions d) sid = Some i \<Longrightarrow> i < length (d_heap d) \<and> s_sid (d_heap d ! i) = sid"
    "i \<in> set (map snd (d_sessions d)) \<Longrightarrow> i < length (d_heap d)"
  using assms by (auto simp: ok_daemon_def dest: map_of_SomeD)

lemma keepsD:
  assumes "keeps Q D b m d" and "ok_daemon d"
  shows "moves Q D d (snd (m d))" "b \<Longrightarrow> \<exists>x. m d = (Inr x, snd (m d))"
  using assms by (auto simp: keeps_def prod_eq_iff)

lemma keepsI:
  "(ok_daemon d \<Longrightarrow> moves Q D d (snd (m d))) \<Longrightarrow> (b \<Longrightarrow> ok_daemon d \<Longrightarrow> \<exists>x. fst (m d) = Inr x) \<Longrightarrow>
   keeps Q D b m d"
  by (simp add: keeps_def)

lemma keeps_weaken: "keeps Q D True m d \<Longrightarrow> keeps Q D b m d"
  by (simp add: keeps_def)

lemma sess_ok_ticks [simp]: "sess_ok (s\<lparr>ticks := n\<rparr>) = sess_ok s"
  by (simp add: sess_ok_def valid_spec_def)

lemma adv_ticks [simp]: "adv s (s'\<lparr>ticks := n\<rparr>) = adv s s'" "adv (s\<lparr>ticks := n\<rparr>) s' = adv s s'"
  by (simp_all add: adv_def grows_def dropped_def)

lemma quiet_ticks [simp]:
  "quiet s (s'\<lparr>ticks := n\<rparr>) = quiet s s'" "quiet (s\<lparr>ticks := n\<rparr>) s' = quiet s s'"
  by (simp_all add: quiet_def)

lemma andthen_simps [simp]:
  "m d = (Inr x, d') \<Longrightarrow> andthen m k d = k x d'" "m d = (Inl e, d') \<Longrightarrow> andthen m k d = (Inl e, d')"
  by (simp_all add: andthen_def)

lemma dm_simps [simp]:
  "read_s i g d = (Inr (g (sess d i)), d)" "upd_s i f d = (Inr (), put_sess i (f (sess d i)) d)"
  "d_clock env d = (Inr (now (de_clock env) d), tick d)" "log rec d = (Inr (), d\<lparr>d_log := d_log d @ [rec]\<rparr>)"
  "active_s i d = (Inr (active_of d (s_repo_key (d_heap d ! i))), d)"
  "fresh_uuid d = (Inr (d_uuid d), d\<lparr>d_uuid := d_uuid d + 1\<rparr>)"
  by (simp_all add: read_s_def upd_s_def d_clock_def log_def active_s_def fresh_uuid_def)

lemma dm_pure: "ret x d = (Inr x, d)" "raise e d = (Inl e, d)" "of_res r d = (r, d)"
  by (simp_all add: ret_def raise_def of_res_def)

text \<open>
  The interface: a relation on sessions between not reserving a job and advancing, and a
  relation on the open mutations.
\<close>

locale dm_calculus =
  fixes Q :: "session \<Rightarrow> session \<Rightarrow> bool" and D :: "mutations \<Rightarrow> mutations \<Rightarrow> bool"
  assumes Q_trans: "Q s t \<Longrightarrow> Q t u \<Longrightarrow> Q s u"
    and Q_quiet: "quiet s t \<Longrightarrow> Q s t"
    and Q_adv: "Q s t \<Longrightarrow> adv s t"
    and D_refl: "D m m"
    and D_trans: "D m n \<Longrightarrow> D n p \<Longrightarrow> D m p"
begin

lemma Q_ticks: "sess_ok s \<Longrightarrow> Q s (s\<lparr>ticks := n\<rparr>)" "sess_ok s \<Longrightarrow> Q (s\<lparr>ticks := n\<rparr>) s"
  by (rule Q_quiet; simp add: quiet_refl)+

lemma moves_same_heap:
  assumes "ok_daemon d" "D (d_mutations d) (d_mutations d')" "d_heap d' = d_heap d"
    "set (d_sessions d') \<subseteq> set (d_sessions d)"
  shows "moves Q D d d'"
  using assms by (auto simp: moves_def ok_daemon_def Q_quiet quiet_refl)

lemma moves_refl: "ok_daemon d \<Longrightarrow> moves Q D d d"
  by (rule moves_same_heap) (simp_all add: D_refl)

lemma moves_trans:
  assumes "moves Q D d d'" and "moves Q D d' d''"
  shows "moves Q D d d''"
  unfolding moves_def
proof (intro conjI impI allI)
  show "ok_daemon d''" by (rule movesD(1) [OF assms(2)])
  show "D (d_mutations d) (d_mutations d'')"
    by (rule D_trans [OF movesD(2) [OF assms(1)] movesD(2) [OF assms(2)]])
  show "length (d_heap d) \<le> length (d_heap d'')"
    by (rule order_trans [OF movesD(3) [OF assms(1)] movesD(3) [OF assms(2)]])
  fix i assume i: "i < length (d_heap d)"
  show "Q (d_heap d ! i) (d_heap d'' ! i)"
    using movesD(4) [OF assms(1) i] movesD(4) [OF assms(2) movesD(5) [OF assms(1) i]] by (rule Q_trans)
qed

lemma moves_put_sess:
  assumes ok: "ok_daemon d" and "i < length (d_heap d) \<Longrightarrow> Q (sess d i) s'"
  shows "moves Q D d (put_sess i s' d)"
  unfolding moves_def
proof (intro conjI impI allI)
  have Q: "Q (d_heap d ! i) s'" if "i < length (d_heap d)"
    using Q_trans [OF Q_ticks(1) [OF ok_daemonD(1) [OF ok that]]] assms(2) [OF that] by (simp add: sess_def)
  have h: "d_heap (put_sess i s' d) ! j = (if j = i then s' else d_heap d ! j)" if "j < length (d_heap d)" for j
    using that by (simp add: put_sess_def)
  show "Q (d_heap d ! j) (d_heap (put_sess i s' d) ! j)" if "j < length (d_heap d)" for j
    using that Q ok_daemonD(1) [OF ok that] h [OF that] by (auto intro: Q_quiet quiet_refl)
  have j: "sess_ok (d_heap (put_sess i s' d) ! j) \<and>
      s_sid (d_heap (put_sess i s' d) ! j) = s_sid (d_heap d ! j)" if "j < length (d_heap d)" for j
    using that advD(1,3) [OF Q_adv [OF Q]] ok_daemonD(1) [OF ok that] h [OF that] by auto
  have "length (d_heap (put_sess i s' d)) = length (d_heap d)" "d_sessions (put_sess i s' d) = d_sessions d"
    by (simp_all add: put_sess_def)
  with ok j show "ok_daemon (put_sess i s' d)" unfolding ok_daemon_def by fastforce
qed (simp_all add: put_sess_def D_refl)

lemma sess_ok_sess: "ok_daemon d \<Longrightarrow> i < length (d_heap d) \<Longrightarrow> sess_ok (sess d i)"
  by (simp add: sess_def ok_daemonD(1))

lemma keeps_ret: "keeps Q D b (ret x) d"
  by (simp add: dm_pure keeps_def moves_refl)

lemma keeps_raise: "keeps Q D False (raise e) d"
  by (simp add: dm_pure keeps_def moves_refl)

lemma keeps_of_res: "(b \<Longrightarrow> \<exists>x. r = Inr x) \<Longrightarrow> keeps Q D b (of_res r) d"
  by (auto simp: dm_pure keeps_def moves_refl)

lemma keeps_andthen:
  assumes "keeps Q D b m d"
    and "\<And>x d'. m d = (Inr x, d') \<Longrightarrow> ok_daemon d \<Longrightarrow> moves Q D d d' \<Longrightarrow> keeps Q D b (k x) d'"
  shows "keeps Q D b (andthen m k) d"
proof (cases "ok_daemon d")
  case ok: True
  note M = keepsD(1) [OF assms(1) ok]
  show ?thesis
  proof (cases "fst (m d)")
    case (Inl e)
    then have "andthen m k d = (Inl e, snd (m d))" by (simp add: prod_eq_iff)
    with assms(1) Inl show ?thesis by (simp add: keeps_def)
  next
    case (Inr x)
    then have m: "m d = (Inr x, snd (m d))" by (simp add: prod_eq_iff)
    have "keeps Q D b (k x) (snd (m d))" by (rule assms(2) [OF m ok M])
    with m moves_trans [OF M] movesD(1) [OF M] show ?thesis by (auto simp: keeps_def)
  qed
qed (simp add: keeps_def)

lemma keeps_for_each:
  assumes "\<And>x d'. x \<in> set xs \<Longrightarrow> ok_daemon d \<Longrightarrow> moves Q D d d' \<Longrightarrow> keeps Q D b (f x) d'"
  shows "keeps Q D b (for_each xs f) d"
  using assms
proof (induction xs arbitrary: d)
  case Nil
  then show ?case by (simp add: keeps_ret)
next
  case (Cons x xs)
  show ?case unfolding for_each.simps
  proof (rule keeps_andthen)
    have "ok_daemon d \<Longrightarrow> keeps Q D b (f x) d" using Cons.prems [of x d] moves_refl by simp
    then show "keeps Q D b (f x) d" by (cases "ok_daemon d") (simp_all add: keeps_def)
    fix u d' assume ok: "ok_daemon d" and m: "moves Q D d d'"
    show "keeps Q D b (for_each xs f) d'"
      by (rule Cons.IH, rule Cons.prems) (auto intro: moves_trans [OF m] ok)
  qed
qed

lemma keeps_read_s: "keeps Q D b (read_s i f) d"
  by (simp add: keeps_def moves_refl)

lemma keeps_upd_s:
  assumes "\<And>s. ok_daemon d \<Longrightarrow> i < length (d_heap d) \<Longrightarrow> sess_ok s \<Longrightarrow> s = sess d i \<Longrightarrow> Q s (f s)"
  shows "keeps Q D b (upd_s i f) d"
  by (simp add: keeps_def moves_put_sess assms sess_ok_sess)

lemma keeps_run_s:
  assumes "\<And>s x s'. ok_daemon d \<Longrightarrow> i < length (d_heap d) \<Longrightarrow> sess_ok s \<Longrightarrow> s = sess d i \<Longrightarrow>
      f s = Inr (x, s') \<Longrightarrow> Q s s'"
    and "\<And>s. b \<Longrightarrow> sess_ok s \<Longrightarrow> \<exists>r. f s = Inr r" and "b \<Longrightarrow> i < length (d_heap d)"
  shows "keeps Q D b (run_s i f) d"
proof (rule keepsI)
  assume ok: "ok_daemon d"
  show "moves Q D d (snd (run_s i f d))"
    using assms(1) [OF ok _ sess_ok_sess [OF ok] refl]
    by (auto simp: run_s_def moves_refl [OF ok] intro!: moves_put_sess [OF ok] split: sum.split)
  assume b
  then show "\<exists>x. fst (run_s i f d) = Inr x"
    using assms(2) [OF _ sess_ok_sess [OF ok assms(3)]] by (fastforce simp: run_s_def)
qed

lemma keeps_d_clock: "keeps Q D b (d_clock env) d"
  by (simp add: keeps_def moves_same_heap tick_def D_refl)

lemma keeps_log: "keeps Q D b (log rec) d"
  by (simp add: keeps_def moves_same_heap D_refl)

lemma keeps_uuid: "keeps Q D b fresh_uuid d"
  by (simp add: keeps_def moves_same_heap D_refl)

lemma keeps_active: "keeps Q D b (active_s i) d"
  by (simp add: keeps_def moves_refl)

lemma keeps_the_session: "keeps Q D False (the_session sid) d"
  by (simp add: keeps_def the_session_def moves_refl split: option.split)

lemma keeps_reading: "(b \<Longrightarrow> \<exists>x. fst (m d) = Inr x) \<Longrightarrow> snd (m d) = d \<Longrightarrow> keeps Q D b m d"
  by (simp add: keeps_def moves_refl)

lemmas keeps_rules = keeps_ret keeps_andthen keeps_read_s keeps_d_clock keeps_log keeps_uuid keeps_active

end

end
