(* ===== verification/Daemon_Machine.thy ===== *)
theory Daemon_Machine
  imports Daemon_Frame
begin

text \<open>
  The handlers of the daemon in the calculus of Daemon_Frame: what each of them keeps of the
  sessions and of the open mutations.
\<close>

section \<open>Handlers that reserve no job\<close>

context dm_calculus
begin

lemma keeps_own:
  assumes "\<And>s. executor.truncate (f s) = executor.truncate s" "\<And>s. s_sid (f s) = s_sid s"
    "\<And>s. s_repo_key (f s) = s_repo_key s" "\<And>s. set (s_chain_spec_ids (f s)) \<subseteq> set (s_chain_spec_ids s)"
  shows "keeps Q D b (upd_s i f) d"
  by (rule keeps_upd_s) (rule Q_quiet, rule quiet_own', simp_all add: assms)

lemma keeps_flush: "keeps Q D b (flush_spec_end i) d"
  unfolding flush_spec_end_def
  by (intro keeps_rules keeps_for_each keeps_own) (simp_all add: executor.defs)

lemma keeps_next_id: "keeps Q D b (next_id i) d"
  unfolding next_id_def by (intro keeps_rules keeps_own) (simp_all add: executor.defs)

lemma keeps_emit_chain: "keeps Q D b (emit_chain i verb hops kept reason eid) d"
  unfolding emit_chain_def case_prod_unfold by (intro keeps_rules keeps_flush keeps_next_id)

lemma keeps_emit_resolve: "keeps Q D b (emit_resolve env i kind args oc r sv t0) d"
  unfolding emit_resolve_def case_prod_unfold by (intro keeps_rules keeps_flush keeps_next_id)

lemma keeps_free_slots: "keeps Q D False (run_s i (free_slots clk)) d"
  by (rule keeps_run_s) (auto intro: Q_quiet quiet_free_slots)

lemma keeps_emit_step:
  "keeps Q D False (emit_step env i seq cid kind verb ranked args tier gate reason p sp t0) d"
  unfolding emit_step_def case_prod_unfold
  by (intro keeps_rules keeps_of_res keeps_free_slots keeps_flush) simp

lemma keeps_observe: "keeps Q D False (observe_s i t kind verb args status) d"
  unfolding observe_s_def
  by (rule keeps_run_s) (auto intro!: Q_quiet quiet_own' simp: executor.defs split: sum.splits)

lemma keeps_discard_chain_spec:
  assumes "ok_daemon d \<Longrightarrow> i < length (d_heap d) \<Longrightarrow> valid_spec (sess d i) sid" and "b \<Longrightarrow> i < length (d_heap d)"
  shows "keeps Q D b (discard_chain_spec i sid) d"
  unfolding discard_chain_spec_def
proof (rule keeps_run_s)
  fix s x s'
  assume d: "ok_daemon d" "i < length (d_heap d)" and s: "sess_ok s" "s = sess d i"
  assume "(if sid \<in> terminated s then Inr ((), s)
     else case terminal sid ''discarded'' 0 0 s of Inl e \<Rightarrow> Inl e | Inr s' \<Rightarrow> Inr ((), discard_spec sid s'))
     = Inr (x, s')"
  then consider "s' = s" | u where "terminal sid ''discarded'' 0 0 s = Inr u" "s' = discard_spec sid u"
    by (auto split: if_splits sum.splits)
  then show "Q s s'"
  proof cases
    case 1
    with s show ?thesis by (simp add: Q_quiet quiet_refl)
  next
    case 2
    have "quiet s u" using assms d s by (intro quiet_terminal [OF s(1) _ 2(1)]) simp
    moreover have "quiet u s'"
      unfolding 2(2) by (rule quiet_discard_spec) (rule advD(1) [OF quiet_adv [OF \<open>quiet s u\<close>]])
    ultimately show ?thesis using quiet_trans Q_quiet by blast
  qed
next
  show "\<exists>r. (if sid \<in> terminated s then Inr ((), s)
     else case terminal sid ''discarded'' 0 0 s of Inl e \<Rightarrow> Inl e | Inr s' \<Rightarrow> Inr ((), discard_spec sid s'))
     = Inr r" for s
    by (simp add: terminal_ok TERMINAL_STATES_def)
qed (use assms in simp)

lemma keeps_discard_chain:
  assumes i: "i < length (d_heap d)"
  shows "keeps Q D b (discard_chain i from_hop reason) d"
proof -
  have *: "keeps Q D b (for_each (drop n (s_chain_spec_ids (sess d i))) (discard_chain_spec i)) d" for n
  proof (rule keeps_for_each, rule keeps_discard_chain_spec)
    fix sid d'
    assume sid: "sid \<in> set (drop n (s_chain_spec_ids (sess d i)))" and ok: "ok_daemon d"
      and m: "moves Q D d d'"
    show "i < length (d_heap d')" using movesD(5) [OF m i] .
    have "valid_spec (d_heap d ! i) sid"
      using ok_daemonD(1) [OF ok i] in_set_dropD [OF sid] by (simp add: sess_ok_def sess_def)
    then have "valid_spec (d_heap d' ! i) sid"
      using advD(2) [OF Q_adv [OF movesD(4) [OF m i]]] by (rule valid_spec_grows)
    then show "valid_spec (sess d' i) sid" by (simp add: sess_def valid_spec_def)
  qed
  show ?thesis unfolding discard_chain_def
  proof (rule keeps_andthen [OF keeps_read_s])
    fix sids d1
    assume "read_s i (\<lambda>s. drop from_hop (s_chain_spec_ids s)) d = (Inr sids, d1)"
    then have s: "sids = drop from_hop (s_chain_spec_ids (sess d i))" "d1 = d" by auto
    show "keeps Q D b (andthen (for_each sids (discard_chain_spec i)) (\<lambda>_.
        andthen (upd_s i (\<lambda>s. s\<lparr>s_chain := None, s_chain_claim := None, s_chain_mutation := None\<rparr>)) (\<lambda>_.
        emit_chain i ''fork'' [] False (Some reason) None))) d1"
      unfolding s by (intro keeps_andthen [OF *] keeps_andthen keeps_own keeps_emit_chain) (simp_all add: executor.defs)
  qed
qed

lemma bump_total: "cache_inv s \<Longrightarrow> \<exists>s'. bump_epoch clk s = Inr s'"
  using bump_epoch_spec [of s clk] by blast

lemma keeps_bump:
  assumes "i < length (d_heap d)"
  shows "keeps Q D b (bump_s env i) d"
  unfolding bump_s_def
proof (rule keeps_run_s)
  show "Q s s'" if "sess_ok s" "(case bump_epoch (de_clock env) s of Inl e \<Rightarrow> Inl e | Inr s' \<Rightarrow> Inr ((), s')) = Inr (x, s')"
    for s x s'
    using that by (auto intro: Q_quiet quiet_bump split: sum.splits)
  show "\<exists>r. (case bump_epoch (de_clock env) s of Inl e \<Rightarrow> Inl e | Inr s' \<Rightarrow> Inr ((), s')) = Inr r"
    if "sess_ok s" for s
    using bump_total [OF sess_okD(2) [OF that], of "de_clock env"] by auto
qed (use assms in simp)

lemma keeps_invalidate_session:
  assumes i: "i < length (d_heap d)"
  shows "keeps Q D b (invalidate_session env i) d"
  unfolding invalidate_session_def case_prod_unfold
proof (intro keeps_rules keeps_own keeps_next_id)
  fix c d1
  assume "read_s i s_chain d = (Inr c, d1)"
  then have d1: "d1 = d" by simp
  show c: "keeps Q D b (if c \<noteq> None then discard_chain i 0 ''epoch_bump'' else ret ()) d1"
    using keeps_discard_chain [OF i] by (simp add: d1 keeps_ret)
  fix u d2 v d3
  assume "moves Q D d1 d2" "moves Q D d2 d3"
  then show "keeps Q D b (bump_s env i) d3"
    using movesD(5) [OF moves_trans] i unfolding d1 by (blast intro: keeps_bump)
qed (simp_all add: executor.defs)

lemma repo_sessions_valid: "ok_daemon d \<Longrightarrow> i \<in> set (repo_sessions d key p) \<Longrightarrow> i < length (d_heap d)"
  by (auto simp: repo_sessions_def ok_daemon_def)

lemma keeps_invalidate_repo: "keeps Q D b (invalidate_repo env key p) d"
proof -
  have "keeps Q D b (for_each (repo_sessions d key p) (invalidate_session env)) d"
    by (rule keeps_for_each, rule keeps_invalidate_session)
      (use repo_sessions_valid movesD(5) in blast)
  then show ?thesis by (simp add: keeps_def invalidate_repo_def)
qed

lemma stale_moves:
  assumes "moves Q D d d'" and "i < length (d_heap d)" and "stale j (d_heap d ! i)"
  shows "stale j (d_heap d' ! i)"
  using grows_stale [OF advD(2) [OF Q_adv [OF movesD(4) [OF assms(1,2)]]] assms(3)] .

lemma spec_n_moves: "moves Q D d d' \<Longrightarrow> i < length (d_heap d) \<Longrightarrow> spec_n (d_heap d ! i) \<le> spec_n (d_heap d' ! i)"
  using advD(5) [OF Q_adv [OF movesD(4)]] .

text \<open>Invalidation leaves every job of the session stale.\<close>

lemma bump_s_stale:
  assumes ok: "ok_daemon d" and i: "i < length (d_heap d)" and j: "j < spec_n (d_heap d ! i)"
  shows "stale j (d_heap (snd (bump_s env i d)) ! i)"
proof -
  note s = sess_okD(2) [OF sess_ok_sess [OF ok i]]
  obtain s' where s': "bump_epoch (de_clock env) (sess d i) = Inr s'" using bump_total [OF s] by blast
  have "j < spec_n (sess d i)" using j by (simp add: sess_def)
  from bump_makes_stale [OF s s' this] s' i show ?thesis
    by (simp add: bump_s_def run_s_def put_sess_def)
qed

lemma invalidate_session_stale:
  assumes ok: "ok_daemon d" and i: "i < length (d_heap d)" and j: "j < spec_n (d_heap d ! i)"
  shows "stale j (d_heap (snd (invalidate_session env i d)) ! i)"
proof -
  define pre where "pre = andthen (read_s i s_chain) (\<lambda>c. andthen (if c \<noteq> None then discard_chain i 0 ''epoch_bump'' else ret ())
      (\<lambda>_. upd_s i (\<lambda>s. s\<lparr>s_streamed_write := False\<rparr>)))"
  define post where "post = andthen (next_id i) (\<lambda>(seq, cid). andthen (read_s i epoch) (\<lambda>ep.
     log [(''ev'', PStr ''epoch''), (''seq'', nat_val seq), (''epoch'', nat_val ep)]))"
  have split: "invalidate_session env i = andthen pre (\<lambda>_. andthen (bump_s env i) (\<lambda>_. post))"
    by (intro ext) (simp add: pre_def post_def invalidate_session_def andthen_def split: prod.splits sum.splits)
  have "keeps Q D True pre d"
    unfolding pre_def
  proof (intro keeps_rules keeps_own)
    fix c d1
    assume "read_s i s_chain d = (Inr c, d1)"
    then show "keeps Q D True (if c \<noteq> None then discard_chain i 0 ''epoch_bump'' else ret ()) d1"
      using keeps_discard_chain [OF i] by (auto simp: keeps_ret)
  qed (simp_all add: executor.defs)
  from keepsD [OF this ok] obtain u d1 where d1: "pre d = (Inr u, d1)" "moves Q D d d1" by auto
  note i1 = movesD(5) [OF d1(2) i] and ok1 = movesD(1) [OF d1(2)]
  from keepsD [OF keeps_bump [where b = True and env = env, OF i1] ok1] obtain v d2 where
    d2: "bump_s env i d1 = (Inr v, d2)" "moves Q D d1 d2" by auto
  have "j < spec_n (d_heap d1 ! i)" using j spec_n_moves [OF d1(2) i] by simp
  from bump_s_stale [OF ok1 i1 this, of env] d2(1) have st: "stale j (d_heap d2 ! i)" by simp
  have "keeps Q D True post d2"
    unfolding post_def case_prod_unfold by (intro keeps_rules keeps_next_id)
  from keepsD(1) [OF this movesD(1) [OF d2(2)]] have "moves Q D d2 (snd (post d2))" .
  from stale_moves [OF this movesD(5) [OF d2(2) i1] st] show ?thesis
    by (simp add: split d1(1) d2(1))
qed

lemma for_each_stale:
  assumes ok: "ok_daemon d" and "\<forall>i \<in> set is. i < length (d_heap d)" and "i \<in> set is"
    and "j < spec_n (d_heap d ! i)"
  shows "stale j (d_heap (snd (for_each is (invalidate_session env) d)) ! i)"
  using assms
proof (induction "is" arbitrary: d)
  case Nil
  then show ?case by simp
next
  case (Cons k ks)
  have k: "k < length (d_heap d)" using Cons.prems(2) by simp
  from keepsD [OF keeps_invalidate_session [where b = True and env = env, OF k] Cons.prems(1)] obtain u d1 where
    d1: "invalidate_session env k d = (Inr u, d1)" "moves Q D d d1" by auto
  have ks: "\<forall>i \<in> set ks. i < length (d_heap d1)" using Cons.prems(2) movesD(5) [OF d1(2)] by simp
  have i: "i < length (d_heap d)" using Cons.prems(2,3) by blast
  have rest: "moves Q D d1 (snd (for_each ks (invalidate_session env) d1))"
  proof (rule keepsD(1) [OF keeps_for_each movesD(1) [OF d1(2)]])
    show "keeps Q D True (invalidate_session env x) d'" if "x \<in> set ks" "moves Q D d1 d'" for x d'
      using keeps_invalidate_session [OF movesD(5) [OF that(2)]] ks that(1) by blast
  qed
  show ?case
  proof (cases "i = k")
    case True
    have "stale j (d_heap d1 ! i)"
      using invalidate_session_stale [OF Cons.prems(1) k, of j env] Cons.prems(4) True d1(1) by simp
    from stale_moves [OF rest movesD(5) [OF d1(2) i] this] show ?thesis by (simp add: d1(1))
  next
    case False
    with Cons.prems(3) have "i \<in> set ks" by simp
    moreover have "j < spec_n (d_heap d1 ! i)" using Cons.prems(4) spec_n_moves [OF d1(2) i] by simp
    ultimately show ?thesis using Cons.IH [OF movesD(1) [OF d1(2)] ks] by (simp add: d1(1))
  qed
qed

lemma invalidate_repo_stale:
  assumes "ok_daemon d" and "i \<in> set (repo_sessions d key p)" and "j < spec_n (d_heap d ! i)"
  shows "stale j (d_heap (snd (invalidate_repo env key p d)) ! i)"
  unfolding invalidate_repo_def
  by (rule for_each_stale [OF assms(1) _ assms(2,3)]) (use repo_sessions_valid [OF assms(1)] in blast)

text \<open>Sequencing that carries a valid place of the heap, or a valid job.\<close>

lemma keeps_andthen_i:
  assumes "i < length (d_heap d)" and "keeps Q D b m d"
    and "\<And>x d'. i < length (d_heap d') \<Longrightarrow> keeps Q D b (k x) d'"
  shows "keeps Q D b (andthen m k) d"
  by (rule keeps_andthen [OF assms(2)]) (use assms(3) movesD(5) [OF _ assms(1)] in blast)

lemma keeps_andthen_j:
  assumes "i < length (d_heap d)" "j < spec_n (d_heap d ! i)" and "keeps Q D b m d"
    and "\<And>x d'. i < length (d_heap d') \<Longrightarrow> j < spec_n (d_heap d' ! i) \<Longrightarrow> keeps Q D b (k x) d'"
  shows "keeps Q D b (andthen m k) d"
proof (rule keeps_andthen [OF assms(3)])
  fix x d' assume m: "moves Q D d d'"
  show "keeps Q D b (k x) d'"
    by (rule assms(4) [OF movesD(5) [OF m assms(1)]])
      (rule less_le_trans [OF assms(2) spec_n_moves [OF m assms(1)]])
qed

lemma keeps_session:
  assumes "\<And>i. i < length (d_heap d) \<Longrightarrow> keeps Q D False (k i) d"
  shows "keeps Q D False (andthen (the_session sid) k) d"
proof (rule keeps_andthen [OF keeps_the_session])
  fix i d'
  assume "the_session sid d = (Inr i, d')" and "ok_daemon d"
  then show "keeps Q D False (k i) d'"
    using assms ok_daemonD(2) by (fastforce simp: the_session_def split: option.splits)
qed

lemma keeps_if: "keeps Q D b x d \<Longrightarrow> keeps Q D b y d \<Longrightarrow> keeps Q D b (if P then x else y) d"
  by simp

lemma keeps_case_option:
  "(x = None \<Longrightarrow> keeps Q D b f d) \<Longrightarrow> (\<And>y. x = Some y \<Longrightarrow> keeps Q D b (g y) d) \<Longrightarrow>
   keeps Q D b (case x of None \<Rightarrow> f | Some y \<Rightarrow> g y) d"
  by (simp split: option.split)

lemma keeps_case_sum:
  "(\<And>y. x = Inl y \<Longrightarrow> keeps Q D b (f y) d) \<Longrightarrow> (\<And>y. x = Inr y \<Longrightarrow> keeps Q D b (g y) d) \<Longrightarrow>
   keeps Q D b (case x of Inl y \<Rightarrow> f y | Inr y \<Rightarrow> g y) d"
  by (simp split: sum.split)

lemma keeps_case_bool:
  "keeps Q D b f d \<Longrightarrow> keeps Q D b g d \<Longrightarrow> keeps Q D b (case x of True \<Rightarrow> f | False \<Rightarrow> g) d"
  by (simp split: bool.split)

lemma keeps_of_res_raising: "keeps Q D False (of_res r) d"
  by (rule keeps_of_res) simp

lemmas keeps_cases = keeps_if keeps_case_option keeps_case_sum keeps_case_bool

lemma keeps_end_session_work:
  assumes "i < length (d_heap d)"
  shows "keeps Q D b (end_session_work env queued i) d"
  unfolding end_session_work_def
  by (intro keeps_andthen keeps_bump [OF assms] keeps_upd_s keeps_flush)
    (auto intro: Q_quiet quiet_shutdown_pool)

lemma keeps_persist: "keeps Q D False (persist_table i) d"
  by (simp add: keeps_def persist_table_def Let_def moves_refl moves_same_heap D_refl
      split: sum.split option.split)

lemma keeps_session_end: "keeps Q D False (session_end env queued sid) d"
  unfolding session_end_def
proof (rule keeps_session, rule keeps_andthen_i, assumption, rule keeps_active, rule keeps_if, rule keeps_raise,
    rule keeps_andthen_i, assumption, rule keeps_persist, rule keeps_andthen, rule keeps_end_session_work, assumption)
  show "keeps Q D False (\<lambda>d. (Inr (), d\<lparr>d_sessions := dict_pop sid (d_sessions d)\<rparr>)) d'" for d'
    by (simp add: keeps_def moves_same_heap D_refl AList.delete_eq)
qed

lemma keeps_turn_end: "keeps Q D False (turn_end sid) d"
  unfolding turn_end_def by (rule keeps_session, rule keeps_flush)

lemma keeps_tick: "keeps Q D b (daemon_tick env idle_after) d"
  unfolding daemon_tick_def by (intro keeps_rules keeps_reading) simp_all

lemma keeps_claim: "keeps Q D b (run_s i (\<lambda>s. Inr (claim kind args s))) d" if "b \<Longrightarrow> i < length (d_heap d)"
proof (rule keeps_run_s)
  show "Q s s'" if "sess_ok s" "Inr (claim kind args s) = (Inr (x, s') :: py_error + nat option \<times> session)" for s x s'
    using Q_quiet [OF quiet_claim [OF that(1), of kind args]] that(2) by simp
qed (use that in simp_all)

lemma keeps_policy: "keeps Q D False (policy_of kind) d"
  by (simp add: policy_of_def keeps_ret keeps_raise split: option.split)

lemma keeps_new_obj: "keeps Q D b (new_obj i) d"
  unfolding new_obj_def by (intro keeps_rules keeps_own) (simp_all add: executor.defs)

lemma keeps_resolve_chain_edit:
  assumes "i < length (d_heap d)"
  shows "keeps Q D b (resolve_chain_edit i c kind args) d"
  unfolding resolve_chain_edit_def
  by (intro keeps_if keeps_rules keeps_discard_chain keeps_own assms) (simp_all add: executor.defs)

lemma keeps_resolve_chain:
  assumes "i < length (d_heap d)"
  shows "keeps Q D False (resolve_chain i c kind args) d"
  unfolding resolve_chain_def case_prod_unfold Let_def
  by (rule keeps_andthen_i [OF assms])
    (assumption | rule keeps_andthen_i keeps_cases keeps_ret keeps_read_s keeps_resolve_chain_edit
      keeps_discard_chain keeps_claim keeps_of_res_raising keeps_policy keeps_new_obj
    | rule keeps_own; simp add: executor.defs)+

lemma keeps_resolve_begin: "keeps Q D False (resolve_begin env sid kind args) d"
  unfolding resolve_begin_def case_prod_unfold
  by (rule keeps_session)
    (assumption | rule keeps_andthen_i keeps_cases keeps_ret keeps_read_s keeps_d_clock keeps_active
      keeps_emit_resolve keeps_claim keeps_resolve_chain
    | rule keeps_own; simp add: executor.defs)+

lemma keeps_finish:
  assumes "b \<Longrightarrow> i < length (d_heap d)"
  shows "keeps Q D b (run_s i (finish jo t)) d"
  by (rule keeps_run_s) (use assms finish_total in \<open>auto intro: Q_quiet quiet_finish\<close>)

lemma keeps_promote_hit: "keeps Q D False (promote_hit i oc key) d"
  unfolding promote_hit_def
  by (rule keeps_run_s)
    (auto intro: Q_quiet quiet_refl quiet_promote split: option.splits if_splits sum.splits)

lemma keeps_drop_unowned:
  assumes "i < length (d_heap d)" "j < spec_n (d_heap d ! i)"
  shows "keeps Q D b (run_s i (\<lambda>s.
      case (if jspec (job_at s j) \<in> terminated s then Inr s else terminal (jspec (job_at s j)) ''discarded'' 0 0 s) of
        Inl e \<Rightarrow> Inl e | Inr s' \<Rightarrow> Inr ((), discard_spec (jspec (job_at s' j)) s'))) d"
proof (rule keeps_run_s)
  fix s x s'
  assume s: "sess_ok s" "s = sess d i" and
    r: "(case (if jspec (job_at s j) \<in> terminated s then Inr s else terminal (jspec (job_at s j)) ''discarded'' 0 0 s) of
        Inl e \<Rightarrow> Inl e | Inr s' \<Rightarrow> Inr ((), discard_spec (jspec (job_at s' j)) s')) = Inr (x, s')"
  have j: "j < spec_n s" using assms(2) s(2) by (simp add: sess_def)
  have "valid_spec s (jspec (job_at s j))"
    using job_objD(1) [OF sess_okD(2) [OF s(1)] j] j by (auto simp: valid_spec_def)
  from r consider "s' = discard_spec (jspec (job_at s j)) s"
    | u where "terminal (jspec (job_at s j)) ''discarded'' 0 0 s = Inr u" "s' = discard_spec (jspec (job_at u j)) u"
    by (auto split: if_splits sum.splits)
  then obtain u where u: "quiet s u" "s' = discard_spec (jspec (job_at u j)) u"
    by cases (blast intro: quiet_refl [OF s(1)] quiet_terminal [OF s(1) \<open>valid_spec s (jspec (job_at s j))\<close>])+
  have "quiet u s'" unfolding u(2) by (rule quiet_discard_spec [OF advD(1) [OF quiet_adv [OF u(1)]]])
  with u(1) show "Q s s'" using quiet_trans Q_quiet by blast
next
  show "\<exists>r. (case (if jspec (job_at s j) \<in> terminated s then Inr s else terminal (jspec (job_at s j)) ''discarded'' 0 0 s) of
        Inl e \<Rightarrow> Inl e | Inr s' \<Rightarrow> Inr ((), discard_spec (jspec (job_at s' j)) s')) = Inr r" for s :: session
    by (simp add: terminal_ok TERMINAL_STATES_def)
qed (rule assms(1))

lemma keeps_live: "keeps Q D b (\<lambda>d. (Inr (P d), d)) d"
  by (rule keeps_reading) simp_all

lemma keeps_finish_chain_claim:
  assumes "i < length (d_heap d)" "cc_job cl < spec_n (d_heap d ! i)"
  shows "keeps Q D b (finish_chain_claim env i cl t completed) d"
  unfolding finish_chain_claim_def case_prod_unfold
  by (rule keeps_andthen_j [where i = i, OF assms])
    (assumption | rule keeps_andthen_j [where i = i and j = "cc_job cl"] keeps_cases keeps_ret keeps_read_s keeps_active
      keeps_drop_unowned keeps_discard_chain keeps_finish keeps_live
    | rule keeps_own; simp add: executor.defs | simp)+

lemma keeps_serve_job: "keeps Q D False (serve_job env sid i t0 job) d"
  unfolding serve_job_def case_prod_unfold
  by (intro keeps_rules keeps_cases keeps_promote_hit keeps_live keeps_finish) simp_all

lemma keeps_resolve_end:
  assumes "i < length (d_heap d)" "\<And>c. cl = Some c \<Longrightarrow> cc_job c < spec_n (d_heap d ! i)"
  shows "keeps Q D False (resolve_end env sid kind args i t0 job cl completed) d"
  unfolding resolve_end_def case_prod_unfold
proof (intro keeps_rules keeps_case_option keeps_serve_job keeps_emit_resolve)
  fix before d' c
  assume "read_s i total_saved_ms d = (Inr before, d')" and "cl = Some c"
  then show "keeps Q D False (finish_chain_claim env i c t0 completed) d'"
    using keeps_finish_chain_claim [OF assms(1) assms(2)] by simp
qed

lemma keeps_chain_job_start: "keeps Q D b (chain_job_start env eid kind) d"
  unfolding chain_job_start_def by (intro keeps_rules)

lemma keeps_worker:
  "keeps Q D b (upd_s i (worker_run key r)) d" "keeps Q D b (upd_s i (worker_exit key)) d"
  "keeps Q D b (upd_s i (chain_run sid r)) d"
  by (rule keeps_upd_s; auto intro: Q_quiet quiet_worker_run quiet_worker_exit quiet_chain_run)+

lemma keeps_chain_job_end: "keeps Q D b (chain_job_end env i sid eid kind started outcome) d"
  unfolding chain_job_end_def by (intro keeps_rules keeps_worker)

end

section \<open>Handlers that change the open mutations\<close>

definition all_conflicted :: "daemon \<Rightarrow> string \<Rightarrow> bool" where
  "all_conflicted d key \<longleftrightarrow> (\<forall>m \<in> snd ` set (active_of d key). m_conflicted m)"

lemma conflict_all_active:
  "active_of (snd (conflict_all key d)) key' =
     (if key' = key then map (\<lambda>(mid, m). (mid, m\<lparr>m_conflicted := True\<rparr>)) (active_of d key) else active_of d key')"
  by (simp add: conflict_all_def active_of_def dict_get_default_def update_conv split: option.split)

lemma conflict_all_conflicted: "all_conflicted (snd (conflict_all key d)) key"
  by (auto simp: all_conflicted_def conflict_all_active)

lemma active_of_cong: "d_mutations d' = d_mutations d \<Longrightarrow> active_of d' = active_of d"
  by (intro ext) (simp add: active_of_def)

locale dm_calculus_mut = dm_calculus +
  assumes D_conflict: "D (d_mutations d) (d_mutations (snd (conflict_all key d)))"
    and D_add: "all_conflicted d key \<Longrightarrow> D (d_mutations d) (d_mutations (snd (add_mutation key sid wa mid d)))"
    and D_drop: "D (d_mutations d) (d_mutations (snd (drop_mutation key mid d)))"
    and D_none: "D m []"
begin

lemma keeps_conflict: "keeps Q D b (conflict_all key) d"
proof (rule keepsI)
  show "moves Q D d (snd (conflict_all key d))" if "ok_daemon d"
    using that D_conflict [of d key] by (rule moves_same_heap) (simp_all add: conflict_all_def split: option.split)
qed (simp add: conflict_all_def split: option.split)

lemma keeps_add_mutation:
  assumes "all_conflicted d key"
  shows "keeps Q D b (add_mutation key sid wa mid) d"
proof (rule keepsI)
  show "moves Q D d (snd (add_mutation key sid wa mid d))" if "ok_daemon d"
    using that D_add [OF assms, of sid wa mid] by (rule moves_same_heap) (simp_all add: add_mutation_def Let_def)
qed (simp add: add_mutation_def Let_def)

lemma keeps_drop_mutation: "keeps Q D b (drop_mutation key mid) d"
proof (rule keepsI)
  show "moves Q D d (snd (drop_mutation key mid d))" if "ok_daemon d"
    using that D_drop [of d key mid] by (rule moves_same_heap) (simp_all add: drop_mutation_def Let_def)
qed (simp add: drop_mutation_def Let_def)

lemma keeps_on_fs_change: "keeps Q D False (on_fs_change env sid) d"
  unfolding on_fs_change_def
  by (rule keeps_session) (intro keeps_rules keeps_conflict keeps_invalidate_repo)

lemma keeps_mutation_begin: "keeps Q D False (mutation_begin env sid wa) d"
  unfolding mutation_begin_def
proof (rule keeps_session, intro keeps_rules keeps_of_res_raising keeps_conflict keeps_add_mutation keeps_invalidate_repo)
  fix key d1 and u :: unit and d2 mid d3
  assume "conflict_all key d1 = (Inr u, d2)" "fresh_uuid d2 = (Inr mid, d3)"
  then have "d2 = snd (conflict_all key d1)" "d_mutations d3 = d_mutations d2" by auto
  then show "all_conflicted d3 key"
    using conflict_all_conflicted [of key d1] active_of_cong [of d3 d2] by (simp add: all_conflicted_def)
qed

lemma keeps_mutation_end: "keeps Q D False (mutation_end env f base sid mid success) d"
  unfolding mutation_end_def
  by (rule keeps_session)
    (intro keeps_rules keeps_cases keeps_of_res_raising keeps_drop_mutation keeps_invalidate_repo keeps_raise keeps_own;
      simp add: executor.defs)

lemma keeps_propose: "keeps Q D False (propose_s i) d"
  unfolding propose_s_def by (intro keeps_rules keeps_of_res_raising)

lemma keeps_note_command: "keeps Q D False (note_command i kind args) d"
  unfolding note_command_def
  by (auto intro!: keeps_ret keeps_raise keeps_own simp: executor.defs split: pyval.split)

lemma keeps_report_write: "keeps Q D False (report_write env sid i verb args mid) d"
  unfolding report_write_def
  by (intro keeps_rules keeps_cases keeps_raise keeps_own keeps_on_fs_change) (simp_all add: executor.defs)

lemma keeps_oracle_advance: "keeps Q D False (oracle_advance i) d"
  unfolding oracle_advance_def
  by (rule keeps_run_s)
    (auto intro!: Q_quiet quiet_own' simp: executor.defs Let_def split: option.splits)

lemma keeps_shutdown: "keeps Q D b (shutdown_daemon env queued) d"
  unfolding shutdown_daemon_def
proof (rule keeps_andthen)
  have "keeps Q D b (for_each (map snd (d_sessions d)) (end_session_work env queued)) d"
    by (rule keeps_for_each, rule keeps_end_session_work)
      (use ok_daemonD(3) movesD(5) in blast)
  then show "keeps Q D b (\<lambda>d. for_each (map snd (d_sessions d)) (end_session_work env queued) d) d"
    by (simp add: keeps_def)
  show "keeps Q D b (\<lambda>d. (Inr (), d\<lparr>d_sessions := [], d_mutations := []\<rparr>)) d'" for d'
    by (simp add: keeps_def moves_same_heap D_none)
qed

end

section \<open>Handlers that launch speculations\<close>

lemma exec_inv_extend: "exec_inv (executor.extend (init_executor n) m)"
proof -
  have e: "executor.extend (init_executor n) m =
      \<lparr>ticks = 0, records = [], terminated = {}, total_saved_ms = 0, total_wasted_ms = 0, epoch = 0, jobs = [],
       put_counts = [], serve_counts = [], spec_n = 0, job_objs = [], slots = n, running = {}, specs = [],
       chain_futures = [], pool_open = True, \<dots> = m\<rparr>"
    by (simp add: executor.defs init_executor_def init_cache_def init_ledger_def cache.defs ledger.defs)
  show ?thesis
    by (simp add: e exec_inv_def specs_inv_def slots_inv_def cache_inv_def ledger_inv_def ended_ids_def
        objs_inv_def jobs_inv_def counts_inv_def ended_inv_def)
qed

lemma sess_ok_new: "sess_ok (new_session env sid repo a prof t t0)"
  using exec_inv_extend by (simp add: sess_ok_def new_session_def executor.defs)

locale dm_calculus_all = dm_calculus_mut +
  assumes Q_any: "adv s t \<Longrightarrow> Q s t"
begin

lemma keeps_speculate: "keeps Q D False (run_s i (speculate clk kind args p)) d"
  by (rule keeps_run_s) (auto intro: Q_any adv_speculate)

lemma keeps_install:
  assumes "ok_daemon d \<Longrightarrow> i < length (d_heap d) \<Longrightarrow> \<forall>sid \<in> set sids. valid_spec (d_heap d ! i) sid"
    and "i < length (d_heap d)"
  shows "keeps Q D b (install_chain i w hops sids) d"
  unfolding install_chain_def Let_def
proof (intro keeps_andthen keeps_new_obj keeps_ret)
  fix n d'
  assume ok: "ok_daemon d" and m: "moves Q D d d'"
  show "keeps Q D b (upd_s i (\<lambda>s. s\<lparr>s_chain := Some \<lparr>dc_id = n, dc_write = w, dc_hops = hops,
      dc_future = case sids of [] \<Rightarrow> None | sid # _ \<Rightarrow> Some sid\<rparr>, s_chain_cursor := 0,
      s_chain_spec_ids := sids, s_real_hops := []\<rparr>)) d'"
  proof (rule keeps_upd_s, rule Q_quiet, rule quiet_own)
    fix s assume s: "s = sess d' i"
    have "\<forall>sid \<in> set sids. valid_spec s sid"
      using assms(1) [OF ok assms(2)] valid_spec_grows [OF _ advD(2) [OF Q_adv [OF movesD(4) [OF m assms(2)]]]]
      by (simp add: s sess_def valid_spec_def)
    then show "\<forall>sid \<in> set (s_chain_spec_ids (s\<lparr>s_chain := Some \<lparr>dc_id = n, dc_write = w, dc_hops = hops,
      dc_future = case sids of [] \<Rightarrow> None | sid # _ \<Rightarrow> Some sid\<rparr>, s_chain_cursor := 0,
      s_chain_spec_ids := sids, s_real_hops := []\<rparr>)). valid_spec s sid" by simp
  qed (simp_all add: executor.defs)
qed

lemma keeps_submit_install:
  assumes i: "i < length (d_heap d)" and k: "\<And>c d'. keeps Q D False (k c) d'"
  shows "keeps Q D False (andthen (run_s i (submit_chain clk kind args))
      (\<lambda>sid. andthen (install_chain i w hops [sid]) k)) d"
proof (rule keeps_andthen)
  show "keeps Q D False (run_s i (submit_chain clk kind args)) d"
    by (rule keeps_run_s) (auto intro: Q_any adv_submit_chain)
  fix sid d'
  assume r: "run_s i (submit_chain clk kind args) d = (Inr sid, d')" and ok: "ok_daemon d"
    and m: "moves Q D d d'"
  from r obtain s' where s': "submit_chain clk kind args (sess d i) = Inr (sid, s')" "d' = put_sess i s' d"
    by (auto simp: run_s_def split: sum.splits)
  have "valid_spec (d_heap d' ! i) sid"
    using submit_chain_valid [OF sess_ok_sess [OF ok i] s'(1)] i by (simp add: s'(2) put_sess_def)
  then show "keeps Q D False (andthen (install_chain i w hops [sid]) k) d'"
    by (intro keeps_andthen keeps_install k) (simp_all add: movesD(5) [OF m i])
qed

lemma keeps_emit_ret: "keeps Q D b (andthen (emit_chain i verb hops kept reason eid) (\<lambda>_. ret x)) d"
  by (intro keeps_rules keeps_emit_chain)

lemma keeps_start_chain:
  assumes "i < length (d_heap d)"
  shows "keeps Q D False (start_chain env i w pred) d"
  unfolding start_chain_def case_prod_unfold
  by (rule keeps_andthen_i [OF assms])
    (assumption | rule keeps_submit_install keeps_emit_ret keeps_andthen_i keeps_cases keeps_ret keeps_raise keeps_read_s
      keeps_emit_chain keeps_uuid | rule keeps_own; simp add: executor.defs)+

lemma keeps_try_candidates: "keeps Q D False (try_candidates env i ctx cs) d"
proof (induction cs arbitrary: d)
  case Nil
  then show ?case by (simp add: keeps_ret)
next
  case (Cons c cs)
  obtain kind p src where c: "c = (kind, p, src)" by (cases c)
  show ?case unfolding c try_candidates.simps Let_def case_prod_unfold
    by (intro keeps_andthen keeps_free_slots keeps_read_s keeps_log keeps_if keeps_ret Cons.IH)
qed

lemma keeps_next_hop: "keeps Q D False (next_hop env i contents prior carried outcomes) d"
  unfolding next_hop_def observe_prior_def case_prod_unfold
  by (intro keeps_rules keeps_cases keeps_propose keeps_try_candidates keeps_policy keeps_observe keeps_raise)

lemma keeps_stream_write:
  assumes "i < length (d_heap d)"
  shows "keeps Q D False (stream_write env sid i w mid) d"
  unfolding stream_write_def case_prod_unfold
  by (rule keeps_andthen_i [OF assms])
    (assumption | rule keeps_andthen_i keeps_cases keeps_ret keeps_read_s keeps_on_fs_change keeps_discard_chain
      keeps_of_res_raising keeps_d_clock keeps_observe keeps_emit_chain keeps_next_hop keeps_install keeps_start_chain
    | rule keeps_own; simp add: executor.defs | simp)+

lemma keeps_call_stream_delta: "keeps Q D False (call_stream_delta env sid call_id tool delta mid) d"
  unfolding call_stream_delta_def feed_s_def
  by (rule keeps_session)
    (assumption | rule keeps_andthen_i keeps_cases keeps_ret keeps_read_s keeps_d_clock keeps_active keeps_stream_write
    | rule keeps_own; simp add: executor.defs
    | rule keeps_run_s; auto intro!: Q_quiet quiet_own' simp: executor.defs split: prod.splits)+

lemma keeps_stream_get_delta: "keeps Q D False (stream_get_delta env sid call_id kind delta) d"
  unfolding stream_get_delta_def case_prod_unfold
  by (rule keeps_session)
    (assumption | rule keeps_andthen_i keeps_cases keeps_ret keeps_read_s keeps_d_clock keeps_active keeps_policy
      keeps_of_res_raising keeps_speculate
    | rule keeps_own; simp add: executor.defs
    | rule keeps_run_s; auto intro!: Q_quiet quiet_own' simp: executor.defs)+

lemma keeps_try_prediction:
  "keeps Q D False (try_prediction env i ids ranked oracle ctx latency t0 n launched pred) d"
  unfolding try_prediction_def case_prod_unfold Let_def
  by (intro keeps_andthen keeps_policy keeps_of_res_raising keeps_if keeps_ret keeps_free_slots keeps_read_s
      keeps_speculate keeps_emit_step keeps_next_id)

lemma keeps_try_predictions:
  "keeps Q D False (try_predictions env i ids ranked oracle ctx latency t0 n launched preds) d"
proof (induction preds arbitrary: n launched d)
  case Nil
  then show ?case by (simp add: keeps_ret)
next
  case (Cons p ps)
  show ?case unfolding try_predictions.simps case_prod_unfold
    by (intro keeps_andthen keeps_try_prediction keeps_if keeps_ret Cons.IH)
qed

lemma keeps_speculate_next: "keeps Q D False (speculate_next env i oracle latency t0) d"
proof -
  have "keeps Q D False (oracle_ranked oracle i) d" for d
    unfolding oracle_ranked_def
    by (auto intro!: keeps_propose keeps_ret keeps_raise split: option.split pyval.split)
  then show ?thesis unfolding speculate_next_def case_prod_unfold
    by (intro keeps_rules keeps_if keeps_next_id keeps_emit_step keeps_try_predictions)
qed

lemma keeps_call_executed:
  "keeps Q D False (call_executed env sid kind verb outcome args latency obs mid want) d"
  unfolding call_executed_def case_prod_unfold Let_def
  by (rule keeps_session)
    (intro keeps_rules keeps_if keeps_note_command keeps_report_write keeps_observe keeps_oracle_advance
      keeps_next_id keeps_emit_step keeps_speculate_next keeps_own; simp add: executor.defs)

lemma set_dict_set_subset: "set (dict_set k v al) \<subseteq> insert (k, v) (set al)"
  by (induction al) auto

lemma keeps_session_start: "keeps Q D False (session_start env sid repo a) d"
  unfolding session_start_def
proof (intro keeps_andthen keeps_of_res_raising keeps_d_clock keeps_live)
  fix prof t t0 and d' :: daemon
  let ?s = "new_session env sid repo a prof t t0"
  let ?d = "d'\<lparr>d_heap := d_heap d' @ [?s], d_sessions := dict_set sid (length (d_heap d')) (d_sessions d')\<rparr>"
  have "moves Q D d' ?d" if ok: "ok_daemon d'"
    unfolding moves_def
  proof (intro conjI allI impI)
    have "s_sid ?s = sid" by (simp add: new_session_def executor.defs)
    moreover have "sess_ok (d_heap ?d ! i)" if "i < length (d_heap ?d)" for i
      using that ok_daemonD(1) [OF ok] sess_ok_new by (cases "i < length (d_heap d')") (auto simp: nth_append less_Suc_eq)
    moreover have "set (d_sessions ?d) \<subseteq> insert (sid, length (d_heap d')) (set (d_sessions d'))"
      using set_dict_set_subset by simp
    ultimately show "ok_daemon ?d"
      using ok unfolding ok_daemon_def by (fastforce simp: nth_append)
    show "Q (d_heap d' ! i) (d_heap ?d ! i)" if "i < length (d_heap d')" for i
      using that ok_daemonD(1) [OF ok that] by (simp add: nth_append Q_quiet quiet_refl)
  qed (simp_all add: D_refl)
  then show "keeps Q D False (\<lambda>d. (Inr (length (d_heap d)),
      d\<lparr>d_heap := d_heap d @ [new_session env sid repo a prof t t0],
        d_sessions := dict_set sid (length (d_heap d)) (d_sessions d)\<rparr>)) d'"
    by (simp add: keeps_def)
qed

end

end
