(* ===== verification/Daemon_Run.thy ===== *)
theory Daemon_Run
  imports Daemon_Machine
begin

text \<open>
  The daemon of sfx/daemon.py as a machine: the handlers and the worker threads in any order,
  with the requests that are waiting for a job between the two locked parts of
  \<^verbatim>\<open>resolve\<close>. The properties are about every run from every state that satisfies the
  invariant.
\<close>

section \<open>The open mutations of a repository\<close>

text \<open>When two mutations of a repository overlap, both are marked as conflicted.\<close>

definition active_in :: "mutations \<Rightarrow> string \<Rightarrow> (nat, mutation) dict" where
  "active_in m key = dict_get_default m key []"

definition mut_ok :: "mutations \<Rightarrow> bool" where
  "mut_ok m \<longleftrightarrow> (\<forall>key. length (active_in m key) \<le> 1 \<or> (\<forall>p \<in> set (active_in m key). m_conflicted (snd p)))"

definition mut_keep :: "mutations \<Rightarrow> mutations \<Rightarrow> bool" where
  "mut_keep m n \<longleftrightarrow> (mut_ok m \<longrightarrow> mut_ok n)"

lemma active_in: "active_in (d_mutations d) = active_of d"
  by (intro ext) (simp add: active_in_def active_of_def)

lemma mutation_set_all: "(\<forall>p \<in> set al. P (snd p)) \<Longrightarrow> P v \<Longrightarrow> \<forall>p \<in> set (dict_set k v al). P (snd p)"
  by (induction al) auto

lemma dict_set_one: "al \<noteq> [] \<or> length (dict_set k v al) \<le> 1"
  by (cases al) auto

lemma mut_keep_conflict: "mut_keep (d_mutations d) (d_mutations (snd (conflict_all key d)))"
  by (simp add: mut_keep_def mut_ok_def active_in conflict_all_active) auto

lemma mut_keep_add:
  assumes "all_conflicted d key"
  shows "mut_keep (d_mutations d) (d_mutations (snd (add_mutation key sid wa mid d)))"
proof -
  let ?m = "\<lparr>m_sid = sid, m_write_args = wa, m_conflicted = active_of d key \<noteq> []\<rparr>"
  have a: "active_of (snd (add_mutation key sid wa mid d)) k =
      (if k = key then dict_set mid ?m (active_of d key) else active_of d k)" for k
    by (simp add: add_mutation_def Let_def active_of_def)
  have "length (dict_set mid ?m (active_of d key)) \<le> 1 \<or>
      (\<forall>p \<in> set (dict_set mid ?m (active_of d key)). m_conflicted (snd p))"
  proof (cases "active_of d key = []")
    case False
    have "\<forall>p \<in> set (active_of d key). m_conflicted (snd p)"
      using assms by (auto simp: all_conflicted_def)
    from mutation_set_all [OF this, of ?m mid] False show ?thesis by simp
  qed simp
  then show ?thesis by (simp add: mut_keep_def mut_ok_def active_in a)
qed

lemma mut_keep_drop: "mut_keep (d_mutations d) (d_mutations (snd (drop_mutation key mid d)))"
proof -
  have a: "active_of (snd (drop_mutation key mid d)) k =
      (if k = key then dict_pop mid (active_of d key) else active_of d k)" for k
    by (simp add: drop_mutation_def Let_def active_of_def dict_get_default_def update_conv delete_conv')
  have L: "length (dict_pop mid al) \<le> length al" and S: "set (dict_pop mid al) \<subseteq> set al"
    for al :: "(nat, mutation) dict" by (auto simp: AList.delete_eq)
  have "length (dict_pop mid al) \<le> 1 \<or> (\<forall>p \<in> set (dict_pop mid al). m_conflicted (snd p))"
    if "length al \<le> 1 \<or> (\<forall>p \<in> set al. m_conflicted (snd p))" for al :: "(nat, mutation) dict"
    using that
  proof
    assume "length al \<le> 1"
    then show ?thesis using le_trans [OF L [of al]] by blast
  next
    assume "\<forall>p \<in> set al. m_conflicted (snd p)"
    then show ?thesis using S [of al] by blast
  qed
  then show ?thesis by (simp add: mut_keep_def mut_ok_def active_in a)
qed

interpretation handlers: dm_calculus_all adv mut_keep
proof unfold_locales
  show "mut_keep m m" "mut_keep m n \<Longrightarrow> mut_keep n p \<Longrightarrow> mut_keep m p" "mut_keep m []" for m n p
    by (auto simp: mut_keep_def mut_ok_def active_in_def)
qed (auto intro: adv_trans quiet_adv mut_keep_conflict mut_keep_add mut_keep_drop)

text \<open>The fence itself touches no mutation and reserves no job.\<close>

interpretation fence: dm_calculus quiet "(=)"
  by unfold_locales (auto intro: quiet_trans quiet_adv)

text \<open>Handlers that may touch mutations but reserve no job.\<close>

interpretation quiet_handlers: dm_calculus_mut quiet "\<lambda>_ _. True"
  by unfold_locales (auto intro: quiet_trans quiet_adv)

section \<open>The machine\<close>

record request =
  rq_sid :: string
  rq_kind :: string
  rq_args :: pyval
  rq_place :: nat
  rq_t0 :: rat
  rq_job :: "nat option"
  rq_claim :: "chain_claim option"

record config =
  c_daemon :: daemon
  c_waiting :: "request list"

datatype daemon_op =
    DStart string string session_args
  | DExecuted string string string string pyval rat string "nat option" bool
  | DStream string string string string "nat option"
  | DGet string string string string
  | DFsChange string
  | DMutationBegin string pyval
  | DMutationEnd fs inum string nat pyval
  | DTurnEnd string
  | DTick rat
  | DSessionEnd "nat \<Rightarrow> spec_id set" string
  | DShutdown "nat \<Rightarrow> spec_id set"
  | DResolve string string pyval
  | DWoken nat bool
  | DWorkerRun nat job_key job_outcome
  | DWorkerExit nat job_key
  | DChainStart nat string
  | DChainEnd nat spec_id nat string rat "string + (pyval \<times> rat)"

definition request_done :: "daemon_env \<Rightarrow> request \<Rightarrow> bool \<Rightarrow> (string \<times> pyval) dm" where
  "request_done env w completed =
     resolve_end env (rq_sid w) (rq_kind w) (rq_args w) (rq_place w) (rq_t0 w) (rq_job w) (rq_claim w) completed"

fun daemon_do :: "daemon_env \<Rightarrow> daemon_op \<Rightarrow> config \<Rightarrow> config" where
  "daemon_do env (DStart sid repo a) c = c\<lparr>c_daemon := snd (session_start env sid repo a (c_daemon c))\<rparr>"
| "daemon_do env (DExecuted sid kind verb oc args lat obs mid want) c =
     c\<lparr>c_daemon := snd (call_executed env sid kind verb oc args lat obs mid want (c_daemon c))\<rparr>"
| "daemon_do env (DStream sid call tool delta mid) c =
     c\<lparr>c_daemon := snd (call_stream_delta env sid call tool delta mid (c_daemon c))\<rparr>"
| "daemon_do env (DGet sid call kind delta) c =
     c\<lparr>c_daemon := snd (stream_get_delta env sid call kind delta (c_daemon c))\<rparr>"
| "daemon_do env (DFsChange sid) c = c\<lparr>c_daemon := snd (on_fs_change env sid (c_daemon c))\<rparr>"
| "daemon_do env (DMutationBegin sid wa) c = c\<lparr>c_daemon := snd (mutation_begin env sid wa (c_daemon c))\<rparr>"
| "daemon_do env (DMutationEnd f base sid mid ok) c =
     c\<lparr>c_daemon := snd (mutation_end env f base sid mid ok (c_daemon c))\<rparr>"
| "daemon_do env (DTurnEnd sid) c = c\<lparr>c_daemon := snd (turn_end sid (c_daemon c))\<rparr>"
| "daemon_do env (DTick idle) c = c\<lparr>c_daemon := snd (daemon_tick env idle (c_daemon c))\<rparr>"
| "daemon_do env (DSessionEnd queued sid) c = c\<lparr>c_daemon := snd (session_end env queued sid (c_daemon c))\<rparr>"
| "daemon_do env (DShutdown queued) c = c\<lparr>c_daemon := snd (shutdown_daemon env queued (c_daemon c))\<rparr>"
| "daemon_do env (DResolve sid kind args) c =
     (case resolve_begin env sid kind args (c_daemon c) of
        (Inr (Waiting i t0 job cl), d') \<Rightarrow>
          \<lparr>c_daemon = d', c_waiting = c_waiting c @ [\<lparr>rq_sid = sid, rq_kind = kind, rq_args = args, rq_place = i,
             rq_t0 = t0, rq_job = job, rq_claim = cl\<rparr>]\<rparr>
      | (r, d') \<Rightarrow> c\<lparr>c_daemon := d'\<rparr>)"
| "daemon_do env (DWoken n completed) c =
     (if n < length (c_waiting c)
      then \<lparr>c_daemon = snd (request_done env (c_waiting c ! n) completed (c_daemon c)),
            c_waiting = take n (c_waiting c) @ drop (n + 1) (c_waiting c)\<rparr>
      else c)"
| "daemon_do env (DWorkerRun i key r) c = c\<lparr>c_daemon := snd (upd_s i (worker_run key r) (c_daemon c))\<rparr>"
| "daemon_do env (DWorkerExit i key) c = c\<lparr>c_daemon := snd (upd_s i (worker_exit key) (c_daemon c))\<rparr>"
| "daemon_do env (DChainStart eid kind) c = c\<lparr>c_daemon := snd (chain_job_start env eid kind (c_daemon c))\<rparr>"
| "daemon_do env (DChainEnd i sid eid kind t r) c =
     c\<lparr>c_daemon := snd (chain_job_end env i sid eid kind t r (c_daemon c))\<rparr>"

definition daemon_run :: "daemon_env \<Rightarrow> config \<Rightarrow> daemon_op list \<Rightarrow> config" where
  "daemon_run env = run_ops (\<lambda>c x. daemon_do env x c)"

definition init_config :: config where
  "init_config = \<lparr>c_daemon = init_daemon, c_waiting = []\<rparr>"

section \<open>Its invariant\<close>

definition request_ok :: "daemon \<Rightarrow> request \<Rightarrow> bool" where
  "request_ok d w \<longleftrightarrow> rq_place w < length (d_heap d) \<and>
     (\<forall>j. rq_job w = Some j \<longrightarrow> j < spec_n (d_heap d ! rq_place w)) \<and>
     (\<forall>cl. rq_claim w = Some cl \<longrightarrow> rq_job w = Some (cc_job cl))"

definition config_ok :: "config \<Rightarrow> bool" where
  "config_ok c \<longleftrightarrow> ok_daemon (c_daemon c) \<and> mut_ok (d_mutations (c_daemon c)) \<and>
     (\<forall>w \<in> set (c_waiting c). request_ok (c_daemon c) w)"

abbreviation later :: "daemon \<Rightarrow> daemon \<Rightarrow> bool" where
  "later \<equiv> moves adv mut_keep"

lemma request_ok_later: "later d d' \<Longrightarrow> request_ok d w \<Longrightarrow> request_ok d' w"
  using handlers.spec_n_moves [of d d' "rq_place w"] movesD(5) [of adv mut_keep d d' "rq_place w"]
  by (auto simp: request_ok_def intro: less_le_trans)

lemma config_ok_later:
  "config_ok c \<Longrightarrow> later (c_daemon c) d' \<Longrightarrow> set ws \<subseteq> set (c_waiting c) \<Longrightarrow>
   config_ok \<lparr>c_daemon = d', c_waiting = ws\<rparr>"
  using movesD(1,2) [of adv mut_keep "c_daemon c" d'] request_ok_later
  by (auto simp: config_ok_def mut_keep_def)

lemma andthen_InrE:
  assumes "andthen m k d = (Inr y, d')"
  obtains x d1 where "m d = (Inr x, d1)" "k x d1 = (Inr y, d')"
  using assms by (cases "m d") (auto simp: andthen_def split: sum.splits)

lemma run_s_InrE:
  assumes "run_s i f d = (Inr x, d')"
  obtains s' where "f (sess d i) = Inr (x, s')" "d' = put_sess i s' d"
  using assms by (auto simp: run_s_def split: sum.splits)

lemma claimed_job_valid:
  assumes "ok_daemon d" "i < length (d_heap d)"
    and "run_s i (\<lambda>s. Inr (claim kind args s)) d = (Inr (Some j), d')"
  shows "j < spec_n (d_heap d ! i)" "jepoch (job_at (d_heap d ! i) j) = epoch (d_heap d ! i)"
proof -
  from assms(3) obtain s' where c: "claim kind args (sess d i) = (Some j, s')" by (auto elim: run_s_InrE)
  note C = claim_SomeD [OF sess_okD(2) [OF handlers.sess_ok_sess [OF assms(1,2)]] c]
  show "j < spec_n (d_heap d ! i)" using C(1) by (simp add: sess_def)
  show "jepoch (job_at (d_heap d ! i) j) = epoch (d_heap d ! i)"
    using C(3) by (simp add: sess_def job_slot_def)
qed

lemma resolve_chain_job:
  assumes ok: "ok_daemon d" "i < length (d_heap d)" and r: "resolve_chain i c kind args d = (Inr (Inr cl), d')"
  shows "later d d'" "cc_job cl < spec_n (d_heap d ! i)"
proof -
  show "later d d'" using keepsD(1) [OF handlers.keeps_resolve_chain [OF ok(2)] ok(1)] r by (metis snd_conv)
  obtain d1 job where j: "run_s i (\<lambda>s. Inr (claim kind args s)) d = (Inr job, d1)" "job = Some (cc_job cl)"
    using r unfolding resolve_chain_def resolve_chain_edit_def case_prod_unfold Let_def
    by (auto elim!: andthen_InrE simp: dm_pure split: if_splits option.splits bool.splits)
  show "cc_job cl < spec_n (d_heap d ! i)"
    using claimed_job_valid(1) [OF ok] j by blast
qed

lemma resolve_begin_waitingE:
  assumes ok: "ok_daemon d" and r: "resolve_begin env sid kind args d = (Inr (Waiting i t0 job cl), d')"
  obtains d1 where "ok_daemon d1" "i < length (d_heap d1)" "cl = None"
      "run_s i (\<lambda>s. Inr (claim kind args s)) d1 = (Inr job, d')"
  | d1 c c' where "ok_daemon d1" "i < length (d_heap d1)" "cl = Some c" "job = Some (cc_job c)"
      "resolve_chain i c' kind args d1 = (Inr (Inr c), d')"
proof -
  from r obtain i' where i: "the_session sid d = (Inr i', d)"
    by (auto simp: resolve_begin_def the_session_def elim!: andthen_InrE split: option.splits)
  then have i': "i' < length (d_heap d)"
    using ok_daemonD(2) [OF ok] by (auto simp: the_session_def split: option.splits)
  define d1 where "d1 = put_sess i' ((sess (tick d) i')\<lparr>s_last_event := now (de_clock env) d\<rparr>) (tick d)"
  have "keeps adv mut_keep True (andthen (d_clock env) (\<lambda>t. upd_s i' (\<lambda>s. s\<lparr>s_last_event := t\<rparr>))) d"
    by (intro handlers.keeps_rules handlers.keeps_own) (simp_all add: executor.defs)
  from keepsD(1) [OF this ok] have m: "later d d1"
    by (simp add: andthen_def d1_def)
  note ok1 = movesD(1) [OF m] movesD(5) [OF m i']
  have "(run_s i' (\<lambda>s. Inr (claim kind args s)) d1 = (Inr job, d') \<and> cl = None \<or>
      (\<exists>c c'. resolve_chain i' c' kind args d1 = (Inr (Inr c), d') \<and> cl = Some c \<and> job = Some (cc_job c))) \<and> i = i'"
    using r i unfolding resolve_begin_def case_prod_unfold d1_def
    by (auto elim!: andthen_InrE simp: dm_pure emit_resolve_def split: if_splits option.splits sum.splits)
  then show thesis using that ok1 by blast
qed

lemma resolve_begin_waiting:
  assumes ok: "ok_daemon d" and r: "resolve_begin env sid kind args d = (Inr (Waiting i t0 job cl), d')"
  shows "request_ok d' \<lparr>rq_sid = sid, rq_kind = kind, rq_args = args, rq_place = i, rq_t0 = t0,
     rq_job = job, rq_claim = cl\<rparr>"
  using ok r
proof (cases rule: resolve_begin_waitingE)
  case (1 d1)
  then have m: "later d1 d'"
    using keepsD(1) [OF handlers.keeps_claim] by (metis snd_conv)
  have "j < spec_n (d_heap d1 ! i)" if "job = Some j" for j
    using claimed_job_valid(1) [OF 1(1,2)] 1(4) that by blast
  then show ?thesis
    using handlers.spec_n_moves [OF m 1(2)] movesD(5) [OF m 1(2)] 1(3)
    by (auto simp: request_ok_def intro: less_le_trans)
next
  case (2 d1 c c')
  note J = resolve_chain_job [OF 2(1,2,5)]
  show ?thesis
    using handlers.spec_n_moves [OF J(1) 2(2)] movesD(5) [OF J(1) 2(2)] J(2) 2(3,4)
    by (auto simp: request_ok_def intro: less_le_trans)
qed

lemma daemon_do_later:
  assumes ok: "config_ok c"
  shows "later (c_daemon c) (c_daemon (daemon_do env x c)) \<and> config_ok (daemon_do env x c)"
proof -
  have d: "ok_daemon (c_daemon c)" using ok by (simp add: config_ok_def)
  have one: "later (c_daemon c) (c_daemon c') \<and> config_ok c'"
    if "keeps adv mut_keep False m (c_daemon c)" "c' = c\<lparr>c_daemon := snd (m (c_daemon c))\<rparr>" for m :: "'r dm" and c'
    using config_ok_later [OF ok keepsD(1) [OF that(1) d] subset_refl] keepsD(1) [OF that(1) d] that(2)
    by (cases c) simp
  show ?thesis
  proof (cases x)
    case (DResolve sid kind args)
    obtain r d' where r: "resolve_begin env sid kind args (c_daemon c) = (r, d')" by (metis prod.exhaust)
    then have m: "later (c_daemon c) d'"
      using keepsD(1) [OF handlers.keeps_resolve_begin d] by (metis snd_conv)
    note c' = config_ok_later [OF ok m subset_refl]
    show ?thesis
    proof (cases "\<exists>i t0 job cl. r = Inr (Waiting i t0 job cl)")
      case True
      then obtain i t0 job cl where w: "r = Inr (Waiting i t0 job cl)" by blast
      from resolve_begin_waiting [OF d r [unfolded w]] c' m show ?thesis
        by (simp add: DResolve r w config_ok_def)
    next
      case False
      then have "daemon_do env x c = c\<lparr>c_daemon := d'\<rparr>"
        by (simp add: DResolve r split: sum.split resolve_wait.split)
      with c' m show ?thesis by (cases c) simp
    qed
  next
    case (DWoken n completed)
    show ?thesis
    proof (cases "n < length (c_waiting c)")
      case True
      let ?w = "c_waiting c ! n"
      have w: "request_ok (c_daemon c) ?w" using ok True by (simp add: config_ok_def)
      have "keeps adv mut_keep False (request_done env ?w completed) (c_daemon c)"
        unfolding request_done_def
        by (rule handlers.keeps_resolve_end) (use w in \<open>auto simp: request_ok_def\<close>)
      from keepsD(1) [OF this d] have m: "later (c_daemon c) (snd (request_done env ?w completed (c_daemon c)))" .
      have "set (take n (c_waiting c) @ drop (n + 1) (c_waiting c)) \<subseteq> set (c_waiting c)"
        using set_take_subset [of n "c_waiting c"] set_drop_subset [of "n + 1" "c_waiting c"] by simp
      from config_ok_later [OF ok m this] m True show ?thesis by (simp add: DWoken)
    qed (use ok handlers.moves_refl [OF d] in \<open>simp add: DWoken\<close>)
  next
    case (DStart sid repo a)
    then show ?thesis by (intro one [OF handlers.keeps_session_start]) simp
  next
    case (DExecuted sid kind verb oc args lat obs mid want)
    then show ?thesis by (intro one [OF handlers.keeps_call_executed]) simp
  next
    case (DStream sid call tool delta mid)
    then show ?thesis by (intro one [OF handlers.keeps_call_stream_delta]) simp
  next
    case (DGet sid call kind delta)
    then show ?thesis by (intro one [OF handlers.keeps_stream_get_delta]) simp
  next
    case (DFsChange sid)
    then show ?thesis by (intro one [OF handlers.keeps_on_fs_change]) simp
  next
    case (DMutationBegin sid wa)
    then show ?thesis by (intro one [OF handlers.keeps_mutation_begin]) simp
  next
    case (DMutationEnd f base sid mid success)
    then show ?thesis by (intro one [OF handlers.keeps_mutation_end]) simp
  next
    case (DTurnEnd sid)
    then show ?thesis by (intro one [OF handlers.keeps_turn_end]) simp
  next
    case (DTick idle)
    then show ?thesis by (intro one [OF handlers.keeps_tick]) simp
  next
    case (DSessionEnd queued sid)
    then show ?thesis by (intro one [OF handlers.keeps_session_end]) simp
  next
    case (DShutdown queued)
    then show ?thesis by (intro one [OF handlers.keeps_shutdown]) simp
  next
    case (DWorkerRun i key r)
    then show ?thesis by (intro one [OF handlers.keeps_worker(1)]) simp
  next
    case (DWorkerExit i key)
    then show ?thesis by (intro one [OF handlers.keeps_worker(2)]) simp
  next
    case (DChainStart eid kind)
    then show ?thesis by (intro one [OF handlers.keeps_chain_job_start]) simp
  next
    case (DChainEnd i sid eid kind t r)
    then show ?thesis by (intro one [OF handlers.keeps_chain_job_end]) simp
  qed
qed

interpretation daemon_machine: invariant_machine "\<lambda>c x. daemon_do env x c" config_ok for env
  by unfold_locales (rule conjunct2 [OF daemon_do_later])

lemma config_ok_init: "config_ok init_config"
  by (simp add: config_ok_def init_config_def init_daemon_def ok_daemon_def mut_ok_def active_in_def)

lemma daemon_run_later:
  assumes "config_ok c"
  shows "later (c_daemon c) (c_daemon (daemon_run env c xs))" "config_ok (daemon_run env c xs)"
proof -
  have "later (c_daemon c) (c_daemon c)" using assms by (simp add: config_ok_def handlers.moves_refl)
  then show "later (c_daemon c) (c_daemon (daemon_run env c xs))"
    unfolding daemon_run_def
    by (rule daemon_machine.stable_run [where P = "\<lambda>c'. later (c_daemon c) (c_daemon c')", rotated 2])
      (use assms daemon_do_later handlers.moves_trans in blast)+
  show "config_ok (daemon_run env c xs)"
    unfolding daemon_run_def by (rule daemon_machine.inv_run [OF assms])
qed

end
