(* ===== verification/Daemon_Properties.thy ===== *)
theory Daemon_Properties
  imports Daemon_Run
begin

text \<open>
  The properties of the daemon of sfx/daemon.py: the fence around authoritative writes, what
  a request may be served, and how much a report speculates.
\<close>

section \<open>Requests across the fence\<close>

lemma serve_job_stale:
  assumes "stale j (d_heap d ! i)"
  shows "\<exists>d'. serve_job env sid i t0 (Some j) d = (Inr (''miss'', PNone), d')"
proof -
  have sj: "finish (Some j) t0 (sess d i) = Inr (miss, sess d i)"
    using assms by (intro stale_finish) (simp add: sess_def stale_def)
  have r: "run_s i (finish (Some j) t0) d = (Inr miss, put_sess i (sess d i) d)"
    by (simp add: run_s_def sj)
  have p: "promote_hit i ''miss'' None d' = (Inr (), put_sess i (sess d' i) d')" for d'
    by (simp add: promote_hit_def run_s_def)
  show ?thesis
    by (simp add: serve_job_def miss_def dm_pure r [unfolded miss_def] p)
qed

lemma finish_chain_claim_stale:
  assumes "ok_daemon d" "i < length (d_heap d)" "stale (cc_job c) (d_heap d ! i)"
  shows "\<exists>d'. finish_chain_claim env i c t0 completed d = (Inr (''miss'', PNone), d')"
proof -
  have "cc_job c < spec_n (d_heap d ! i)" "jepoch (job_at (sess d i) (cc_job c)) \<noteq> epoch (sess d i)"
    using assms(3) by (simp_all add: stale_def sess_def)
  from keepsD(2) [OF handlers.keeps_finish_chain_claim [OF assms(2) this(1)] assms(1) TrueI]
  obtain r d' where r: "finish_chain_claim env i c t0 completed d = (Inr r, d')" by blast
  with \<open>jepoch _ \<noteq> _\<close> have "r = (''miss'', PNone)"
    unfolding finish_chain_claim_def case_prod_unfold
    by (auto elim!: andthen_InrE simp: dm_pure miss_def split: if_splits)
  with r show ?thesis by blast
qed

text \<open>A request that waits for a stale job, or for none, gets a miss.\<close>

lemma resolve_end_stale:
  assumes ok: "ok_daemon d" and i: "i < length (d_heap d)" and j: "stale j (d_heap d ! i)"
    and cl: "cl = None \<or> (\<exists>c. cl = Some c \<and> cc_job c = j)"
  shows "\<exists>d'. resolve_end env sid kind args i t0 (Some j) cl completed d = (Inr (''miss'', PNone), d')"
proof -
  have "\<exists>d'. (case cl of Some c \<Rightarrow> finish_chain_claim env i c t0 completed
      | None \<Rightarrow> serve_job env sid i t0 (Some j)) d = (Inr (''miss'', PNone), d')"
    using cl serve_job_stale [OF j] finish_chain_claim_stale [OF ok i] j by auto
  then obtain d1 where d1: "(case cl of Some c \<Rightarrow> finish_chain_claim env i c t0 completed
      | None \<Rightarrow> serve_job env sid i t0 (Some j)) d = (Inr (''miss'', PNone), d1)" by blast
  have "keeps adv mut_keep False (case cl of Some c \<Rightarrow> finish_chain_claim env i c t0 completed
      | None \<Rightarrow> serve_job env sid i t0 (Some j)) d"
    using cl handlers.keeps_serve_job handlers.keeps_finish_chain_claim [OF i] j by (auto simp: stale_def)
  from keepsD(1) [OF this ok] have "later d d1" unfolding d1 by simp
  then have "ok_daemon d1" by (rule movesD(1))
  from keepsD(2) [OF handlers.keeps_emit_resolve this TrueI, of env i kind args "''miss''" PNone
      "total_saved_ms (sess d1 i) - total_saved_ms (sess d i)" t0]
  show ?thesis by (auto simp: resolve_end_def d1 dm_pure)
qed

lemma same_heap_simps [simp]:
  "d_heap (snd (conflict_all key d)) = d_heap d" "d_sessions (snd (conflict_all key d)) = d_sessions d"
  "fst (conflict_all key d) = Inr ()"
  "d_heap (snd (add_mutation key sid wa mid d)) = d_heap d"
  "d_sessions (snd (add_mutation key sid wa mid d)) = d_sessions d"
  "fst (add_mutation key sid wa mid d) = Inr ()"
  by (simp_all add: conflict_all_def add_mutation_def Let_def split: option.split)

lemma conflict_all_step: "conflict_all key d = (Inr (), snd (conflict_all key d))"
  by (simp add: prod_eq_iff)

lemma add_mutation_step: "add_mutation key sid wa mid d = (Inr (), snd (add_mutation key sid wa mid d))"
  by (simp add: prod_eq_iff)

text \<open>What \<open>mutation_begin\<close> and \<open>on_fs_change\<close> do before they invalidate.\<close>

definition begun :: "daemon \<Rightarrow> string \<Rightarrow> string \<Rightarrow> pyval \<Rightarrow> daemon" where
  "begun d key sid wa =
     (let d1 = snd (conflict_all key d)
      in snd (add_mutation key sid wa (d_uuid d) (d1\<lparr>d_uuid := d_uuid d1 + 1\<rparr>)))"

lemma mutation_begin_eq:
  assumes "dict_get (d_sessions d) sid = Some k" "check_write_args wa = Inr ()"
  defines "key \<equiv> s_repo_key (d_heap d ! k)"
  shows "mutation_begin env sid wa d =
    andthen (invalidate_repo env key None) (\<lambda>_. ret (d_uuid d)) (begun d key sid wa)"
proof -
  have u: "d_uuid (snd (conflict_all key d)) = d_uuid d"
    by (simp add: conflict_all_def split: option.split)
  show ?thesis
    using assms(1,2)
    by (simp add: mutation_begin_def the_session_def dm_pure sess_def key_def [symmetric] begun_def Let_def
        andthen_simps(1) [OF conflict_all_step] andthen_simps(1) [OF add_mutation_step] u)
qed

lemma begun_heap [simp]: "d_heap (begun d key sid wa) = d_heap d" "d_sessions (begun d key sid wa) = d_sessions d"
  by (simp_all add: begun_def Let_def)

lemma ok_daemon_cong: "d_heap d' = d_heap d \<Longrightarrow> d_sessions d' = d_sessions d \<Longrightarrow> ok_daemon d' = ok_daemon d"
  by (simp add: ok_daemon_def)

lemma repo_sessions_cong:
  "d_heap d' = d_heap d \<Longrightarrow> d_sessions d' = d_sessions d \<Longrightarrow> repo_sessions d' = repo_sessions d"
  by (intro ext) (simp add: repo_sessions_def)

lemma on_fs_change_eq:
  assumes "dict_get (d_sessions d) sid = Some k"
  defines "key \<equiv> s_repo_key (d_heap d ! k)"
  shows "on_fs_change env sid d = invalidate_repo env key None (snd (conflict_all key d))"
  using assms(1)
  by (simp add: on_fs_change_def the_session_def dm_pure sess_def key_def [symmetric]
      andthen_simps(1) [OF conflict_all_step])

text \<open>Both complete, and leave every job of the repository's sessions stale.\<close>

lemma fence_completes:
  assumes ok: "ok_daemon d" and k: "dict_get (d_sessions d) sid = Some k" and w: "check_write_args wa = Inr ()"
  shows "\<exists>d'. mutation_begin env sid wa d = (Inr (d_uuid d), d')" "\<exists>d'. on_fs_change env sid d = (Inr (), d')"
proof -
  let ?key = "s_repo_key (d_heap d ! k)"
  have ok': "ok_daemon (begun d ?key sid wa)" "ok_daemon (snd (conflict_all ?key d))"
    by (rule iffD2 [OF ok_daemon_cong ok]; simp)+
  show "\<exists>d'. mutation_begin env sid wa d = (Inr (d_uuid d), d')"
    using keepsD(2) [OF fence.keeps_invalidate_repo ok'(1) TrueI, of env ?key None]
    by (auto simp: mutation_begin_eq [OF k w] dm_pure)
  show "\<exists>d'. on_fs_change env sid d = (Inr (), d')"
    using keepsD(2) [OF fence.keeps_invalidate_repo ok'(2) TrueI, of env ?key None]
    by (auto simp: on_fs_change_eq [OF k])
qed

lemma fence_stale:
  assumes ok: "ok_daemon d" and k: "dict_get (d_sessions d) sid = Some k"
    and b: "mutation_begin env sid wa d = (Inr mid, d') \<or> on_fs_change env sid d = (Inr (), d')"
    and i: "i \<in> snd ` set (d_sessions d)" "s_repo_key (d_heap d ! i) = s_repo_key (d_heap d ! k)"
    and j: "j < spec_n (d_heap d ! i)"
  shows "stale j (d_heap d' ! i)" "later d d'"
proof -
  let ?key = "s_repo_key (d_heap d ! k)"
  have mem: "i \<in> set (repo_sessions d ?key None)" using i by (auto simp: repo_sessions_def)
  have inv: "stale j (d_heap (snd (invalidate_repo env ?key None d1)) ! i)"
    if d1: "d_heap d1 = d_heap d" "d_sessions d1 = d_sessions d" for d1
    by (rule handlers.invalidate_repo_stale [OF iffD2 [OF ok_daemon_cong [OF d1] ok]])
      (use mem j in \<open>simp_all add: d1 repo_sessions_cong [OF d1]\<close>)
  from b show "stale j (d_heap d' ! i)"
  proof
    assume m: "mutation_begin env sid wa d = (Inr mid, d')"
    then have "check_write_args wa = Inr ()"
      using k by (auto simp: mutation_begin_def the_session_def dm_pure andthen_def split: sum.splits)
    from m [unfolded mutation_begin_eq [OF k this]] inv [of "begun d ?key sid wa"] show ?thesis
      by (auto elim!: andthen_InrE simp: dm_pure)
  next
    assume "on_fs_change env sid d = (Inr (), d')"
    with inv [of "snd (conflict_all ?key d)"] show ?thesis by (simp add: on_fs_change_eq [OF k])
  qed
  from b show "later d d'"
    using keepsD(1) [OF handlers.keeps_mutation_begin [of env sid wa] ok]
      keepsD(1) [OF handlers.keeps_on_fs_change [of env sid] ok] by auto
qed

text \<open>
  C16: the fence holds across every interleaving. When an authoritative write to a repository
  begins, or an unannounced change is noticed, take any session of the repository and any job
  it has reserved so far. Whatever handlers and worker threads run afterwards, in any order, a
  request that waits for that job, on its own or as part of a chain, is answered with a miss
  and never raises, whether or not the job completed.
\<close>

theorem fence_holds:
  assumes "config_ok c" and "dict_get (d_sessions (c_daemon c)) sid = Some k"
    and "mutation_begin env sid wa (c_daemon c) = (Inr mid, d') \<or> on_fs_change env sid (c_daemon c) = (Inr (), d')"
    and "i \<in> snd ` set (d_sessions (c_daemon c))"
    and "s_repo_key (d_heap (c_daemon c) ! i) = s_repo_key (d_heap (c_daemon c) ! k)"
    and "j < spec_n (d_heap (c_daemon c) ! i)" and "cl = None \<or> (\<exists>x. cl = Some x \<and> cc_job x = j)"
  shows "\<exists>d2. resolve_end env' sid' kind args i t0 (Some j) cl completed
      (c_daemon (daemon_run env (c\<lparr>c_daemon := d'\<rparr>) xs)) = (Inr (''miss'', PNone), d2)"
proof -
  have ok: "ok_daemon (c_daemon c)" using assms(1) by (simp add: config_ok_def)
  note F = fence_stale [OF ok assms(2-6)]
  have i: "i < length (d_heap (c_daemon c))" using ok assms(4) by (auto simp: ok_daemon_def)
  have ok': "config_ok (c\<lparr>c_daemon := d'\<rparr>)"
    using config_ok_later [OF assms(1) F(2) subset_refl] by (cases c) simp
  note L = daemon_run_later(1) [OF ok', of env xs]
  have i': "i < length (d_heap d')" by (rule movesD(5) [OF F(2) i])
  show ?thesis
    by (rule resolve_end_stale [OF movesD(1) [OF L] _ _ assms(7)])
      (use movesD(5) [OF L] handlers.stale_moves [OF L] i' F(1) in simp_all)
qed

definition demo_env :: daemon_env where
  "demo_env = \<lparr>de_clock = of_nat, de_global = [], de_k = 2, de_depth_cap = 1,
     de_resolve_args = (\<lambda>k c. PNone), de_resolve_details = (\<lambda>k c. (PNone, ''none'', ''resolved'')),
     de_probe = (\<lambda>r s. Inr ()), de_realpath = id\<rparr>"

definition demo_session :: session_args where
  "demo_session = \<lparr>sa_role = ''main'', sa_scratch = None, sa_state_model = ''fs-only'', sa_profile = NoProfile,
     sa_registered_kinds = None, sa_state_dir = None, sa_spec_disabled = False, sa_trajectory = None, sa_sptc = True\<rparr>"

definition demo_daemon_ops :: "daemon_op list" where
  "demo_daemon_ops = [DStart ''a'' ''repo'' demo_session, DGet ''a'' ''c1'' ''read'' ''{}'']"

definition demo_config :: config where
  "demo_config = daemon_run demo_env init_config demo_daemon_ops"

lemma demo_config_ok: "config_ok demo_config"
  unfolding demo_config_def by (rule daemon_run_later(2) [OF config_ok_init])

theorem fence_holds_witness:
  "\<exists>d' d2. mutation_begin demo_env ''a'' PNone (c_daemon demo_config) = (Inr (d_uuid (c_daemon demo_config)), d') \<and>
     resolve_end demo_env ''a'' ''read'' (PDict []) 0 5 (Some 0) None True
       (c_daemon (daemon_run demo_env (demo_config\<lparr>c_daemon := d'\<rparr>)
          [DWorkerRun 0 (''read'', canon (PDict []), 0, 0) (Some (PStr ''x'', 1))])) = (Inr (''miss'', PNone), d2)"
proof -
  have d: "map spec_n (d_heap (c_daemon demo_config)) = [1] \<and> d_sessions (c_daemon demo_config) = [(''a'', 0)]"
    by code_simp
  then have n: "0 < spec_n (d_heap (c_daemon demo_config) ! 0)" by auto
  from d have k: "dict_get (d_sessions (c_daemon demo_config)) ''a'' = Some 0"
    "0 \<in> snd ` set (d_sessions (c_daemon demo_config))" by simp_all
  obtain d' where d': "mutation_begin demo_env ''a'' PNone (c_daemon demo_config) =
      (Inr (d_uuid (c_daemon demo_config)), d')"
    using fence_completes(1) [OF _ k(1), of PNone demo_env] demo_config_ok
    by (auto simp: config_ok_def check_write_args_def)
  from fence_holds [OF demo_config_ok k(1) disjI1 [OF d'] k(2) refl n, of None] d' show ?thesis by blast
qed

section \<open>Beginning a mutation\<close>

lemma begun_active:
  "active_of (begun d key sid wa) key = dict_set (d_uuid d)
     \<lparr>m_sid = sid, m_write_args = wa, m_conflicted = active_of d key \<noteq> []\<rparr>
     (map (\<lambda>(mid, m). (mid, m\<lparr>m_conflicted := True\<rparr>)) (active_of d key))"
proof -
  let ?d = "(snd (conflict_all key d))\<lparr>d_uuid := d_uuid (snd (conflict_all key d)) + 1\<rparr>"
  have a: "active_of ?d key = map (\<lambda>(mid, m). (mid, m\<lparr>m_conflicted := True\<rparr>)) (active_of d key)"
    using conflict_all_active [of key d key] by (simp add: active_of_def)
  have "active_of (snd (add_mutation key sid wa mid ?d)) key =
      dict_set mid \<lparr>m_sid = sid, m_write_args = wa, m_conflicted = active_of ?d key \<noteq> []\<rparr> (active_of ?d key)" for mid
    by (simp add: add_mutation_def Let_def active_of_def)
  then show ?thesis unfolding a by (simp add: begun_def Let_def)
qed

text \<open>
  Beginning a mutation of a known session with acceptable arguments always succeeds. It
  opens the mutation under a fresh id, and marks it as conflicted exactly when another one of
  the repository is open; those are all marked as conflicted too.
\<close>

theorem mutation_begin_marks:
  assumes "ok_daemon d" and k: "dict_get (d_sessions d) sid = Some k" and w: "check_write_args wa = Inr ()"
  shows "\<exists>d'. mutation_begin env sid wa d = (Inr (d_uuid d), d') \<and>
    active_of d' (s_repo_key (d_heap d ! k)) = dict_set (d_uuid d)
      \<lparr>m_sid = sid, m_write_args = wa, m_conflicted = active_of d (s_repo_key (d_heap d ! k)) \<noteq> []\<rparr>
      (map (\<lambda>(mid, m). (mid, m\<lparr>m_conflicted := True\<rparr>)) (active_of d (s_repo_key (d_heap d ! k))))"
proof -
  let ?key = "s_repo_key (d_heap d ! k)"
  have ok: "ok_daemon (begun d ?key sid wa)" by (rule iffD2 [OF ok_daemon_cong assms(1)]) simp_all
  obtain d' where d': "invalidate_repo env ?key None (begun d ?key sid wa) = (Inr (), d')"
    using keepsD(2) [OF fence.keeps_invalidate_repo ok TrueI, of env ?key None] by auto
  have "d_mutations d' = d_mutations (begun d ?key sid wa)"
    using movesD(2) [OF keepsD(1) [OF fence.keeps_invalidate_repo [where env = env and key = ?key and p = None] ok]] d' by simp
  from active_of_cong [OF this] show ?thesis
    by (simp add: mutation_begin_eq [OF k w] d' dm_pure begun_active)
qed

theorem mutation_begin_marks_witness:
  "\<exists>d'. mutation_begin demo_env ''a'' PNone (c_daemon demo_config) = (Inr (d_uuid (c_daemon demo_config)), d') \<and>
     active_of d' ''repo'' =
       [(d_uuid (c_daemon demo_config), \<lparr>m_sid = ''a'', m_write_args = PNone, m_conflicted = False\<rparr>)]"
proof -
  have d: "d_sessions (c_daemon demo_config) = [(''a'', 0)] \<and> map s_repo_key (d_heap (c_daemon demo_config)) = [''repo''] \<and>
      d_mutations (c_daemon demo_config) = []"
    by code_simp
  then have r: "s_repo_key (d_heap (c_daemon demo_config) ! 0) = ''repo''" by auto
  from d have k: "dict_get (d_sessions (c_daemon demo_config)) ''a'' = Some 0" by simp
  have "check_write_args PNone = Inr ()" by (simp add: check_write_args_def)
  from mutation_begin_marks [OF _ k this, of demo_env] demo_config_ok d r show ?thesis
    by (simp add: config_ok_def active_of_def dict_get_default_def)
qed

text \<open>
  C19: two authoritative writes to one repository are never both trusted: in every state the
  daemon can reach, all mutations that are open together are marked as conflicted.
\<close>

theorem overlaps_conflict:
  "length (active_of (c_daemon (daemon_run env init_config xs)) key) \<le> 1 \<or>
   (\<forall>p \<in> set (active_of (c_daemon (daemon_run env init_config xs)) key). m_conflicted (snd p))"
  using daemon_run_later(2) [OF config_ok_init, of env xs]
  by (simp add: config_ok_def mut_ok_def active_in)

theorem overlaps_conflict_witness:
  "map (m_conflicted \<circ> snd) (active_of (c_daemon (daemon_run demo_env init_config
     [DStart ''a'' ''repo'' demo_session, DMutationBegin ''a'' PNone, DMutationBegin ''a'' PNone])) ''repo'') =
   [True, True]"
proof -
  let ?d = "c_daemon (daemon_run demo_env init_config
     [DStart ''a'' ''repo'' demo_session, DMutationBegin ''a'' PNone, DMutationBegin ''a'' PNone])"
  have n: "length (active_of ?d ''repo'') = 2" by code_simp
  then have "\<forall>p \<in> set (active_of ?d ''repo''). m_conflicted (snd p)"
    using overlaps_conflict [of demo_env "[DStart ''a'' ''repo'' demo_session, DMutationBegin ''a'' PNone,
      DMutationBegin ''a'' PNone]" "''repo''"] by simp
  with n show ?thesis by (auto simp: numeral_2_eq_2 length_Suc_conv)
qed

section \<open>Ending a mutation\<close>

text \<open>Invalidating a session leaves every other session as it is.\<close>

definition only_at :: "nat \<Rightarrow> 'r dm \<Rightarrow> bool" where
  "only_at k m \<longleftrightarrow> (\<forall>d i. i \<noteq> k \<longrightarrow> d_heap (snd (m d)) ! i = d_heap d ! i)"

lemma only_at_andthen: "only_at k m \<Longrightarrow> (\<And>x. only_at k (f x)) \<Longrightarrow> only_at k (andthen m f)"
  unfolding only_at_def
proof (intro allI impI)
  fix d i
  assume m: "\<forall>d i. i \<noteq> k \<longrightarrow> d_heap (snd (m d)) ! i = d_heap d ! i" and i: "i \<noteq> k"
    and f: "\<And>x. \<forall>d i. i \<noteq> k \<longrightarrow> d_heap (snd (f x d)) ! i = d_heap d ! i"
  obtain r d1 where r: "m d = (r, d1)" by (cases "m d")
  then have "d_heap d1 ! i = d_heap d ! i" using m i by (metis snd_conv)
  with r f i show "d_heap (snd (andthen m f d)) ! i = d_heap d ! i" by (cases r) auto
qed

lemma only_at_basic:
  "only_at k (ret x)" "only_at k (read_s i g)" "only_at k (upd_s k u)" "only_at k (run_s k r)" "only_at k (log rec)"
  by (simp_all add: only_at_def dm_pure put_sess_def run_s_def split: sum.split)

lemma only_at_for_each: "(\<And>x. only_at k (f x)) \<Longrightarrow> only_at k (for_each xs f)"
  by (induction xs) (simp_all add: only_at_basic only_at_andthen)

lemma only_at_if: "only_at k m \<Longrightarrow> only_at k n \<Longrightarrow> only_at k (if b then m else n)"
  by simp

lemma invalidate_session_only: "only_at k (invalidate_session env k)"
  unfolding invalidate_session_def discard_chain_def emit_chain_def flush_spec_end_def next_id_def bump_s_def
    discard_chain_spec_def case_prod_unfold
  by (intro only_at_andthen only_at_basic only_at_for_each only_at_if)

lemma invalidate_repo_spares:
  "d_heap (snd (invalidate_repo env key (Some i) d)) ! i = d_heap d ! i"
proof -
  have "d_heap (snd (for_each ks (invalidate_session env) d)) ! i = d_heap d ! i" if "i \<notin> set ks" for ks and d
    using that
  proof (induction ks arbitrary: d)
    case Nil
    then show ?case by (simp add: dm_pure)
  next
    case (Cons k ks)
    have "d_heap (snd (invalidate_session env k d)) ! i = d_heap d ! i"
      using invalidate_session_only [of k env] Cons.prems by (simp add: only_at_def)
    moreover obtain r d1 where "invalidate_session env k d = (r, d1)" by (metis prod.exhaust)
    ultimately show ?case using Cons by (cases r) auto
  qed
  moreover have "i \<notin> set (repo_sessions d key (Some i))" by (simp add: repo_sessions_def)
  ultimately show ?thesis by (simp add: invalidate_repo_def)
qed

text \<open>The condition for keeping the session's chain across its own write.\<close>

definition preserves :: "daemon \<Rightarrow> nat \<Rightarrow> fs \<Rightarrow> inum \<Rightarrow> string \<Rightarrow> nat \<Rightarrow> pyval \<Rightarrow> bool" where
  "preserves d i f base sid mid success \<longleftrightarrow>
     success = PBool True \<and>
     (\<exists>m c. active_of d (s_repo_key (d_heap d ! i)) = [(mid, m)] \<and> m_sid m = sid \<and> \<not> m_conflicted m \<and>
        s_chain (d_heap d ! i) = Some c \<and> s_chain_mutation (d_heap d ! i) = Some mid \<and>
        py_eq (m_write_args m) (sw_args (dc_write c)) \<and> chain_future_ok (d_heap d ! i) c \<and>
        is_committed f base (m_write_args m) = Inr True)"

lemma mutation_end_InrD:
  assumes k: "dict_get (d_sessions d) sid = Some i"
    and r: "mutation_end env f base sid mid success d = (Inr b, d')"
  defines "key \<equiv> s_repo_key (d_heap d ! i)"
  obtains m d1 where "dict_get (active_of d key) mid = Some m" "m_sid m = sid"
    "(if may_preserve (sess d i) (active_of d key) mid m success then is_committed f base (m_write_args m)
      else Inr False) = Inr b"
    "invalidate_repo env key (if b then Some i else None) (snd (drop_mutation key mid d)) = (Inr (), d1)"
    "d' = put_sess i ((sess d1 i)\<lparr>s_completed := dict_set mid b (s_completed (sess d1 i)), s_chain_mutation := None\<rparr>) d1"
  using r unfolding mutation_end_def key_def
  by (auto elim!: andthen_InrE simp: dm_pure the_session_def k sess_def drop_mutation_def Let_def split: option.splits if_splits)

lemma active_one: "dict_get al mid = Some m \<Longrightarrow> length al = 1 \<longleftrightarrow> al = [(mid, m)]"
  by (cases al) (auto split: if_splits)

lemma drop_mutation_gone: "dict_get (active_of (snd (drop_mutation key mid d)) key) mid = None"
  by (simp add: drop_mutation_def Let_def active_of_def dict_get_default_def update_conv delete_conv')

lemma drop_mutation_heap [simp]:
  "d_heap (snd (drop_mutation key mid d)) = d_heap d" "d_sessions (snd (drop_mutation key mid d)) = d_sessions d"
  by (simp_all add: drop_mutation_def Let_def)

lemma may_preserve_iff:
  assumes "dict_get (active_of d (s_repo_key (d_heap d ! i))) mid = Some m" "m_sid m = sid"
    and b: "(if may_preserve (sess d i) (active_of d (s_repo_key (d_heap d ! i))) mid m success
      then is_committed f base (m_write_args m) else Inr False) = Inr b"
  shows "b = preserves d i f base sid mid success"
proof -
  have "chain_future_ok (sess d i) = chain_future_ok (d_heap d ! i)"
    by (intro ext) (simp add: chain_future_ok_def sess_def split: option.split)
  then have "may_preserve (sess d i) (active_of d (s_repo_key (d_heap d ! i))) mid m success \<longleftrightarrow>
      success = PBool True \<and> active_of d (s_repo_key (d_heap d ! i)) = [(mid, m)] \<and> \<not> m_conflicted m \<and>
      (\<exists>c. s_chain (d_heap d ! i) = Some c \<and> s_chain_mutation (d_heap d ! i) = Some mid \<and>
        py_eq (m_write_args m) (sw_args (dc_write c)) \<and> chain_future_ok (d_heap d ! i) c)"
    using active_one [OF assms(1)] by (auto simp: may_preserve_def sess_def split: option.splits)
  with b assms(1,2) show ?thesis by (auto simp: preserves_def split: if_splits)
qed

text \<open>
  C18: when a mutation ends, the session's chain is kept exactly when the write succeeded, was
  the only one open on the repository and not conflicted, is the write the chain was streamed
  for, the chain's job did not fail, and the file now holds the streamed contents. Then the
  session's epoch, jobs and chain are untouched; otherwise all its jobs are stale. The jobs of
  the repository's other sessions are stale either way, and the mutation is closed.
\<close>

theorem mutation_end_preserves:
  assumes ok: "ok_daemon d" and k: "dict_get (d_sessions d) sid = Some i"
    and r: "mutation_end env f base sid mid success d = (Inr b, d')"
  shows "(b \<longleftrightarrow> preserves d i f base sid mid success) \<and>
    (b \<longrightarrow> epoch (d_heap d' ! i) = epoch (d_heap d ! i) \<and> jobs (d_heap d' ! i) = jobs (d_heap d ! i) \<and>
       s_chain (d_heap d' ! i) = s_chain (d_heap d ! i)) \<and>
    (\<forall>p j. p \<in> snd ` set (d_sessions d) \<and> s_repo_key (d_heap d ! p) = s_repo_key (d_heap d ! i) \<and>
       j < spec_n (d_heap d ! p) \<and> \<not> (b \<and> p = i) \<longrightarrow> stale j (d_heap d' ! p)) \<and>
    dict_get (active_of d' (s_repo_key (d_heap d ! i))) mid = None"
proof -
  let ?key = "s_repo_key (d_heap d ! i)" and ?d0 = "snd (drop_mutation (s_repo_key (d_heap d ! i)) mid d)"
  let ?p = "if b then Some i else None"
  from mutation_end_InrD [OF k r] obtain m d1 where
    m: "dict_get (active_of d ?key) mid = Some m" "m_sid m = sid" and
    b: "(if may_preserve (sess d i) (active_of d ?key) mid m success then is_committed f base (m_write_args m)
      else Inr False) = Inr b" and
    d1: "invalidate_repo env ?key ?p ?d0 = (Inr (), d1)" and
    d': "d' = put_sess i ((sess d1 i)\<lparr>s_completed := dict_set mid b (s_completed (sess d1 i)), s_chain_mutation := None\<rparr>) d1"
    by blast
  have ok0: "ok_daemon ?d0" by (rule iffD2 [OF ok_daemon_cong ok]) simp_all
  have mv: "moves quiet (=) ?d0 d1"
    using keepsD(1) [OF fence.keeps_invalidate_repo [where env = env and key = ?key and p = ?p] ok0] d1 by simp
  have i: "i < length (d_heap d1)" using ok_daemonD(2) [OF ok k] movesD(5) [OF mv, of i] by simp
  have same: "d_heap d' ! p = (if p = i then (sess d1 i)\<lparr>s_completed := dict_set mid b (s_completed (sess d1 i)),
      s_chain_mutation := None\<rparr> else d_heap d1 ! p)" for p
    using i by (simp add: d' put_sess_def)
  have "stale j (d_heap d' ! p)"
    if p: "p \<in> snd ` set (d_sessions d)" "s_repo_key (d_heap d ! p) = ?key" "\<not> (b \<and> p = i)"
      and j: "j < spec_n (d_heap d ! p)" for p j
  proof -
    have "p \<in> set (repo_sessions ?d0 ?key ?p)" using p by (auto simp: repo_sessions_def)
    from handlers.invalidate_repo_stale [OF ok0 this, of j env] j d1 have "stale j (d_heap d1 ! p)" by simp
    then show ?thesis by (cases "p = i") (simp_all add: same sess_def stale_def)
  qed
  moreover have "d_heap d1 ! i = d_heap d ! i" if b
    using invalidate_repo_spares [of env ?key i ?d0] d1 that by simp
  then have "b \<longrightarrow> epoch (d_heap d' ! i) = epoch (d_heap d ! i) \<and> jobs (d_heap d' ! i) = jobs (d_heap d ! i) \<and>
      s_chain (d_heap d' ! i) = s_chain (d_heap d ! i)" by (simp add: same sess_def)
  moreover have "d_mutations d' = d_mutations ?d0" using movesD(2) [OF mv] by (simp add: d' put_sess_def)
  then have "dict_get (active_of d' ?key) mid = None"
    using active_of_cong [of d' ?d0] drop_mutation_gone [of ?key mid d] by simp
  ultimately show ?thesis using may_preserve_iff [OF m b] by blast
qed

text \<open>A session with a streamed write and an open mutation for it.\<close>

definition demo_write_args :: pyval where
  "demo_write_args = PDict [(''path'', PStr ''a/x''), (''contents'', PStr ''old'')]"

definition demo_begun :: daemon where
  "demo_begun = c_daemon (daemon_run demo_env init_config
     [DStart ''a'' ''repo'' demo_session, DMutationBegin ''a'' demo_write_args])"

definition demo_chain :: "session \<Rightarrow> session" where
  "demo_chain s = s\<lparr>s_chain := Some \<lparr>dc_id = 0, dc_write = \<lparr>sw_id = ''c1'', sw_tool = ''Write'',
       sw_verb = ''fork'', sw_args = demo_write_args\<rparr>, dc_hops = [], dc_future = None\<rparr>,
     s_chain_mutation := Some 0, s_streamed_write := True\<rparr>"

definition demo_streamed :: daemon where
  "demo_streamed = snd (upd_s 0 demo_chain demo_begun)"

lemma demo_streamed_ok: "ok_daemon demo_streamed"
proof -
  have "ok_daemon demo_begun"
    using daemon_run_later(2) [OF config_ok_init] by (simp add: demo_begun_def config_ok_def)
  moreover have "keeps adv mut_keep False (upd_s 0 demo_chain) demo_begun"
    by (rule handlers.keeps_own) (simp_all add: demo_chain_def executor.defs)
  ultimately show ?thesis using keepsD(1) movesD(1) unfolding demo_streamed_def by blast
qed

theorem mutation_end_preserves_witness:
  "(\<exists>d'. mutation_end demo_env demo_fs 1 ''a'' 0 (PBool True) demo_streamed = (Inr True, d') \<and>
      preserves demo_streamed 0 demo_fs 1 ''a'' 0 (PBool True)) \<and>
   (\<exists>d'. mutation_end demo_env demo_fs 1 ''a'' 0 (PBool False) demo_streamed = (Inr False, d') \<and>
      \<not> preserves demo_streamed 0 demo_fs 1 ''a'' 0 (PBool False))"
proof -
  have k: "dict_get (d_sessions demo_streamed) ''a'' = Some 0" by code_simp
  have "fst (mutation_end demo_env demo_fs 1 ''a'' 0 (PBool True) demo_streamed) = Inr True"
    by code_simp
  moreover have "fst (mutation_end demo_env demo_fs 1 ''a'' 0 (PBool False) demo_streamed) = Inr False"
    by code_simp
  ultimately obtain d1 d2 where
    d: "mutation_end demo_env demo_fs 1 ''a'' 0 (PBool True) demo_streamed = (Inr True, d1)"
      "mutation_end demo_env demo_fs 1 ''a'' 0 (PBool False) demo_streamed = (Inr False, d2)"
    by (metis prod.collapse)
  from d mutation_end_preserves [OF demo_streamed_ok k d(1)] mutation_end_preserves [OF demo_streamed_ok k d(2)]
  show ?thesis by blast
qed

section \<open>What a request may be served\<close>

lemma finish_hitD:
  assumes "finish jo t s = Inr ((oc, key, r), s')" and "oc \<noteq> ''miss''"
  shows "\<exists>j. jo = Some j \<and> servable j s \<and> r = jresult (job_at s j)"
  using assms by (cases rule: finish_cases) auto

lemma serve_job_hit:
  assumes "serve_job env sid i t0 job d = (Inr (oc, r), d')" and "oc \<noteq> ''miss''"
  shows "active_of d (s_repo_key (d_heap d ! i)) = [] \<and> dict_get (d_sessions d) sid = Some i \<and>
    (\<exists>j. job = Some j \<and> servable j (d_heap d ! i) \<and> r = jresult (job_at (d_heap d ! i) j))"
proof -
  from assms obtain key s' where "active_of d (s_repo_key (d_heap d ! i)) = []"
      "dict_get (d_sessions d) sid = Some i" "finish job t0 (sess d i) = Inr ((oc, key, r), s')"
    unfolding serve_job_def case_prod_unfold
    by (auto elim!: andthen_InrE run_s_InrE simp: dm_pure miss_def split: if_splits)
  with finish_hitD [OF this(3) assms(2)] show ?thesis by (auto simp: sess_def servable_def)
qed

lemma finish_chain_claim_hit:
  assumes "finish_chain_claim env i c t0 completed d = (Inr (oc, r), d')" and "oc \<noteq> ''miss''"
  shows "active_of d (s_repo_key (d_heap d ! i)) = [] \<and> live_session i d \<and> completed \<and>
    servable (cc_job c) (d_heap d ! i) \<and> r = jresult (job_at (d_heap d ! i) (cc_job c))"
proof -
  from assms obtain key s' where "active_of d (s_repo_key (d_heap d ! i)) = []" "live_session i d" completed
      "finish (Some (cc_job c)) t0 (sess d i) = Inr ((oc, key, r), s')"
    unfolding finish_chain_claim_def case_prod_unfold
    by (auto elim!: andthen_InrE run_s_InrE simp: dm_pure miss_def split: if_splits)
  with finish_hitD [OF this(4) assms(2)] show ?thesis by (auto simp: sess_def servable_def)
qed

text \<open>
  C17: a request is served a speculative result only when that is safe: then no mutation of the
  repository is open, the session is still the one the request was made on, and the result is
  that of the claimed job, which is done, belongs to the current epoch, is still filed, and was
  not ended or served before.
\<close>

theorem served_only_when_safe:
  assumes "resolve_end env sid kind args i t0 job cl completed d = (Inr (oc, r), d')" and "oc \<noteq> ''miss''"
    and "\<forall>c. cl = Some c \<longrightarrow> job = Some (cc_job c)"
  shows "active_of d (s_repo_key (d_heap d ! i)) = [] \<and>
    (if cl = None then dict_get (d_sessions d) sid = Some i else live_session i d \<and> completed) \<and>
    (\<exists>j. job = Some j \<and> r = jresult (job_at (d_heap d ! i) j) \<and> jdone (job_at (d_heap d ! i) j) \<and>
       jepoch (job_at (d_heap d ! i) j) = epoch (d_heap d ! i) \<and>
       dict_get (jobs (d_heap d ! i)) (job_key (job_at (d_heap d ! i) j)) = Some j \<and>
       jspec (job_at (d_heap d ! i) j) \<notin> terminated (d_heap d ! i))"
proof -
  from assms(1) obtain d1 where d1: "(case cl of Some c \<Rightarrow> finish_chain_claim env i c t0 completed
      | None \<Rightarrow> serve_job env sid i t0 job) d = (Inr (oc, r), d1)"
    unfolding resolve_end_def case_prod_unfold by (auto elim!: andthen_InrE simp: dm_pure)
  show ?thesis
  proof (cases cl)
    case None
    with d1 serve_job_hit [of env sid i t0 job d oc r d1] assms(2) show ?thesis
      by (auto simp: servable_def)
  next
    case (Some c)
    with d1 finish_chain_claim_hit [of env i c t0 completed d oc r d1] assms(2,3) show ?thesis
      by (auto simp: servable_def)
  qed
qed

text \<open>A run that ends in a hit: the streamed read is speculated, done, claimed and served.\<close>

definition demo_served :: config where
  "demo_served = daemon_run demo_env demo_config
     [DWorkerRun 0 (''read'', canon (PDict []), 0, 0) (Some (PStr ''x'', 1)), DResolve ''a'' ''read'' (PDict [])]"

theorem served_only_when_safe_witness:
  "fst (resolve_end demo_env ''a'' ''read'' (PDict []) 0 9 (Some 0) None True (c_daemon demo_served)) =
     Inr (''hit_completed'', PStr ''x'') \<and>
   jresult (job_at (d_heap (c_daemon demo_served) ! 0) 0) = PStr ''x''"
proof -
  have h: "fst (resolve_end demo_env ''a'' ''read'' (PDict []) 0 9 (Some 0) None True (c_daemon demo_served)) =
     Inr (''hit_completed'', PStr ''x'')" by code_simp
  then obtain d' where "resolve_end demo_env ''a'' ''read'' (PDict []) 0 9 (Some 0) None True (c_daemon demo_served) =
     (Inr (''hit_completed'', PStr ''x''), d')" by (metis prod.collapse)
  from served_only_when_safe [OF this] h show ?thesis by simp
qed

section \<open>How much a report speculates\<close>

text \<open>The session at a place has reserved \<open>n\<close> jobs more than before.\<close>

definition reserves :: "nat \<Rightarrow> nat \<Rightarrow> daemon \<Rightarrow> daemon \<Rightarrow> bool" where
  "reserves i n d d' \<longleftrightarrow> ok_daemon d' \<and> i < length (d_heap d') \<and>
     spec_n (d_heap d' ! i) = spec_n (d_heap d ! i) + n"

lemma reserves_trans: "reserves i m d d1 \<Longrightarrow> reserves i n d1 d2 \<Longrightarrow> reserves i (m + n) d d2"
  by (simp add: reserves_def)

text \<open>From \<open>d\<close>, \<open>m\<close> reserves some number of jobs that \<open>C\<close> allows for its outcome.\<close>

definition bounded :: "nat \<Rightarrow> (nat \<Rightarrow> py_error + 'r \<Rightarrow> bool) \<Rightarrow> 'r dm \<Rightarrow> daemon \<Rightarrow> bool" where
  "bounded i C m d \<longleftrightarrow> (ok_daemon d \<longrightarrow> i < length (d_heap d) \<longrightarrow>
     (\<exists>n. reserves i n d (snd (m d)) \<and> C n (fst (m d))))"

lemma boundedD:
  assumes "bounded i C m d" "ok_daemon d" "i < length (d_heap d)" "m d = (r, d')"
  obtains n where "reserves i n d d'" "C n r"
  using assms by (auto simp: bounded_def)

abbreviation quietly :: "'r dm \<Rightarrow> daemon \<Rightarrow> bool" where
  "quietly m d \<equiv> keeps quiet (\<lambda>_ _. True) False m d"

lemma reserves_quietly:
  assumes "quietly m d" "ok_daemon d" "i < length (d_heap d)"
  shows "reserves i 0 d (snd (m d))"
proof -
  note m = keepsD(1) [OF assms(1,2)]
  show ?thesis using movesD(1) [OF m] movesD(4,5) [OF m assms(3)] by (simp add: reserves_def quiet_def)
qed

lemma bounded_ret: "C 0 (Inr x) \<Longrightarrow> bounded i C (ret x) d"
  by (auto simp: bounded_def dm_pure reserves_def intro!: exI [of _ 0])

lemma bounded_raise: "C 0 (Inl e) \<Longrightarrow> bounded i C (raise e) d"
  by (auto simp: bounded_def dm_pure reserves_def intro!: exI [of _ 0])

lemma bounded_quietly: "quietly m d \<Longrightarrow> (\<And>r. C 0 r) \<Longrightarrow> bounded i C m d"
  using reserves_quietly by (auto simp: bounded_def intro!: exI [of _ 0])

lemma bounded_then:
  assumes "bounded i C' m d" and "\<And>n e. C' n (Inl e) \<Longrightarrow> C n (Inl e)"
    and "\<And>n x d1. m d = (Inr x, d1) \<Longrightarrow> C' n (Inr x) \<Longrightarrow> bounded i (\<lambda>k. C (n + k)) (f x) d1"
  shows "bounded i C (andthen m f) d"
  unfolding bounded_def
proof (intro impI)
  assume ok: "ok_daemon d" "i < length (d_heap d)"
  obtain r d1 where m: "m d = (r, d1)" by (cases "m d")
  then obtain n where n: "reserves i n d d1" "C' n r" using assms(1) ok by (auto elim: boundedD)
  show "\<exists>n. reserves i n d (snd (andthen m f d)) \<and> C n (fst (andthen m f d))"
  proof (cases r)
    case (Inl e)
    with m n assms(2) show ?thesis by auto
  next
    case (Inr x)
    have ok1: "ok_daemon d1" "i < length (d_heap d1)" using n(1) by (simp_all add: reserves_def)
    obtain k where "reserves i k d1 (snd (f x d1))" "C (n + k) (fst (f x d1))"
      using assms(3) [of x d1 n] m n Inr ok1 by (auto simp: bounded_def)
    with reserves_trans [OF n(1)] m Inr show ?thesis by auto
  qed
qed

lemma bounded_quietly_then:
  assumes "quietly m d" and "\<And>e. C 0 (Inl e)" and "\<And>x d1. m d = (Inr x, d1) \<Longrightarrow> bounded i C (f x) d1"
  shows "bounded i C (andthen m f) d"
proof (rule bounded_then [where C' = "\<lambda>n _. n = 0"])
  show "bounded i (\<lambda>n _. n = 0) m d" by (rule bounded_quietly [OF assms(1)]) simp
qed (use assms(2,3) in auto)

lemma speculate_spec_n:
  assumes "speculate clk kind args p s = Inr (key, s')"
  shows "spec_n s' = spec_n s + (if key = None then 0 else 1)"
proof -
  obtain n s1 where f: "free_slots clk s = Inr (n, s1)"
    using assms by (auto simp: speculate_def split: sum.splits)
  then have n1: "spec_n s1 = spec_n s" by (auto simp: free_slots_def Let_def tick_def split: if_splits)
  obtain k sid s2 where r: "reserve kind args (now clk s1) False (tick s1) = ((k, sid), s2)"
    by (metis prod.exhaust)
  with assms f n1 reserve_simps(5) [OF r] show ?thesis
    by (auto simp: speculate_def Let_def tick_def split: if_splits)
qed

definition reserved_for :: "nat \<Rightarrow> py_error + job_key option \<Rightarrow> bool" where
  "reserved_for n r \<longleftrightarrow> n = (case r of Inr (Some key) \<Rightarrow> 1 | _ \<Rightarrow> 0)"

lemma bounded_speculate: "bounded i reserved_for (run_s i (speculate clk kind args p)) d"
  unfolding bounded_def
proof (intro impI)
  assume ok: "ok_daemon d" "i < length (d_heap d)"
  let ?r = "run_s i (speculate clk kind args p)"
  note m = keepsD(1) [OF handlers.keeps_speculate [of i clk kind args p] ok(1)]
  have ok': "ok_daemon (snd (?r d))" "i < length (d_heap (snd (?r d)))"
    using movesD(1) [OF m] movesD(5) [OF m ok(2)] .
  have n: "spec_n (d_heap d ! i) = spec_n (sess d i)" by (simp add: sess_def)
  show "\<exists>n. reserves i n d (snd (?r d)) \<and> reserved_for n (fst (?r d))"
  proof (cases "speculate clk kind args p (sess d i)")
    case (Inl e)
    with ok show ?thesis by (auto simp: run_s_def reserves_def reserved_for_def)
  next
    case (Inr q)
    then obtain key s' where s': "speculate clk kind args p (sess d i) = Inr (key, s')" by (cases q) auto
    have "reserves i (if key = None then 0 else 1) d (snd (?r d))"
      using ok' ok(2) speculate_spec_n [OF s'] n by (simp add: reserves_def run_s_def s' put_sess_def)
    then show ?thesis
      by (intro exI [of _ "if key = None then 0 else 1"]) (auto simp: reserved_for_def run_s_def s')
  qed
qed

text \<open>One turn of the loop launches at most one speculation, and none beyond the breadth.\<close>

definition breadth_ok :: "nat \<Rightarrow> nat \<Rightarrow> py_error + (nat \<times> bool) \<Rightarrow> bool" where
  "breadth_ok launched n r \<longleftrightarrow> launched + n \<le> GET_BREADTH \<and>
     (\<forall>l go. r = Inr (l, go) \<longrightarrow> l = launched + n)"

lemma admit_when_full: "a_action (admit c 0) = ''reject''"
  by (simp add: admit_def reject_def)

lemma bounded_if: "(P \<Longrightarrow> bounded i C m d) \<Longrightarrow> (\<not> P \<Longrightarrow> bounded i C n d) \<Longrightarrow> bounded i C (if P then m else n) d"
  by simp

lemma bounded_weaken: "bounded i C m d \<Longrightarrow> (\<And>n r. C n r \<Longrightarrow> C' n r) \<Longrightarrow> bounded i C' m d"
  by (auto simp: bounded_def)

lemma bounded_launch:
  assumes l: "launched \<le> GET_BREADTH" and x: "X \<Longrightarrow> launched < GET_BREADTH"
    and k: "\<And>key m d1. \<forall>go. breadth_ok launched m (Inr (if key = None then launched else launched + 1, go)) \<Longrightarrow>
      bounded i (\<lambda>n. breadth_ok launched (m + n)) (k key) d1"
  shows "bounded i (breadth_ok launched)
    (andthen (if X then run_s i (speculate clk kind args p) else ret None) k) d"
proof (rule bounded_then [where C' = "\<lambda>n r. reserved_for n r \<and> (0 < n \<longrightarrow> X)"])
  show "bounded i (\<lambda>n r. reserved_for n r \<and> (0 < n \<longrightarrow> X))
      (if X then run_s i (speculate clk kind args p) else ret None) d"
    by (rule bounded_if, rule bounded_weaken [OF bounded_speculate], simp, rule bounded_ret)
      (simp add: reserved_for_def)
  show "breadth_ok launched n (Inl e)" if "reserved_for n (Inl e) \<and> (0 < n \<longrightarrow> X)" for n e
    using that l by (simp add: breadth_ok_def reserved_for_def)
  show "bounded i (\<lambda>n. breadth_ok launched (m + n)) (k key) d1"
    if "reserved_for m (Inr key) \<and> (0 < m \<longrightarrow> X)" for m key d1
    by (rule k) (use that l x in \<open>auto simp: breadth_ok_def reserved_for_def split: option.splits\<close>)
qed

lemma breadth_ok_raise: "\<forall>go. breadth_ok l m (Inr (l', go)) \<Longrightarrow> breadth_ok l m (Inl e)"
  by (simp add: breadth_ok_def)

lemma bounded_try_prediction:
  assumes l: "launched \<le> GET_BREADTH"
  shows "bounded i (breadth_ok launched) (try_prediction env i ids ranked oracle ctx latency t0 n launched pred) d"
  unfolding try_prediction_def case_prod_unfold Let_def
  by (intro bounded_quietly_then quiet_handlers.keeps_policy quiet_handlers.keeps_of_res_raising
      quiet_handlers.keeps_read_s bounded_launch [OF l] bounded_ret quiet_handlers.keeps_if
      quiet_handlers.keeps_andthen quiet_handlers.keeps_emit_step quiet_handlers.keeps_next_id
      quiet_handlers.keeps_ret quiet_handlers.keeps_free_slots)
    (use l in \<open>auto simp: breadth_ok_def dm_pure admit_when_full split: if_splits\<close>)

lemma bounded_try_predictions:
  "launched \<le> GET_BREADTH \<Longrightarrow> bounded i (\<lambda>n r. launched + n \<le> GET_BREADTH)
     (try_predictions env i ids ranked oracle ctx latency t0 n launched preds) d"
proof (induction preds arbitrary: n launched d)
  case Nil
  then show ?case by (simp add: bounded_ret)
next
  case (Cons p ps)
  show ?case unfolding try_predictions.simps case_prod_unfold
  proof (rule bounded_then [OF bounded_try_prediction [OF Cons.prems]])
    show "launched + n \<le> GET_BREADTH" if "breadth_ok launched n (Inl e)" for n e
      using that by (simp add: breadth_ok_def)
    fix m x d1
    assume "breadth_ok launched m (Inr x)"
    then have m: "fst x = launched + m" "launched + m \<le> GET_BREADTH" by (cases x; auto simp: breadth_ok_def)+
    show "bounded i (\<lambda>k r. launched + (m + k) \<le> GET_BREADTH)
       (if snd x then try_predictions env i ids ranked oracle ctx latency t0 (n + 1) (fst x) ps else ret ()) d1"
      using Cons.IH [of "fst x" "n + 1" d1] m by (auto intro: bounded_ret simp: add.assoc)
  qed
qed

lemma bounded_session:
  "dict_get (d_sessions d) sid = Some i \<Longrightarrow> bounded i C (k i) d \<Longrightarrow> bounded i C (andthen (the_session sid) k) d"
  by (simp add: bounded_def the_session_def)

lemma bounded_call_executed:
  assumes i: "dict_get (d_sessions d) sid = Some i"
  shows "bounded i (\<lambda>n r. n \<le> GET_BREADTH)
    (call_executed env sid kind verb outcome args latency obs mid want) d"
proof -
  have sn: "bounded i (\<lambda>n r. n \<le> GET_BREADTH) (speculate_next env i orc latency t0) d" for orc t0 d
    unfolding speculate_next_def case_prod_unfold
  proof (intro bounded_quietly_then bounded_if)
    show "quietly (oracle_ranked orc i) d" for d
      unfolding oracle_ranked_def
      by (auto intro!: quiet_handlers.keeps_propose quiet_handlers.keeps_ret quiet_handlers.keeps_raise
          split: option.split pyval.split)
    show "bounded i (\<lambda>n r. n \<le> GET_BREADTH)
        (try_predictions env i ids ranked orc ctx latency t0 0 0 preds) d" for ids ranked ctx preds d
      using bounded_try_predictions [of 0] by simp
  qed (auto intro: quiet_handlers.keeps_next_id quiet_handlers.keeps_read_s bounded_quietly
      quiet_handlers.keeps_emit_step)
  show ?thesis
    unfolding call_executed_def case_prod_unfold Let_def
    by (rule bounded_session [OF i])
      (intro bounded_quietly_then bounded_if sn quiet_handlers.keeps_d_clock quiet_handlers.keeps_if
          quiet_handlers.keeps_note_command quiet_handlers.keeps_ret quiet_handlers.keeps_report_write
          quiet_handlers.keeps_observe quiet_handlers.keeps_oracle_advance quiet_handlers.keeps_active
          quiet_handlers.keeps_read_s quiet_handlers.keeps_own;
        simp add: executor.defs bounded_quietly quiet_handlers.keeps_next_id quiet_handlers.keeps_emit_step)
qed

text \<open>
  C20: a report never floods the executor: whatever the predictor proposes and however many
  slots are free, one report reserves at most \<open>GET_BREADTH\<close> speculations for its session.
\<close>

theorem report_speculates_within_breadth:
  assumes "ok_daemon d" "dict_get (d_sessions d) sid = Some i"
  shows "spec_n (d_heap (snd (call_executed env sid kind verb outcome args latency obs mid want d)) ! i) \<le>
    spec_n (d_heap d ! i) + GET_BREADTH"
proof -
  have "i < length (d_heap d)" using ok_daemonD(2) [OF assms] by simp
  with bounded_call_executed [OF assms(2), of env kind verb outcome args latency obs mid want] assms(1)
  show ?thesis by (auto simp: bounded_def reserves_def)
qed

theorem report_speculates_within_breadth_witness:
  "spec_n (d_heap (snd (call_executed demo_env ''a'' ''test'' ''free'' ''PASS'' (PDict []) 10 [] None True
     (c_daemon demo_config))) ! 0) \<le> 1 + GET_BREADTH"
proof -
  have d: "map spec_n (d_heap (c_daemon demo_config)) = [1] \<and> d_sessions (c_daemon demo_config) = [(''a'', 0)]"
    by code_simp
  then have "spec_n (d_heap (c_daemon demo_config) ! 0) = 1" by auto
  moreover have "dict_get (d_sessions (c_daemon demo_config)) ''a'' = Some 0" using d by simp
  ultimately show ?thesis
    using report_speculates_within_breadth [of "c_daemon demo_config" "''a''" 0] demo_config_ok
    by (fastforce simp: config_ok_def)
qed

end
