(* ===== verification/Regex.thy ===== *)
theory Regex
  imports Sfx_Prelude "HOL-Library.Char_ord"
begin

text \<open>
  What the program uses of Python's \<^verbatim>\<open>re\<close> module. A pattern is a term of \<open>re\<close>; \<open>matches\<close>
  lists the ways it can match at a place, in the order in which the backtracking engine tries
  them, so the engine's match is the first. \<open>matches_rests\<close> relates it to the pattern's
  language. Text is ASCII: a \<open>char\<close> is one character of the text.
\<close>

section \<open>Patterns\<close>

datatype re =
    Eps
  | Cls "char \<Rightarrow> bool"
  | Seq re re
  | Alt re re
  | Rep re
  | Group string re
  | WordBoundary
  | TextStart
  | LineStart
  | LineEnd
  | TextEnd
  | NotBehind "char \<Rightarrow> bool"
  | NotAhead re

text \<open>A place in the text: the character before it, the text after it, and the groups so far.\<close>

record place =
  prev :: "char option"
  after :: string
  groups :: "(string, string) dict"

definition start_of :: "string \<Rightarrow> place" where
  "start_of s = \<lparr>prev = None, after = s, groups = []\<rparr>"

definition word_char :: "char \<Rightarrow> bool" where
  "word_char c \<longleftrightarrow> (CHR ''a'' \<le> c \<and> c \<le> CHR ''z'') \<or> (CHR ''A'' \<le> c \<and> c \<le> CHR ''Z'') \<or>
     (CHR ''0'' \<le> c \<and> c \<le> CHR ''9'') \<or> c = CHR ''_''"

definition digit_char :: "char \<Rightarrow> bool" where
  "digit_char c \<longleftrightarrow> CHR ''0'' \<le> c \<and> c \<le> CHR ''9''"

definition space_char :: "char \<Rightarrow> bool" where
  "space_char c \<longleftrightarrow> c \<in> {CHR 0x09, CHR 0x0A, CHR 0x0B, CHR 0x0C, CHR 0x0D, CHR 0x1C, CHR 0x1D, CHR 0x1E,
     CHR 0x1F, CHR '' ''}"

definition at_boundary :: "place \<Rightarrow> bool" where
  "at_boundary p \<longleftrightarrow>
     (case prev p of None \<Rightarrow> False | Some c \<Rightarrow> word_char c) \<noteq>
     (case after p of [] \<Rightarrow> False | c # cs \<Rightarrow> word_char c)"

text \<open>One more turn of a repetition must consume text, so the text's length bounds the turns.\<close>

fun turns :: "(place \<Rightarrow> place list) \<Rightarrow> nat \<Rightarrow> place \<Rightarrow> place list" where
  "turns f 0 p = [p]"
| "turns f (Suc n) p =
     concat (map (turns f n) (filter (\<lambda>q. length (after q) < length (after p)) (f p))) @ [p]"

primrec matches :: "re \<Rightarrow> place \<Rightarrow> place list" where
  "matches Eps p = [p]"
| "matches (Cls f) p =
     (case after p of [] \<Rightarrow> [] | c # cs \<Rightarrow> if f c then [p\<lparr>prev := Some c, after := cs\<rparr>] else [])"
| "matches (Seq r s) p = concat (map (matches s) (matches r p))"
| "matches (Alt r s) p = matches r p @ matches s p"
| "matches (Rep r) p = turns (matches r) (length (after p)) p"
| "matches (Group n r) p =
     map (\<lambda>q. q\<lparr>groups := dict_set n (take (length (after p) - length (after q)) (after p)) (groups q)\<rparr>)
       (matches r p)"
| "matches WordBoundary p = (if at_boundary p then [p] else [])"
| "matches TextStart p = (if prev p = None then [p] else [])"
| "matches LineStart p = (if prev p = None \<or> prev p = Some (CHR 0x0A) then [p] else [])"
| "matches LineEnd p = (if after p = [] \<or> hd (after p) = CHR 0x0A then [p] else [])"
| "matches TextEnd p = (if after p = [] \<or> after p = [CHR 0x0A] then [p] else [])"
| "matches (NotBehind f) p = (case prev p of None \<Rightarrow> [p] | Some c \<Rightarrow> if f c then [] else [p])"
| "matches (NotAhead r) p = (if matches r p = [] then [p] else [])"

section \<open>The module's functions\<close>

text \<open>\<^verbatim>\<open>search\<close>: the leftmost place with a match, and the engine's match there.\<close>

fun search_at :: "re \<Rightarrow> char option \<Rightarrow> string \<Rightarrow> (place \<times> place) option" where
  "search_at r b [] =
     (let p = \<lparr>prev = b, after = [], groups = []\<rparr>
      in case matches r p of [] \<Rightarrow> None | q # qs \<Rightarrow> Some (p, q))"
| "search_at r b (c # cs) =
     (let p = \<lparr>prev = b, after = c # cs, groups = []\<rparr>
      in case matches r p of [] \<Rightarrow> search_at r (Some c) cs | q # qs \<Rightarrow> Some (p, q))"

definition re_search :: "re \<Rightarrow> string \<Rightarrow> (place \<times> place) option" where
  "re_search r s = search_at r None s"

definition re_found :: "re \<Rightarrow> string \<Rightarrow> bool" where
  "re_found r s \<longleftrightarrow> re_search r s \<noteq> None"

definition re_match :: "re \<Rightarrow> string \<Rightarrow> place option" where
  "re_match r s = (case matches r (start_of s) of [] \<Rightarrow> None | q # qs \<Rightarrow> Some q)"

definition re_fullmatch :: "re \<Rightarrow> string \<Rightarrow> place option" where
  "re_fullmatch r s = find (\<lambda>q. after q = []) (matches r (start_of s))"

text \<open>\<^verbatim>\<open>split\<close>, for patterns that match no empty text: each match consumes some of it.\<close>

fun pieces :: "re \<Rightarrow> nat \<Rightarrow> char option \<Rightarrow> string \<Rightarrow> string list" where
  "pieces r 0 b s = [s]"
| "pieces r (Suc n) b s =
     (case search_at r b s of
        None \<Rightarrow> [s]
      | Some (p, q) \<Rightarrow> take (length s - length (after p)) s # pieces r n (prev q) (after q))"

definition re_split :: "re \<Rightarrow> string \<Rightarrow> string list" where
  "re_split r s = pieces r (length s) None s"

text \<open>\<^verbatim>\<open>sub\<close> with an empty replacement.\<close>

definition re_remove :: "re \<Rightarrow> string \<Rightarrow> string" where
  "re_remove r s = concat (re_split r s)"

section \<open>Abbreviations for patterns\<close>

definition Opt :: "re \<Rightarrow> re" where
  "Opt r = Alt r Eps"

definition Some_of :: "re \<Rightarrow> re" where
  "Some_of r = Seq r (Rep r)"

fun lit :: "string \<Rightarrow> re" where
  "lit [] = Eps"
| "lit (c # cs) = Seq (Cls (\<lambda>d. d = c)) (lit cs)"

fun seqs :: "re list \<Rightarrow> re" where
  "seqs [] = Eps"
| "seqs [r] = r"
| "seqs (r # rs) = Seq r (seqs rs)"

text \<open>An empty alternative cannot match.\<close>

fun alts :: "re list \<Rightarrow> re" where
  "alts [] = Cls (\<lambda>_. False)"
| "alts [r] = r"
| "alts (r # rs) = Alt r (alts rs)"

definition lits :: "string list \<Rightarrow> re" where
  "lits ws = alts (map lit ws)"

fun times :: "nat \<Rightarrow> re \<Rightarrow> re" where
  "times 0 r = Eps"
| "times (Suc n) r = Seq r (times n r)"

fun upto_times :: "nat \<Rightarrow> re \<Rightarrow> re" where
  "upto_times 0 r = Eps"
| "upto_times (Suc n) r = Alt (Seq r (upto_times n r)) Eps"

definition one_of :: "string \<Rightarrow> re" where
  "one_of cs = Cls (\<lambda>c. c \<in> set cs)"

definition none_of :: "string \<Rightarrow> re" where
  "none_of cs = Cls (\<lambda>c. c \<notin> set cs)"

definition Space :: re where "Space = Cls space_char"
definition NonSpace :: re where "NonSpace = Cls (\<lambda>c. \<not> space_char c)"
definition Word :: re where "Word = Cls word_char"
definition Digit :: re where "Digit = Cls digit_char"
definition AnyChar :: re where "AnyChar = Cls (\<lambda>c. c \<noteq> CHR 0x0A)"

text \<open>The class \<^verbatim>\<open>[\w./-]\<close>.\<close>

definition path_char :: "char \<Rightarrow> bool" where
  "path_char c \<longleftrightarrow> word_char c \<or> c \<in> set ''./-''"

definition group :: "string \<Rightarrow> place \<Rightarrow> string" where
  "group n q = dict_get_default (groups q) n []"

section \<open>The matcher and the language of a pattern\<close>

text \<open>Patterns without assertions have a language; \<open>all_of\<close> is its Kleene star.\<close>

primrec plain :: "re \<Rightarrow> bool" where
  "plain Eps = True"
| "plain (Cls f) = True"
| "plain (Seq r s) = (plain r \<and> plain s)"
| "plain (Alt r s) = (plain r \<and> plain s)"
| "plain (Rep r) = plain r"
| "plain (Group n r) = plain r"
| "plain WordBoundary = False"
| "plain TextStart = False"
| "plain LineStart = False"
| "plain LineEnd = False"
| "plain TextEnd = False"
| "plain (NotBehind f) = False"
| "plain (NotAhead r) = False"

definition all_of :: "string set \<Rightarrow> string set" where
  "all_of A = {concat ws | ws. set ws \<subseteq> A}"

primrec lang :: "re \<Rightarrow> string set" where
  "lang Eps = {[]}"
| "lang (Cls f) = {[c] | c. f c}"
| "lang (Seq r s) = {u @ v | u v. u \<in> lang r \<and> v \<in> lang s}"
| "lang (Alt r s) = lang r \<union> lang s"
| "lang (Rep r) = all_of (lang r)"
| "lang (Group n r) = lang r"
| "lang WordBoundary = {}"
| "lang TextStart = {}"
| "lang LineStart = {}"
| "lang LineEnd = {}"
| "lang TextEnd = {}"
| "lang (NotBehind f) = {}"
| "lang (NotAhead r) = {}"

text \<open>The texts left after a prefix from a language.\<close>

definition rests :: "string set \<Rightarrow> string \<Rightarrow> string set" where
  "rests A w = {v. \<exists>u \<in> A. w = u @ v}"

lemma all_of_unfold: "all_of A = {[]} \<union> {u @ v | u v. u \<in> A \<and> u \<noteq> [] \<and> v \<in> all_of A}"
proof (intro set_eqI iffI)
  fix w assume "w \<in> all_of A"
  then obtain ws where ws: "w = concat ws" "set ws \<subseteq> A" by (auto simp: all_of_def)
  then show "w \<in> {[]} \<union> {u @ v | u v. u \<in> A \<and> u \<noteq> [] \<and> v \<in> all_of A}"
  proof (induction ws arbitrary: w)
    case Nil
    then show ?case by simp
  next
    case (Cons u us)
    show ?case
    proof (cases "u = []")
      case True
      with Cons show ?thesis by simp
    next
      case False
      have "concat us \<in> all_of A" using Cons.prems(2) by (auto simp: all_of_def)
      with False Cons.prems show ?thesis by auto
    qed
  qed
next
  fix w assume "w \<in> {[]} \<union> {u @ v | u v. u \<in> A \<and> u \<noteq> [] \<and> v \<in> all_of A}"
  then consider "w = []" | u ws where "w = u @ concat ws" "u \<in> A" "set ws \<subseteq> A"
    by (auto simp: all_of_def)
  then show "w \<in> all_of A"
  proof cases
    case 1
    then show ?thesis by (auto simp: all_of_def intro: exI [of _ "[]"])
  next
    case 2
    then show ?thesis by (auto simp: all_of_def intro!: exI [of _ "u # ws"])
  qed
qed

lemma turns_rests:
  assumes f: "\<And>p. after ` set (f p) = rests A (after p)" and n: "length (after p) \<le> n"
  shows "after ` set (turns f n p) = rests (all_of A) (after p)"
  using n
proof (induction n arbitrary: p)
  case 0
  then show ?case by (auto simp: rests_def all_of_def intro!: exI [of _ "[]"])
next
  case (Suc n)
  let ?w = "after p"
  have IH: "after ` set (turns f n q) = rests (all_of A) (after q)"
    if "length (after q) < length ?w" for q
    using Suc.IH [of q] Suc.prems that by simp
  have "after ` set (turns f (Suc n) p) =
      insert ?w (\<Union>q \<in> {q \<in> set (f p). length (after q) < length ?w}. after ` set (turns f n q))"
    by auto
  also have "\<dots> = insert ?w (\<Union>q \<in> {q \<in> set (f p). length (after q) < length ?w}. rests (all_of A) (after q))"
    using IH by simp
  also have "\<dots> = insert ?w (\<Union>v \<in> {v \<in> rests A ?w. length v < length ?w}. rests (all_of A) v)"
    using f [of p] by (auto simp: image_iff) (metis (no_types, lifting) image_iff)+
  also have "\<dots> = rests (all_of A) ?w"
  proof -
    have "v \<in> rests (all_of A) ?w \<longleftrightarrow> v = ?w \<or> (\<exists>u x. u \<in> A \<and> u \<noteq> [] \<and> ?w = u @ x \<and> v \<in> rests (all_of A) x)" for v
    proof -
      have "u @ x \<in> all_of A" if "u \<in> A" "x \<in> all_of A" "u \<noteq> []" for u x
        by (subst all_of_unfold) (use that in auto)
      moreover have "y = [] \<or> (\<exists>u x. y = u @ x \<and> u \<in> A \<and> u \<noteq> [] \<and> x \<in> all_of A)" if "y \<in> all_of A" for y
        using that by (subst (asm) all_of_unfold) auto
      moreover have "[] \<in> all_of A" by (subst all_of_unfold) simp
      ultimately show ?thesis unfolding rests_def by (auto; metis append_assoc append_Nil)
    qed
    note split = this
    show ?thesis
    proof (intro set_eqI iffI)
      fix v assume "v \<in> insert ?w (\<Union>v \<in> {v \<in> rests A ?w. length v < length ?w}. rests (all_of A) v)"
      then consider "v = ?w" | u x where "u \<in> A" "?w = u @ x" "length x < length ?w" "v \<in> rests (all_of A) x"
        by (auto simp: rests_def [of A])
      then show "v \<in> rests (all_of A) ?w"
      proof cases
        case 1
        with split show ?thesis by blast
      next
        case 2
        then have "u \<noteq> []" by auto
        with 2 split show ?thesis by blast
      qed
    next
      fix v assume "v \<in> rests (all_of A) ?w"
      with split consider "v = ?w" | u x where "u \<in> A" "u \<noteq> []" "?w = u @ x" "v \<in> rests (all_of A) x"
        by blast
      then show "v \<in> insert ?w (\<Union>v \<in> {v \<in> rests A ?w. length v < length ?w}. rests (all_of A) v)"
        by cases (auto simp: rests_def [of A])
    qed
  qed
  finally show ?case .
qed

lemma matches_rests: "plain r \<Longrightarrow> after ` set (matches r p) = rests (lang r) (after p)"
proof (induction r arbitrary: p)
  case Eps
  then show ?case by (auto simp: rests_def)
next
  case (Cls f)
  then show ?case by (cases "after p") (auto simp: rests_def)
next
  case (Seq r s)
  have "after ` set (matches (Seq r s) p) = (\<Union>q \<in> set (matches r p). rests (lang s) (after q))"
    using Seq by (simp add: image_UN)
  also have "\<dots> = (\<Union>v \<in> rests (lang r) (after p). rests (lang s) v)"
  proof -
    have "after ` set (matches r p) = rests (lang r) (after p)" using Seq by simp
    then show ?thesis by (simp flip: image_UN [of "rests (lang s)"] add: image_image [symmetric])
  qed
  also have "\<dots> = rests (lang (Seq r s)) (after p)" by (fastforce simp: rests_def)
  finally show ?case .
next
  case (Alt r s)
  then show ?case by (auto simp: rests_def image_Un)
next
  case (Rep r)
  then show ?case using turns_rests [of "matches r" "lang r" p] by simp
next
  case (Group n r)
  then show ?case by (simp add: image_image)
qed simp_all

lemma all_of_chars: "all_of {[c] | c. f c} = {w. list_all f w}"
proof (intro set_eqI iffI)
  fix w assume "w \<in> all_of {[c] | c. f c}"
  then obtain ws where ws: "w = concat ws" "set ws \<subseteq> {[c] | c. f c}" by (auto simp: all_of_def)
  then have "list_all f (concat ws)" by (induction ws arbitrary: w) auto
  with ws show "w \<in> {w. list_all f w}" by simp
next
  fix w assume "w \<in> {w. list_all f w}"
  then have "set (map (\<lambda>c. [c]) w) \<subseteq> {[c] | c. f c}" by (auto simp: list_all_iff)
  moreover have "w = concat (map (\<lambda>c. [c]) w)" by (induction w) auto
  ultimately show "w \<in> all_of {[c] | c. f c}" unfolding all_of_def by blast
qed

text \<open>Searching for a plain pattern finds out whether a word of its language occurs.\<close>

lemma search_at_plain:
  assumes "plain r"
  shows "search_at r b s \<noteq> None \<longleftrightarrow> (\<exists>u x v. s = u @ x @ v \<and> x \<in> lang r)"
proof (induction s arbitrary: b)
  case Nil
  have "matches r \<lparr>prev = b, after = [], groups = []\<rparr> \<noteq> [] \<longleftrightarrow> rests (lang r) [] \<noteq> {}"
    using matches_rests [OF assms, of "\<lparr>prev = b, after = [], groups = []\<rparr>"] by auto
  then show ?case by (auto simp: rests_def Let_def split: list.split)
next
  case (Cons c s)
  have here: "matches r \<lparr>prev = b, after = c # s, groups = []\<rparr> \<noteq> [] \<longleftrightarrow> rests (lang r) (c # s) \<noteq> {}"
    using matches_rests [OF assms, of "\<lparr>prev = b, after = c # s, groups = []\<rparr>"] by auto
  have "(\<exists>u x v. c # s = u @ x @ v \<and> x \<in> lang r) \<longleftrightarrow>
      rests (lang r) (c # s) \<noteq> {} \<or> (\<exists>u x v. s = u @ x @ v \<and> x \<in> lang r)" (is "?l \<longleftrightarrow> ?r")
  proof
    assume ?l
    then obtain u x v where "c # s = u @ x @ v" "x \<in> lang r" by blast
    then show ?r
    proof (cases u)
      case Nil
      with \<open>c # s = u @ x @ v\<close> \<open>x \<in> lang r\<close> show ?thesis by (auto simp: rests_def)
    next
      case (Cons d w)
      with \<open>c # s = u @ x @ v\<close> \<open>x \<in> lang r\<close> show ?thesis by auto
    qed
  next
    assume ?r
    then show ?l
    proof
      assume "rests (lang r) (c # s) \<noteq> {}"
      then show ?l by (auto simp: rests_def) (metis append_Nil)
    next
      assume "\<exists>u x v. s = u @ x @ v \<and> x \<in> lang r"
      then show ?l by (metis append_Cons)
    qed
  qed
  with here Cons [of "Some c"] show ?case by (auto simp: Let_def split: list.split)
qed

lemma re_found_plain: "plain r \<Longrightarrow> re_found r s \<longleftrightarrow> (\<exists>u x v. s = u @ x @ v \<and> x \<in> lang r)"
  unfolding re_found_def re_search_def by (rule search_at_plain)

section \<open>What a group holds\<close>

primrec group_names :: "re \<Rightarrow> string set" where
  "group_names Eps = {}"
| "group_names (Cls f) = {}"
| "group_names (Seq r s) = group_names r \<union> group_names s"
| "group_names (Alt r s) = group_names r \<union> group_names s"
| "group_names (Rep r) = group_names r"
| "group_names (Group n r) = insert n (group_names r)"
| "group_names WordBoundary = {}"
| "group_names TextStart = {}"
| "group_names LineStart = {}"
| "group_names LineEnd = {}"
| "group_names TextEnd = {}"
| "group_names (NotBehind f) = {}"
| "group_names (NotAhead r) = {}"

lemma turns_keep:
  assumes "\<And>p q. q \<in> set (f p) \<Longrightarrow> P p \<Longrightarrow> P q" and "q \<in> set (turns f n p)" and "P p"
  shows "P q"
  using assms(2,3) by (induction n arbitrary: p) (auto dest: assms(1))

text \<open>A pattern sets only the groups it names, and leaves a suffix of the text.\<close>

lemma matches_keep_group:
  "q \<in> set (matches r p) \<Longrightarrow> n \<notin> group_names r \<Longrightarrow> dict_get (groups p) n = g \<Longrightarrow> dict_get (groups q) n = g"
proof (induction r arbitrary: p q)
  case (Cls f)
  then show ?case by (auto split: list.splits if_splits)
next
  case (Seq r s)
  then show ?case by fastforce
next
  case (Rep r)
  have "dict_get (groups q) n = g" if "q \<in> set (matches r p)" "dict_get (groups p) n = g" for p q
    using Rep that by simp
  then show ?case
    using turns_keep [of "matches r" "\<lambda>p. dict_get (groups p) n = g" q "length (after p)" p] Rep.prems by simp
next
  case (Group m r)
  then show ?case by (auto simp: dict_get_set)
qed (auto split: if_splits option.splits)

lemma matches_suffix: "q \<in> set (matches r p) \<Longrightarrow> \<exists>u. after p = u @ after q"
proof (induction r arbitrary: p q)
  case (Cls f)
  then show ?case by (cases "after p") (auto split: if_splits)
next
  case (Seq r s)
  then obtain t where t: "t \<in> set (matches r p)" "q \<in> set (matches s t)" by auto
  obtain u v where "after p = u @ after t" "after t = v @ after q" using Seq.IH t by metis
  then have "after p = (u @ v) @ after q" by simp
  then show ?case by blast
next
  case (Rep r)
  have step: "\<exists>u. after p = u @ after b" if ab: "b \<in> set (matches r a)" "\<exists>u. after p = u @ after a" for a b
  proof -
    obtain u v where "after a = v @ after b" "after p = u @ after a" using Rep.IH [OF ab(1)] ab(2) by blast
    then have "after p = (u @ v) @ after b" by simp
    then show ?thesis by blast
  qed
  then show ?case
    using turns_keep [of "matches r" "\<lambda>x. \<exists>u. after p = u @ after x" q "length (after p)" p] Rep.prems by simp
next
  case (Group m r)
  then show ?case by auto
qed (auto split: if_splits option.splits)

lemma search_at_match:
  "search_at r b s = Some (p, q) \<Longrightarrow> q \<in> set (matches r p) \<and> (\<exists>u. s = u @ after p)"
proof (induction s arbitrary: b)
  case Nil
  then show ?case by (auto simp: Let_def split: list.splits)
next
  case (Cons c s)
  show ?case
  proof (cases "matches r \<lparr>prev = b, after = c # s, groups = []\<rparr>")
    case Nil
    with Cons have "q \<in> set (matches r p) \<and> (\<exists>u. s = u @ after p)" by (auto simp: Let_def)
    then show ?thesis by (auto intro: exI [of _ "c # u" for u])
  next
    case (Cons a as)
    with Cons.prems show ?thesis by (auto simp: Let_def)
  qed
qed

text \<open>A group of a search whose other parts do not set it holds a word of its own pattern.\<close>

lemma search_group:
  assumes "re_search (Seq pre (Seq (Group n r) post)) s = Some (p, q)" and "plain r" and "n \<notin> group_names post"
  shows "\<exists>u v. s = u @ group n q @ v \<and> group n q \<in> lang r"
proof -
  from search_at_match assms(1) obtain u where q: "q \<in> set (matches (Seq pre (Seq (Group n r) post)) p)"
    and s: "s = u @ after p" unfolding re_search_def by blast
  then obtain a b c where a: "a \<in> set (matches pre p)" and b: "b \<in> set (matches r a)"
    and c: "c = b\<lparr>groups := dict_set n (take (length (after a) - length (after b)) (after a)) (groups b)\<rparr>"
    and qc: "q \<in> set (matches post c)"
    by auto
  have "after b \<in> rests (lang r) (after a)"
    using b by (simp add: matches_rests [OF assms(2), symmetric])
  then obtain w where w: "w \<in> lang r" "after a = w @ after b" by (auto simp: rests_def)
  have "dict_get (groups c) n = Some w" using w by (simp add: c dict_get_set)
  then have "dict_get (groups q) n = Some w" by (rule matches_keep_group [OF qc assms(3)])
  then have g: "group n q = w" by (simp add: group_def dict_get_default_def)
  obtain x where "after p = x @ after a" using matches_suffix [OF a] by blast
  with s w g have "s = (u @ x) @ group n q @ after b" by simp
  with g w(1) show ?thesis by blast
qed

end
