(* ===== verification/Shlex.thy ===== *)
theory Shlex
  imports Regex
begin

text \<open>
  What the program uses of Python's \<^verbatim>\<open>shlex\<close>: the POSIX lexer with \<^verbatim>\<open>whitespace_split\<close>, as
  \<^verbatim>\<open>split\<close> and \<^verbatim>\<open>_command_segments\<close> configure it, and \<^verbatim>\<open>quote\<close> and \<^verbatim>\<open>join\<close>. The lexer's result
  is \<open>None\<close> where Python raises ValueError (a quotation or an escape without its end).
  The main lemmas show that lexing what \<open>join\<close> printed gives back its words.
\<close>

section \<open>The lexer\<close>

record lexer =
  whitespace :: string
  punctuation :: string
  commenters :: string

datatype lex_state =
    Blank
  | In_word
  | In_punctuation
  | In_quotes char
  | Escaped "char option"

text \<open>
  One character per step, with the token so far and whether it had quotes. \<open>Escaped\<close> holds the
  quotes to go back to. A character the lexer pushes back is one it has not consumed.
\<close>

definition quote_chars :: string where
  "quote_chars = [CHR 0x27, CHR 0x22]"

definition escape_char :: char where
  "escape_char = CHR 0x5C"

definition emit :: "bool \<Rightarrow> string \<Rightarrow> string list option \<Rightarrow> string list option" where
  "emit quoted tok rest =
     (if tok \<noteq> [] \<or> quoted then map_option (\<lambda>ts. tok # ts) rest else rest)"

definition skip_line :: "string \<Rightarrow> string" where
  "skip_line s = drop 1 (dropWhile (\<lambda>c. c \<noteq> CHR 0x0A) s)"

lemma length_skip_line: "2 * length (skip_line s) \<le> Suc (2 * length s)"
  using length_dropWhile_le [of "\<lambda>c. c \<noteq> CHR 0x0A" s] by (simp add: skip_line_def del: length_dropWhile_le)

text \<open>Only a word or an operator can end without consuming a character, and then it is over.\<close>

definition may_push_back :: "lex_state \<Rightarrow> bool" where
  "may_push_back st \<longleftrightarrow> st = In_word \<or> st = In_punctuation"

function lex :: "lexer \<Rightarrow> lex_state \<Rightarrow> bool \<Rightarrow> string \<Rightarrow> string \<Rightarrow> string list option" where
  "lex l Blank quoted tok [] = Some []"
| "lex l Blank quoted tok (c # s) =
     (if c \<in> set (whitespace l) then lex l Blank False [] s
      else if c \<in> set (commenters l) then lex l Blank False [] (skip_line s)
      else if c = escape_char then lex l (Escaped None) False [] s
      else if c \<in> set (punctuation l) then lex l In_punctuation False [c] s
      else if c \<in> set quote_chars then lex l (In_quotes c) True [] s
      else lex l In_word False [c] s)"
| "lex l (In_quotes q) quoted tok [] = None"
| "lex l (In_quotes q) quoted tok (c # s) =
     (if c = q then lex l In_word True tok s
      else if c = escape_char \<and> q = CHR 0x22 then lex l (Escaped (Some q)) True tok s
      else lex l (In_quotes q) True (tok @ [c]) s)"
| "lex l (Escaped st) quoted tok [] = None"
| "lex l (Escaped st) quoted tok (c # s) =
     (case st of
        None \<Rightarrow> lex l In_word quoted (tok @ [c]) s
      | Some q \<Rightarrow>
          lex l (In_quotes q) quoted
            ((if c \<noteq> escape_char \<and> c \<noteq> q then tok @ [escape_char] else tok) @ [c]) s)"
| "lex l In_word quoted tok [] = emit quoted tok (Some [])"
| "lex l In_word quoted tok (c # s) =
     (if c \<in> set (whitespace l) then emit quoted tok (lex l Blank False [] s)
      else if c \<in> set (commenters l) then emit quoted tok (lex l Blank False [] (skip_line s))
      else if c \<in> set quote_chars then lex l (In_quotes c) True tok s
      else if c = escape_char then lex l (Escaped None) quoted tok s
      else if c \<notin> set (punctuation l) then lex l In_word quoted (tok @ [c]) s
      else emit quoted tok (lex l Blank False [] (c # s)))"
| "lex l In_punctuation quoted tok [] = emit quoted tok (Some [])"
| "lex l In_punctuation quoted tok (c # s) =
     (if c \<in> set (whitespace l) then emit quoted tok (lex l Blank False [] s)
      else if c \<in> set (commenters l) then emit quoted tok (lex l Blank False [] (skip_line s))
      else if c \<in> set (punctuation l) then lex l In_punctuation quoted (tok @ [c]) s
      else emit quoted tok (lex l Blank False [] (c # s)))"
  by pat_completeness auto

termination
  by (relation "measure (\<lambda>(l, st, quoted, tok, s). 2 * length s + (if may_push_back st then 1 else 0))")
    (auto simp: may_push_back_def less_Suc_eq_le length_skip_line le_SucI)

definition split_lexer :: lexer where
  "split_lexer = \<lparr>whitespace = [CHR '' '', CHR 0x09, CHR 0x0D, CHR 0x0A], punctuation = [], commenters = []\<rparr>"

definition shlex_split :: "string \<Rightarrow> string list option" where
  "shlex_split s = lex split_lexer Blank False [] s"

section \<open>Quoting\<close>

definition safe_char :: "char \<Rightarrow> bool" where
  "safe_char c \<longleftrightarrow> word_char c \<or> c \<in> set ''@%+=:,./-''"

text \<open>Each single quote becomes a closing quote, a double-quoted single quote, an opening quote.\<close>

definition quote_char :: "char \<Rightarrow> string" where
  "quote_char c = (if c = CHR 0x27 then [CHR 0x27, CHR 0x22, CHR 0x27, CHR 0x22, CHR 0x27] else [c])"

definition shlex_quote :: "string \<Rightarrow> string" where
  "shlex_quote w =
     (if w = [] then [CHR 0x27, CHR 0x27]
      else if list_all safe_char w then w
      else [CHR 0x27] @ concat (map quote_char w) @ [CHR 0x27])"

fun join_with :: "string \<Rightarrow> string list \<Rightarrow> string" where
  "join_with sep [] = []"
| "join_with sep [w] = w"
| "join_with sep (w # ws) = w @ sep @ join_with sep ws"

definition shlex_join :: "string list \<Rightarrow> string" where
  "shlex_join ws = join_with '' '' (map shlex_quote ws)"

section \<open>Lexing what was joined\<close>

text \<open>
  A lexer that splits at blanks and treats no character specially that \<open>quote\<close> leaves bare.
\<close>

definition shell_lexer :: "lexer \<Rightarrow> bool" where
  "shell_lexer l \<longleftrightarrow>
     CHR '' '' \<in> set (whitespace l) \<and>
     (\<forall>c \<in> set (whitespace l @ punctuation l @ commenters l). \<not> safe_char c \<and> c \<notin> set quote_chars)"

lemma safe_char_cases:
  "\<not> safe_char (CHR 0x27)" "\<not> safe_char (CHR 0x22)" "\<not> safe_char (CHR 0x5C)" "\<not> safe_char (CHR '' '')"
  by (code_simp)+

lemma split_lexer_ok: "shell_lexer split_lexer"
  by code_simp

lemma lex_safe:
  assumes "shell_lexer l" and "list_all safe_char w"
  shows "lex l In_word quoted tok (w @ s) = lex l In_word quoted (tok @ w) s"
  using assms
proof (induction w arbitrary: tok)
  case Nil
  then show ?case by simp
next
  case (Cons c w)
  then have "safe_char c" "c \<noteq> escape_char" "c \<notin> set quote_chars"
    using safe_char_cases by (auto simp: quote_chars_def escape_char_def)
  with Cons show ?case by (auto simp: shell_lexer_def)
qed

lemma lex_quoted:
  assumes l: "shell_lexer l"
  shows "lex l (In_quotes (CHR 0x27)) True tok (concat (map quote_char w) @ [CHR 0x27] @ s) =
    lex l In_word True (tok @ w) s"
proof (induction w arbitrary: tok)
  case Nil
  then show ?case by simp
next
  case (Cons c w)
  show ?case
  proof (cases "c = CHR 0x27")
    case True
    have "CHR 0x27 \<notin> set (whitespace l @ commenters l)" "CHR 0x22 \<notin> set (whitespace l @ commenters l)"
      using l by (auto simp: shell_lexer_def quote_chars_def)
    with True Cons [of "tok @ [c]"] show ?thesis
      by (simp add: quote_char_def quote_chars_def escape_char_def)
  next
    case False
    with Cons [of "tok @ [c]"] show ?thesis by (simp add: quote_char_def)
  qed
qed

lemma lex_quote:
  assumes l: "shell_lexer l"
  shows "\<exists>quoted. (quoted \<or> w \<noteq> []) \<and> lex l Blank False [] (shlex_quote w @ s) = lex l In_word quoted w s"
proof -
  have q: "CHR 0x27 \<notin> set (whitespace l)" "CHR 0x27 \<notin> set (commenters l)" "CHR 0x27 \<notin> set (punctuation l)"
    using l by (auto simp: shell_lexer_def quote_chars_def)
  consider "w = []" | "w \<noteq> []" "list_all safe_char w" | "w \<noteq> []" "\<not> list_all safe_char w" by blast
  then show ?thesis
  proof cases
    case 1
    with q show ?thesis by (auto simp: shlex_quote_def quote_chars_def escape_char_def)
  next
    case 2
    then obtain c v where w: "w = c # v" "safe_char c" "list_all safe_char v" by (cases w) auto
    then have "c \<noteq> escape_char" "c \<notin> set quote_chars"
      using safe_char_cases by (auto simp: quote_chars_def escape_char_def)
    moreover have "c \<notin> set (whitespace l)" "c \<notin> set (commenters l)" "c \<notin> set (punctuation l)"
      using l w by (auto simp: shell_lexer_def)
    ultimately have "lex l Blank False [] (w @ s) = lex l In_word False w s"
      using w lex_safe [OF l w(3), of False "[c]" s] by simp
    with 2 show ?thesis by (auto simp: shlex_quote_def)
  next
    case 3
    have "lex l Blank False [] (shlex_quote w @ s) = lex l In_word True w s"
      using 3 q lex_quoted [OF l, of "[]" w s] by (simp add: shlex_quote_def quote_chars_def escape_char_def)
    then show ?thesis by blast
  qed
qed

lemma lex_join: "shell_lexer l \<Longrightarrow> lex l Blank False [] (shlex_join ws) = Some ws"
  unfolding shlex_join_def
proof (induction ws)
  case Nil
  then show ?case by simp
next
  case (Cons w ws)
  show ?case
  proof (cases ws)
    case Nil
    from lex_quote [OF Cons.prems, of w "[]"] show ?thesis by (auto simp: Nil emit_def)
  next
    case (Cons v vs)
    have "CHR '' '' \<in> set (whitespace l)" using Cons.prems by (simp add: shell_lexer_def)
    with Cons.IH [OF Cons.prems] lex_quote [OF Cons.prems, of w "'' '' @ join_with '' '' (map shlex_quote ws)"]
    show ?thesis by (auto simp: Cons emit_def)
  qed
qed

lemma split_join: "shlex_split (shlex_join ws) = Some ws"
  by (simp add: shlex_split_def lex_join split_lexer_ok)

end
