(* ===== verification/Py_String.thy ===== *)
theory Py_String
  imports Regex
begin

text \<open>The methods of Python's \<^verbatim>\<open>str\<close> that the program uses, on ASCII text.\<close>

definition starts_with :: "string \<Rightarrow> string \<Rightarrow> bool" where
  "starts_with u s \<longleftrightarrow> take (length u) s = u"

definition ends_with :: "string \<Rightarrow> string \<Rightarrow> bool" where
  "ends_with u s \<longleftrightarrow> length u \<le> length s \<and> drop (length s - length u) s = u"

text \<open>\<^verbatim>\<open>u in s\<close>\<close>

fun occurs_in :: "string \<Rightarrow> string \<Rightarrow> bool" where
  "occurs_in u [] = (u = [])"
| "occurs_in u (c # s) = (starts_with u (c # s) \<or> occurs_in u s)"

definition lstrip :: "string \<Rightarrow> string" where
  "lstrip s = dropWhile space_char s"

definition rstrip :: "string \<Rightarrow> string" where
  "rstrip s = rev (dropWhile space_char (rev s))"

definition strip :: "string \<Rightarrow> string" where
  "strip s = rstrip (lstrip s)"

text \<open>\<^verbatim>\<open>s.rsplit(c, 1)[-1]\<close> and \<^verbatim>\<open>s.split(c, 1)[0]\<close>.\<close>

definition after_last :: "char \<Rightarrow> string \<Rightarrow> string" where
  "after_last c s = rev (takeWhile (\<lambda>d. d \<noteq> c) (rev s))"

definition before_first :: "char \<Rightarrow> string \<Rightarrow> string" where
  "before_first c s = takeWhile (\<lambda>d. d \<noteq> c) s"

text \<open>\<^verbatim>\<open>s.split(c, 1)[-1]\<close>\<close>

definition after_first :: "char \<Rightarrow> string \<Rightarrow> string" where
  "after_first c s = (if c \<in> set s then drop (Suc (length (before_first c s))) s else s)"

lemma occurs_in_iff: "occurs_in u s \<longleftrightarrow> (\<exists>a b. s = a @ u @ b)"
proof (induction s)
  case Nil
  then show ?case by simp
next
  case (Cons c s)
  have "(\<exists>a b. c # s = a @ u @ b) \<longleftrightarrow> (\<exists>b. c # s = u @ b) \<or> (\<exists>a b. s = a @ u @ b)" (is "?l \<longleftrightarrow> ?r")
  proof
    assume ?l
    then obtain a b where ab: "c # s = a @ u @ b" by blast
    then show ?r by (cases a) auto
  next
    assume ?r
    then show ?l
    proof
      assume "\<exists>b. c # s = u @ b"
      then show ?l by (metis append_Nil)
    next
      assume "\<exists>a b. s = a @ u @ b"
      then show ?l by (metis append_Cons)
    qed
  qed
  moreover have "starts_with u (c # s) \<longleftrightarrow> (\<exists>b. c # s = u @ b)"
    unfolding starts_with_def by (metis append_eq_conv_conj)
  ultimately show ?case using Cons by simp
qed

text \<open>\<open>strip\<close> takes nothing from text that neither starts nor ends with a space.\<close>

lemma strip_keeps:
  assumes "s \<noteq> [] \<Longrightarrow> \<not> space_char (hd s) \<and> \<not> space_char (last s)"
  shows "strip s = s"
proof (cases s)
  case Nil
  then show ?thesis by (simp add: strip_def lstrip_def rstrip_def)
next
  case (Cons c cs)
  with assms have "lstrip s = s" by (simp add: lstrip_def)
  moreover have "dropWhile space_char (rev s) = rev s"
    using assms Cons by (cases "rev s") (auto simp: last_rev hd_rev simp flip: hd_rev)
  ultimately show ?thesis by (simp add: strip_def rstrip_def)
qed

lemma strip_strip: "strip (strip s) = strip s"
proof (rule strip_keeps)
  assume ne: "strip s \<noteq> []"
  define t where "t = lstrip s"
  define u where "u = dropWhile space_char (rev t)"
  have s: "strip s = rev u" by (simp add: strip_def rstrip_def t_def u_def)
  with ne have "u \<noteq> []" by simp
  then have "\<not> space_char (hd u)" unfolding u_def using hd_dropWhile by blast
  then have last: "\<not> space_char (last (strip s))" using s \<open>u \<noteq> []\<close> by (simp add: last_rev)
  obtain v where "rev t = v @ u" unfolding u_def by (metis takeWhile_dropWhile_id)
  then have "t = rev u @ rev v" by (metis rev_append rev_rev_ident)
  then have "hd t = hd (strip s)" "t \<noteq> []" using s ne by (auto simp: hd_append)
  moreover have "\<not> space_char (hd t)" using \<open>t \<noteq> []\<close> unfolding t_def lstrip_def using hd_dropWhile by blast
  ultimately show "\<not> space_char (hd (strip s)) \<and> \<not> space_char (last (strip s))" using last by simp
qed

end
