(* ===== verification/Normalize.thy ===== *)
theory Normalize
  imports Shlex Py_String Stream
begin

text \<open>
  mining/normalize.py: the classification of a tool call, and above all of a shell command, by
  kind and policy. The policy decides whether the daemon may run the command speculatively
  in the real workspace (\<^verbatim>\<open>free\<close>), in a fork (\<^verbatim>\<open>fork\<close>) or not at all (\<^verbatim>\<open>never\<close>).
  Commands are ASCII text.
\<close>

section \<open>Writes\<close>

definition WRITE_CMDS :: "string list" where
  "WRITE_CMDS = [''rm'', ''mkdir'', ''mv'', ''cp'', ''chmod'', ''touch'', ''tee'']"

text \<open>The text outside quotations.\<close>

definition quotation_re :: re where
  "quotation_re =
     (let quoted = (\<lambda>q. seqs [lit [q], Rep (none_of [q]), lit [q]])
      in Alt (quoted (CHR 0x27)) (quoted (CHR 0x22)))"

definition unquoted_text :: "string \<Rightarrow> string" where
  "unquoted_text s = re_remove quotation_re s"

definition heredoc_re :: re where
  "heredoc_re = seqs [lit ''<<'', Opt (lit ''-''), Rep Space, Opt (one_of quote_chars), Some_of Word]"

definition redirect_re :: re where
  "redirect_re = seqs [lit ''>'', Opt (lit ''>''), Rep Space, NonSpace]"

definition is_bash_write :: "string \<Rightarrow> bool" where
  "is_bash_write s =
     (if occurs_in ''apply_patch'' s then True
      else if re_found heredoc_re s then True
      else re_found redirect_re (unquoted_text s))"

definition sed_perl_re :: re where
  "sed_perl_re = seqs [WordBoundary, Alt (Seq (Opt (lit ''g'')) (lit ''sed'')) (lit ''perl''), WordBoundary]"

definition letter_char :: "char \<Rightarrow> bool" where
  "letter_char c \<longleftrightarrow> (CHR ''a'' \<le> c \<and> c \<le> CHR ''z'') \<or> (CHR ''A'' \<le> c \<and> c \<le> CHR ''Z'')"

definition inplace_flag_re :: re where
  "inplace_flag_re = seqs [TextStart, lit ''-'', Rep (Cls letter_char), lit ''i'']"

definition is_inplace :: "string \<Rightarrow> bool" where
  "is_inplace s =
     (if \<not> re_found sed_perl_re s then False
      else case shlex_split s of
        None \<Rightarrow> False
      | Some words \<Rightarrow>
          list_ex (\<lambda>w. starts_with ''--in-place'' w \<or> re_match inplace_flag_re w \<noteq> None) (drop 1 words))"

definition READ_LEADERS :: "string list" where
  "READ_LEADERS = [''sed'', ''cat'', ''head'', ''tail'', ''nl'', ''less'', ''stat'', ''grep'', ''rg'',
     ''find'', ''fd'', ''ag'', ''ls'']"

definition WRITING_FLAGS :: "string list" where
  "WRITING_FLAGS = [''--fix'', ''--fix-only'', ''--unsafe-fixes'', ''--write'', ''-w'', ''-o'',
     ''--output'', ''--output-file'', ''--output-dir'', ''--out'', ''--outDir'',
     ''--outFile'', ''--build'', ''--incremental'', ''--junitxml'', ''--junit-xml'',
     ''--cache-clear'', ''--cov-report'', ''--updateSnapshot'', ''-u'']"

definition lead_re :: re where
  "lead_re = Group ''lead'' (Some_of (Cls path_char))"

definition lead_of :: "re \<Rightarrow> string \<Rightarrow> string" where
  "lead_of r s =
     (case re_match r s of None \<Rightarrow> [] | Some q \<Rightarrow> after_last (CHR ''/'') (group ''lead'' q))"

definition xargs_write_re :: re where
  "xargs_write_re = seqs [WordBoundary, lit ''xargs'', WordBoundary, Rep AnyChar, WordBoundary,
     lits WRITE_CMDS, WordBoundary]"

definition writing_flag :: "string list \<Rightarrow> bool" where
  "writing_flag words = list_ex (\<lambda>w. before_first (CHR ''='') w \<in> set WRITING_FLAGS) (drop 1 words)"

definition formatter_writes :: "string list \<Rightarrow> bool" where
  "formatter_writes words =
     (words \<noteq> [] \<and> hd words \<in> {''ruff'', ''black'', ''prettier''} \<and>
      ''--check'' \<notin> set words \<and> ''--diff'' \<notin> set words \<and>
      (''format'' \<in> set words \<or> hd words = ''black''))"

definition segment_is_write :: "string \<Rightarrow> bool" where
  "segment_is_write seg0 =
     (let seg = strip seg0 in
      if is_inplace seg \<or> is_bash_write seg then True
      else case shlex_split seg of
        None \<Rightarrow> False
      | Some words \<Rightarrow>
          if writing_flag words then True
          else if formatter_writes words then True
          else let tok = lead_of lead_re seg in
            if tok \<in> set WRITE_CMDS then True
            else if re_found xargs_write_re seg then True
            else if tok \<in> set READ_LEADERS then False
            else is_bash_write seg)"

section \<open>Commands that are never speculated\<close>

definition INSTALL_RE :: re where
  "INSTALL_RE =
     (let pip = Seq (lit ''pip'') (Opt (lit ''3'')); gap = Some_of Space
      in Seq WordBoundary (alts [
        seqs [pip, gap, lit ''install''],
        seqs [pip, gap, lit ''download''],
        seqs [lit ''python'', Opt (lit ''3''), gap, lit ''-m'', gap, lit ''pip'', gap, lit ''install''],
        seqs [lit ''npm'', gap, lit ''install''],
        seqs [lit ''npm'', gap, lit ''i'', WordBoundary],
        seqs [lit ''npm'', gap, lit ''ci''],
        seqs [lit ''yarn'', gap, lit ''add''],
        seqs [lit ''pnpm'', gap, lit ''add''],
        seqs [lit ''cargo'', gap, lit ''add''],
        seqs [lit ''poetry'', gap, lit ''add''],
        seqs [lit ''apt'', Opt (lit ''-get''), gap, lit ''install''],
        seqs [lit ''apk'', gap, lit ''add''],
        seqs [lit ''dnf'', gap, lit ''install''],
        seqs [lit ''yum'', gap, lit ''install''],
        seqs [lit ''brew'', gap, lit ''install'']]))"

definition NETWORK_RE :: re where
  "NETWORK_RE = alts [
     seqs [Alt TextStart (Seq (one_of ''|&;'') (Rep Space)),
       lits [''curl'', ''wget'', ''nc'', ''scp'', ''rsync'', ''ssh'', ''sftp'', ''ftp''], WordBoundary],
     seqs [lit ''http'', Opt (lit ''s''), lit ''://''],
     lit ''ftp://'']"

definition tee_append_re :: re where
  "tee_append_re = seqs [WordBoundary, lit ''tee'', Some_of Space,
     Alt (Seq (lit ''-a'') WordBoundary) (Seq (lit ''--append'') WordBoundary)]"

definition append_re :: re where
  "append_re = Seq (NotBehind (\<lambda>c. c \<in> set ''|&2'')) (lit ''>>'')"

definition is_append :: "string \<Rightarrow> bool" where
  "is_append s =
     (if re_found tee_append_re s then True else re_found append_re (unquoted_text s))"

definition DESTRUCTIVE_CMDS :: "string list" where
  "DESTRUCTIVE_CMDS = [''rm'', ''dd'', ''mkfs'', ''shred'', ''truncate'']"

definition UNSAFE_META_RE :: re where
  "UNSAFE_META_RE = alts [
     lit '';'',
     lit ''$('',
     lit [CHR 0x60],
     Seq (one_of ''<>'') (lit ''(''),
     seqs [NotBehind (\<lambda>c. c \<in> set ''&>''), lit ''&'', NotAhead (lit ''&'')]]"

definition DESTRUCTIVE_FLAG_RE :: re where
  "DESTRUCTIVE_FLAG_RE = seqs [Alt TextStart Space, lits [''-delete'', ''--delete''], WordBoundary]"

definition find_exec_re :: re where
  "find_exec_re = seqs [WordBoundary, lit ''find'', WordBoundary, Rep AnyChar, Space, lit ''-'',
     alts [Seq (lit ''exec'') (Opt (lit ''dir'')), Seq (lit ''ok'') (Opt (lit ''dir'')),
       Seq (lit ''fprint'') (Opt (one_of ''0f'')), lit ''fls''], WordBoundary]"

definition flag_end_re :: re where
  "flag_end_re = alts [Space, lit ''='', TextEnd]"

definition fd_exec_re :: re where
  "fd_exec_re = seqs [WordBoundary, lit ''fd'', WordBoundary, Rep AnyChar, Space,
     Alt (Seq (lit ''-'') (one_of ''xX'')) (Seq (lit ''--exec'') (Opt (lit ''-batch''))), flag_end_re]"

definition rg_exec_re :: re where
  "rg_exec_re = seqs [WordBoundary, lit ''rg'', WordBoundary, Rep AnyChar, Space, lit ''--'',
     lits [''pre'', ''hostname-bin''], flag_end_re]"

definition separator_re :: re where
  "separator_re = lits [''&&'', ''||'', '';'', ''|'']"

definition env_lead_re :: re where
  "env_lead_re = Seq (Rep (seqs [Some_of Word, lit ''='', Some_of NonSpace, Some_of Space])) lead_re"

definition word_re :: "string \<Rightarrow> re" where
  "word_re w = seqs [WordBoundary, lit w, WordBoundary]"

fun destructive_segment :: "nat \<Rightarrow> string list \<Rightarrow> bool" where
  "destructive_segment i [] = False"
| "destructive_segment i (seg # segs) =
     (if 0 < i \<and> lead_of env_lead_re (strip seg) \<in> set DESTRUCTIVE_CMDS then True
      else if re_found (word_re ''xargs'') seg \<and> list_ex (\<lambda>d. re_found (word_re d) seg) DESTRUCTIVE_CMDS
      then True
      else destructive_segment (Suc i) segs)"

definition is_never_command :: "string \<Rightarrow> bool" where
  "is_never_command s =
     (if re_found UNSAFE_META_RE s \<or> re_found DESTRUCTIVE_FLAG_RE s then True
      else if re_found find_exec_re s then True
      else if re_found fd_exec_re s then True
      else if re_found rg_exec_re s then True
      else destructive_segment 0 (re_split separator_re s))"

section \<open>The commands of a line\<close>

definition separator_chars :: string where
  "separator_chars = [CHR '';'', CHR ''&'', CHR ''|'', CHR 0x0A]"

definition segment_lexer :: lexer where
  "segment_lexer =
     \<lparr>whitespace = [CHR '' '', CHR 0x09, CHR 0x0D], punctuation = separator_chars, commenters = ''#''\<rparr>"

definition is_separator :: "string \<Rightarrow> bool" where
  "is_separator tok \<longleftrightarrow> tok \<noteq> [] \<and> set tok \<subseteq> set separator_chars"

text \<open>The loop over the tokens: the words since the last separator, and the rest of the tokens.\<close>

fun word_groups :: "string list \<Rightarrow> string list \<Rightarrow> string list list" where
  "word_groups words [] = [words]"
| "word_groups words (tok # toks) =
     (if is_separator tok then words # word_groups [] toks else word_groups (words @ [tok]) toks)"

definition command_segments :: "string \<Rightarrow> string list option" where
  "command_segments s =
     map_option (\<lambda>toks. map shlex_join (word_groups [] toks)) (lex segment_lexer Blank False [] s)"

lemma segment_lexer_ok: "shell_lexer segment_lexer"
  by code_simp

lemma word_groups_no_separator:
  "tok \<in> set ws \<Longrightarrow> ws \<in> set (word_groups words toks) \<Longrightarrow> list_all (\<lambda>t. \<not> is_separator t) words \<Longrightarrow>
   \<not> is_separator tok"
  by (induction words toks rule: word_groups.induct) (auto simp: list_all_iff split: if_splits)

lemma word_groups_words: "list_all (\<lambda>t. \<not> is_separator t) ws \<Longrightarrow> word_groups words ws = [words @ ws]"
  by (induction ws arbitrary: words) auto

text \<open>A segment has no separator left in it, so segmenting it again gives it back.\<close>

lemma segment_of_segment:
  assumes "command_segments s = Some segs" and "seg \<in> set segs"
  shows "command_segments seg = Some [seg]"
proof -
  from assms obtain toks ws where ws: "ws \<in> set (word_groups [] toks)" "seg = shlex_join ws"
    by (auto simp: command_segments_def)
  then have "list_all (\<lambda>t. \<not> is_separator t) ws"
    using word_groups_no_separator [OF _ ws(1)] by (simp add: list_all_iff)
  with ws show ?thesis
    by (simp add: command_segments_def lex_join [OF segment_lexer_ok] word_groups_words)
qed


lemma join_ends:
  assumes "join_with '' '' ws \<noteq> []" and "\<forall>w \<in> set ws. w \<noteq> [] \<and> \<not> space_char (hd w) \<and> \<not> space_char (last w)"
  shows "\<not> space_char (hd (join_with '' '' ws)) \<and> \<not> space_char (last (join_with '' '' ws))"
  using assms
proof (induction "'' ''" ws rule: join_with.induct)
  case (3 w v vs)
  then have "join_with '' '' (v # vs) \<noteq> []" by (cases vs) auto
  with 3 show ?case by simp
qed simp_all

lemma safe_not_space: "safe_char c \<Longrightarrow> \<not> space_char c"
  by (auto simp: space_char_def safe_char_def word_char_def less_eq_char_def)

lemma quote_ends: "shlex_quote w \<noteq> [] \<and> \<not> space_char (hd (shlex_quote w)) \<and> \<not> space_char (last (shlex_quote w))"
proof -
  have "\<not> space_char (CHR 0x27)" by code_simp
  moreover have "list_all safe_char w \<Longrightarrow> w \<noteq> [] \<Longrightarrow> \<not> space_char (hd w) \<and> \<not> space_char (last w)"
    by (auto simp: list_all_iff intro!: safe_not_space)
  ultimately show ?thesis by (auto simp: shlex_quote_def)
qed

lemma strip_join: "strip (shlex_join ws) = shlex_join ws"
  unfolding shlex_join_def by (intro strip_keeps join_ends) (auto simp: quote_ends)

section \<open>Classifying a command\<close>

definition test_re :: re where
  "test_re = seqs [
     Opt (seqs [lit ''python'', Opt (lit ''3''), Some_of Space, lit ''-m'', Some_of Space]),
     lits [''pytest'', ''unittest''], Alt Space TextEnd]"

definition script_re :: re where
  "script_re = seqs [alts [Seq (lit ''python'') (Opt (lit ''3'')), lit ''node'', lit ''ruby''], Some_of Space,
     NotAhead (lit ''-''), Some_of (Cls path_char), lit ''.'', lits [''py'', ''js'', ''rb''], TextEnd]"

definition go_run_re :: re where
  "go_run_re = seqs [lit ''go'', Some_of Space, lit ''run'', Some_of Space, Some_of (Cls path_char),
     lit ''.go'', TextEnd]"

definition interpreter_re :: re where
  "interpreter_re = Seq
     (alts [Seq (lit ''python'') (Opt (lit ''3'')), lit ''node'', lit ''ruby'', lit ''bash'', lit ''sh'', lit ''zsh''])
     (Some_of Space)"

definition sed_re :: re where
  "sed_re = seqs [Opt (Seq (Rep NonSpace) (lit ''/'')), lit ''sed'', Alt Space TextEnd]"

definition CMD_KINDS :: "(string list \<times> (string \<times> string) option) list" where
  "CMD_KINDS = [
     ([''pytest'', ''unittest'', ''jest'', ''go test'', ''cargo test'', ''npm test'', ''vitest''],
      Some (''test'', ''free'')),
     ([''ruff'', ''flake8'', ''eslint'', ''pylint'', ''clippy'', ''black --check''], Some (''lint'', ''free'')),
     ([''mypy'', ''tsc'', ''pyright'', ''py_compile'', ''pyre''], Some (''typecheck'', ''free'')),
     ([''make'', ''cargo build'', ''npm run build'', ''tsc --build'', ''go build'', ''cmake''],
      Some (''build'', ''free'')),
     ([''rg'', ''grep'', ''find'', ''fd'', ''ag'', ''ls'', ''glob''], None),
     ([''cat'', ''head'', ''tail'', ''nl'', ''less'', ''stat'', ''pwd'', ''pdftotext'', ''pdfinfo''],
      Some (''read'', ''free'')),
     ([''sed'', ''awk'', ''mv'', ''cp'', ''mkdir'', ''touch'', ''rm'', ''chmod'', ''tee''],
      Some (''edit'', ''fork'')),
     ([''echo'', ''python'', ''node'', ''bash'', ''sh''], None)]"

definition kind_of_prefix :: "string \<Rightarrow> (string \<times> string) option \<Rightarrow> string \<times> string" where
  "kind_of_prefix p k =
     (case k of
        Some kv \<Rightarrow> kv
      | None \<Rightarrow>
          if p \<in> {''rg'', ''grep'', ''find'', ''fd'', ''ag'', ''ls'', ''glob''} then
            (if p \<in> {''rg'', ''grep'', ''find'', ''fd'', ''ag''} then (''grep'', ''free'') else (''read'', ''free''))
          else (''read'', ''free''))"

definition has_prefix :: "string \<Rightarrow> string \<Rightarrow> bool" where
  "has_prefix p s \<longleftrightarrow> s = p \<or> starts_with (p @ '' '') s"

fun kind_by_prefix :: "(string list \<times> (string \<times> string) option) list \<Rightarrow> string \<Rightarrow> string \<times> string" where
  "kind_by_prefix [] s = (''unknown'', ''never'')"
| "kind_by_prefix ((ps, k) # rows) s =
     (case find (\<lambda>p. has_prefix p s) ps of
        Some p \<Rightarrow> kind_of_prefix p k
      | None \<Rightarrow> kind_by_prefix rows s)"

definition mentions_git :: "string \<Rightarrow> bool" where
  "mentions_git s \<longleftrightarrow>
     starts_with ''git'' s \<or> occurs_in '' git '' ('' '' @ s @ '' '') \<or> occurs_in ''&& git'' s"

text \<open>The checks that come before the line is taken apart, and those on a single command.\<close>

definition classify_whole :: "string \<Rightarrow> (string \<times> string) option" where
  "classify_whole s =
     (if mentions_git s then Some (''git'', ''never'')
      else if is_never_command s then Some (''unsafe'', ''never'')
      else if re_found INSTALL_RE s then Some (''install'', ''never'')
      else if re_found NETWORK_RE s then Some (''network'', ''never'')
      else if is_append s then Some (''append'', ''never'')
      else if is_bash_write s then Some (''edit'', ''fork'')
      else None)"

definition classify_single :: "string \<Rightarrow> string \<times> string" where
  "classify_single s =
     (if re_match test_re s \<noteq> None then (''test'', ''free'')
      else if (re_match script_re s \<noteq> None \<or> re_match go_run_re s \<noteq> None) \<and> \<not> occurs_in ''manage.py'' s
      then (''run'', ''free'')
      else if re_match interpreter_re s \<noteq> None then (''unknown'', ''never'')
      else if re_match sed_re s \<noteq> None then (''read'', ''free'')
      else kind_by_prefix CMD_KINDS s)"

definition segments_of :: "string \<Rightarrow> string list" where
  "segments_of s = (case command_segments s of None \<Rightarrow> [] | Some segs \<Rightarrow> segs)"

function classify_command :: "string \<Rightarrow> string \<times> string" where
  "classify_command skel =
     (let s = strip skel in
      case classify_whole s of
        Some kv \<Rightarrow> kv
      | None \<Rightarrow>
          (case command_segments s of
             None \<Rightarrow> (''unsafe'', ''never'')
           | Some segs \<Rightarrow>
               if list_ex segment_is_write segs then (''edit'', ''fork'')
               else if 1 < length segs then
                 (let classified = map classify_command (filter (\<lambda>seg. strip seg \<noteq> []) segs)
                  in if classified = [] \<or> list_ex (\<lambda>kv. snd kv \<noteq> ''free'') classified
                     then (''unsafe'', ''never'') else hd classified)
               else classify_single s))"
  by pat_completeness auto

text \<open>The recursion ends: a segment of a line of several commands is a line of one.\<close>

termination
proof (relation "measure (\<lambda>s. length (segments_of (strip s)))", goal_cases)
  case 1
  then show ?case by simp
next
  case (2 skel s segs seg)
  then have "seg \<in> set segs" by auto
  moreover from this 2 have "strip seg = seg" by (auto simp: command_segments_def strip_join)
  ultimately have "command_segments (strip seg) = Some [seg]"
    using 2 segment_of_segment by metis
  with 2 show ?case by (simp add: segments_of_def)
qed

declare classify_command.simps [simp del]


definition BASH_TOOLS :: "string set" where
  "BASH_TOOLS = {''Bash'', ''shell_command'', ''shell'', ''exec_command'', ''write_stdin''}"

definition classify :: "string \<Rightarrow> string option \<Rightarrow> string \<times> string" where
  "classify tool_name command_skeleton =
     (if tool_name \<in> READ_TOOLS then (''read'', ''free'')
      else if tool_name \<in> GREP_TOOLS then (''grep'', ''free'')
      else if tool_name \<in> EDIT_TOOLS then (''edit'', ''fork'')
      else if tool_name \<in> SUBLLM_TOOLS then (''sub-LLM'', ''free'')
      else case command_skeleton of
        Some skel \<Rightarrow>
          if tool_name \<in> BASH_TOOLS \<and> skel \<noteq> [] then classify_command skel else (''unknown'', ''never'')
      | None \<Rightarrow> (''unknown'', ''never''))"

section \<open>Rows of a corpus\<close>

text \<open>
  A row's tools and timing events, with their optional fields; a field that is absent or null
  is \<open>None\<close> (or \<open>PNone\<close>).
\<close>

record tool_row =
  tr_call_id :: "string option"
  tr_name :: "string option"
  tr_skeleton :: "string option"
  tr_is_error :: pyval
  tr_internal_ms :: pyval
  tr_wall_ms :: pyval

record timing_event =
  tm_type :: "string option"
  tm_call_id :: "string option"
  tm_name :: "string option"

record corpus_row =
  row_index :: "rat option"
  row_tools :: "tool_row list"
  row_events :: "timing_event list"

definition no_tool :: tool_row where
  "no_tool = \<lparr>tr_call_id = None, tr_name = None, tr_skeleton = None, tr_is_error = PNone,
     tr_internal_ms = PNone, tr_wall_ms = PNone\<rparr>"

definition status_of :: "bool \<Rightarrow> string \<Rightarrow> string" where
  "status_of is_error kind =
     (if kind \<in> {''test'', ''lint'', ''typecheck'', ''build''} then (if is_error then ''FAIL'' else ''PASS'')
      else (if is_error then ''ERR'' else ''OK''))"

definition latency :: "tool_row \<Rightarrow> pyval" where
  "latency tool = (if tr_internal_ms tool = PNone then tr_wall_ms tool else tr_internal_ms tool)"

definition nonempty :: "string option \<Rightarrow> string option" where
  "nonempty s = (if s = Some [] then None else s)"

definition tools_by_id :: "tool_row list \<Rightarrow> (string, tool_row) dict" where
  "tools_by_id ts =
     fold (\<lambda>t d. case nonempty (tr_call_id t) of None \<Rightarrow> d | Some i \<Rightarrow> dict_set i t d) ts []"

definition tool_of :: "(string, tool_row) dict \<Rightarrow> timing_event \<Rightarrow> tool_row" where
  "tool_of tools ev =
     (case tm_call_id ev of None \<Rightarrow> no_tool | Some i \<Rightarrow> dict_get_default tools i no_tool)"

definition event_name :: "(string, tool_row) dict \<Rightarrow> timing_event \<Rightarrow> string option" where
  "event_name tools ev =
     (if tm_type ev \<noteq> Some ''tool_call'' then None
      else case nonempty (tm_name ev) of
        Some name \<Rightarrow> Some name
      | None \<Rightarrow> nonempty (tr_name (tool_of tools ev)))"

definition normalize_event ::
  "(string, tool_row) dict \<Rightarrow> rat option \<Rightarrow> timing_event \<Rightarrow> tool_event list \<Rightarrow> py_error + tool_event list" where
  "normalize_event tools index ev events =
     (case event_name tools ev of
        None \<Rightarrow> Inr events
      | Some name \<Rightarrow>
          let tool = tool_of tools ev;
              kv = classify name (tr_skeleton tool);
              is_error = py_truthy (tr_is_error tool)
          in case index of
            None \<Rightarrow> Inl (KeyError ''round_index'')
          | Some r \<Rightarrow>
              (case mk_tool_event
                 \<lparr>te_t = r + of_nat (length events) / 1000, te_kind = fst kv, te_verb = snd kv,
                  te_role = ''main'', te_epoch = 0, te_args = PDict [(''latency_ms'', latency tool)],
                  te_outcome = Some \<lparr>oc_kind = fst kv, oc_status = status_of is_error (fst kv)\<rparr>\<rparr> of
                 Inl e \<Rightarrow> Inl e
               | Inr e \<Rightarrow> Inr (events @ [e])))"

definition normalize_row :: "corpus_row \<Rightarrow> py_error + tool_event list" where
  "normalize_row row =
     (let tools = tools_by_id (row_tools row)
      in fold_res (normalize_event tools (row_index row)) (row_events row) [])"

section \<open>Every policy is a known one\<close>

lemma find_kind_of_prefix:
  "kind_by_prefix CMD_KINDS s \<in>
     {(''test'', ''free''), (''lint'', ''free''), (''typecheck'', ''free''), (''build'', ''free''),
      (''grep'', ''free''), (''read'', ''free''), (''edit'', ''fork''), (''unknown'', ''never'')}"
  by (simp add: CMD_KINDS_def kind_of_prefix_def split: option.split)

lemma classify_single_known: "snd (classify_single s) \<in> POLICIES"
  using find_kind_of_prefix [of s] by (auto simp: classify_single_def POLICIES_def)

lemma classify_whole_not_free: "classify_whole s = Some kv \<Longrightarrow> snd kv \<in> {''fork'', ''never''}"
  by (auto simp: classify_whole_def split: if_splits)

lemma classify_command_known: "snd (classify_command skel) \<in> POLICIES"
proof -
  have hd_free: "snd (hd kvs) \<in> POLICIES"
    if "\<not> (kvs = [] \<or> list_ex (\<lambda>kv. snd kv \<noteq> ''free'') kvs)" for kvs :: "(string \<times> string) list"
    using that by (cases kvs) (auto simp: POLICIES_def)
  have whole: "snd kv \<in> POLICIES" if "classify_whole (strip skel) = Some kv" for kv
    using classify_whole_not_free [OF that] by (auto simp: POLICIES_def)
  have lits: "''never'' \<in> POLICIES" "''fork'' \<in> POLICIES"
    by (simp_all add: POLICIES_def)
  show ?thesis
    by (subst classify_command.simps)
      (simp add: Let_def whole hd_free lits classify_single_known split: option.split)
qed

lemma classify_known: "snd (classify name skel) \<in> POLICIES"
  using classify_command_known by (auto simp: classify_def POLICIES_def split: option.split)

lemma normalize_events_total:
  "\<exists>evs. fold_res (normalize_event tools (Some r)) tms acc = Inr (acc @ evs) \<and>
     length evs = length (filter (\<lambda>ev. event_name tools ev \<noteq> None) tms) \<and>
     (\<forall>i < length evs. te_t (evs ! i) = r + of_nat (length acc + i) / 1000) \<and>
     (\<forall>e \<in> set evs. te_verb e \<in> POLICIES)"
proof (induction tms arbitrary: acc)
  case Nil
  then show ?case by simp
next
  case (Cons ev tms)
  show ?case
  proof (cases "event_name tools ev")
    case None
    then show ?thesis using Cons [of acc] by (simp add: normalize_event_def)
  next
    case (Some name)
    then obtain e where step: "normalize_event tools (Some r) ev acc = Inr (acc @ [e])"
      "te_t e = r + of_nat (length acc) / 1000" "te_verb e \<in> POLICIES"
      using classify_known [of name "tr_skeleton (tool_of tools ev)"]
      by (auto simp: normalize_event_def mk_tool_event_def Let_def)
    obtain evs where evs: "fold_res (normalize_event tools (Some r)) tms (acc @ [e]) = Inr ((acc @ [e]) @ evs)"
      "length evs = length (filter (\<lambda>ev. event_name tools ev \<noteq> None) tms)"
      "\<forall>i < length evs. te_t (evs ! i) = r + of_nat (length (acc @ [e]) + i) / 1000"
      "\<forall>e \<in> set evs. te_verb e \<in> POLICIES"
      using Cons [of "acc @ [e]"] by blast
    then show ?thesis using Some step
      by (intro exI [of _ "e # evs"]) (auto simp: nth_Cons add_ac split: nat.split)
  qed
qed

text \<open>
  With a round index, normalising a row never raises: it yields one event per named tool
  call, in order, a millisecond apart, each with a policy that \<^verbatim>\<open>ToolEvent\<close> accepts.
\<close>

theorem normalize_row_total:
  assumes "row_index row = Some r"
  shows "\<exists>evs. normalize_row row = Inr evs \<and>
    length evs = length (filter (\<lambda>ev. event_name (tools_by_id (row_tools row)) ev \<noteq> None) (row_events row)) \<and>
    (\<forall>i < length evs. te_t (evs ! i) = r + of_nat i / 1000) \<and>
    (\<forall>e \<in> set evs. te_verb e \<in> POLICIES)"
  using normalize_events_total [of "tools_by_id (row_tools row)" r "row_events row" "[]"] assms
  by (simp add: normalize_row_def Let_def)


definition demo_row :: corpus_row where
  "demo_row = \<lparr>row_index = Some 2,
     row_tools = [\<lparr>tr_call_id = Some ''a'', tr_name = Some ''Bash'', tr_skeleton = Some ''ls'',
       tr_is_error = PBool False, tr_internal_ms = PNone, tr_wall_ms = PInt 7\<rparr>],
     row_events = [\<lparr>tm_type = Some ''tool_call'', tm_call_id = Some ''a'', tm_name = None\<rparr>,
       \<lparr>tm_type = Some ''other'', tm_call_id = None, tm_name = Some ''Read''\<rparr>]\<rparr>"

theorem normalize_row_total_witness:
  "\<exists>evs. normalize_row demo_row = Inr evs \<and> length evs = 1"
proof -
  have "row_index demo_row = Some 2" by (simp add: demo_row_def)
  moreover have "length (filter (\<lambda>ev. event_name (tools_by_id (row_tools demo_row)) ev \<noteq> None)
      (row_events demo_row)) = 1"
    by code_simp
  ultimately show ?thesis using normalize_row_total [of demo_row 2] by auto
qed

section \<open>What a free command does not do\<close>

lemma classify_command_free:
  assumes "classify_command skel = (k, ''free'')"
  shows "classify_whole (strip skel) = None \<and>
    (\<exists>segs. command_segments (strip skel) = Some segs \<and> \<not> list_ex segment_is_write segs \<and>
      (1 < length segs \<longrightarrow> (\<forall>seg \<in> set segs. strip seg \<noteq> [] \<longrightarrow> snd (classify_command seg) = ''free'')))"
proof (cases "classify_whole (strip skel)")
  case (Some kv)
  then show ?thesis using assms classify_whole_not_free [OF Some]
    by (subst (asm) classify_command.simps) simp
next
  case None
  then show ?thesis using assms
    by (subst (asm) classify_command.simps)
      (auto simp: Let_def list_ex_iff image_iff split: option.splits if_splits)
qed

text \<open>The leading word of a segment: \<open>lead_re\<close> takes all it can.\<close>

lemma turns_cls_hd:
  "length (after p) \<le> n \<Longrightarrow> \<exists>q qs. turns (matches (Cls f)) n p = q # qs \<and>
     after q = dropWhile f (after p) \<and> groups q = groups p"
proof (induction n arbitrary: p)
  case 0
  then show ?case by simp
next
  case (Suc n)
  show ?case
  proof (cases "\<exists>c s. after p = c # s \<and> f c")
    case True
    then obtain c s where p: "after p = c # s" "f c" by blast
    with Suc.IH [of "p\<lparr>prev := Some c, after := s\<rparr>"] Suc.prems obtain q qs where
      "turns (matches (Cls f)) n (p\<lparr>prev := Some c, after := s\<rparr>) = q # qs"
      "after q = dropWhile f s" "groups q = groups p" by (auto simp del: matches.simps)
    moreover have "matches (Cls f) p = [p\<lparr>prev := Some c, after := s\<rparr>]" using p by simp
    ultimately show ?thesis using p by (simp del: matches.simps)
  next
    case False
    then have "matches (Cls f) p = []" "dropWhile f (after p) = after p"
      by (cases "after p"; auto)+
    then show ?thesis by simp
  qed
qed

lemma lead_of_takeWhile: "lead_of lead_re s = after_last (CHR ''/'') (takeWhile path_char s)"
proof (cases "\<exists>c t. s = c # t \<and> path_char c")
  case True
  then obtain c t where s: "s = c # t" "path_char c" by blast
  let ?p = "(start_of s)\<lparr>prev := Some c, after := t\<rparr>"
  obtain q qs where q: "turns (matches (Cls path_char)) (length t) ?p = q # qs"
    "after q = dropWhile path_char t" "groups q = []"
    using turns_cls_hd [of ?p "length t" path_char] by (auto simp: start_of_def)
  have "takeWhile path_char t = take (length t - length (dropWhile path_char t)) t"
    by (metis add_diff_cancel_right' append_eq_conv_conj length_append takeWhile_dropWhile_id)
  moreover have "length (dropWhile path_char t) \<le> length t" by (rule length_dropWhile_le)
  ultimately have "takeWhile path_char s = take (length s - length (after q)) s"
    using s q by (simp add: Suc_diff_le)
  then show ?thesis using s q
    by (simp add: lead_of_def re_match_def lead_re_def Some_of_def start_of_def group_def dict_get_default_def)
next
  case False
  then have "matches (Cls path_char) (start_of s) = []" "takeWhile path_char s = []"
    by (auto simp: start_of_def split: list.split) (cases s; simp)
  then show ?thesis by (simp add: lead_of_def re_match_def lead_re_def Some_of_def after_last_def del: matches.simps(2))
qed

lemma path_char_safe: "path_char c \<Longrightarrow> safe_char c"
  by (auto simp: path_char_def safe_char_def)

lemma lead_of_join:
  assumes "ws \<noteq> []" and "hd ws \<noteq> []" and "list_all path_char (hd ws)"
  shows "lead_of lead_re (shlex_join ws) = after_last (CHR ''/'') (hd ws)"
proof -
  obtain w vs where ws: "ws = w # vs" using assms by (cases ws) auto
  have "list_all safe_char w" using assms ws path_char_safe by (auto simp: list_all_iff)
  then have q: "shlex_quote w = w" using assms ws by (simp add: shlex_quote_def)
  have "\<not> path_char (CHR '' '')" by code_simp
  moreover have "takeWhile path_char w = w" using assms ws by (simp add: list_all_iff takeWhile_eq_all_conv)
  ultimately have "takeWhile path_char (shlex_join ws) = w"
    using assms ws q by (cases vs) (simp_all add: shlex_join_def list_all_iff takeWhile_append)
  with ws show ?thesis by (simp add: lead_of_takeWhile)
qed

text \<open>What a segment that is no write says of its words.\<close>

lemma segment_words:
  assumes "\<not> segment_is_write (shlex_join ws)"
  shows "\<not> writing_flag ws \<and> \<not> formatter_writes ws \<and>
    (ws \<noteq> [] \<and> hd ws \<noteq> [] \<and> list_all path_char (hd ws) \<longrightarrow> after_last (CHR ''/'') (hd ws) \<notin> set WRITE_CMDS)"
  using assms lead_of_join [of ws]
  by (auto simp: segment_is_write_def Let_def strip_join split_join split: if_splits)

text \<open>A redirection: the character, blanks, and then the start of a file name.\<close>

lemma redirect_found:
  "re_found redirect_re t \<longleftrightarrow>
    (\<exists>u blanks c v. t = u @ ''>'' @ blanks @ c # v \<and> list_all space_char blanks \<and> \<not> space_char c)"
proof -
  have lang: "x \<in> lang redirect_re \<longleftrightarrow>
      (\<exists>pre blanks c. (pre = [] \<or> pre = ''>'') \<and> x = ''>'' @ pre @ blanks @ [c] \<and>
        list_all space_char blanks \<and> \<not> space_char c)" for x
    by (simp add: redirect_re_def Opt_def Space_def NonSpace_def all_of_chars) blast
  have "plain redirect_re" by (simp add: redirect_re_def Opt_def Space_def NonSpace_def)
  note found = re_found_plain [OF this, of t]
  show ?thesis
  proof
    assume "re_found redirect_re t"
    then obtain u x v where x: "t = u @ x @ v" "x \<in> lang redirect_re" using found by auto
    from x(2) obtain pre blanks c where "x = ''>'' @ pre @ blanks @ [c]"
      "pre = [] \<or> pre = ''>''" "list_all space_char blanks" "\<not> space_char c"
      unfolding lang by auto
    with x(1) have t: "t = u @ (''>'' @ pre @ blanks @ [c]) @ v"
      "pre = [] \<or> pre = ''>''" "list_all space_char blanks" "\<not> space_char c" by simp_all
    from t(2) have "pre @ ''>'' = ''>'' @ pre" by auto
    then have "t = (u @ pre) @ ''>'' @ blanks @ c # v" using t(1) by (metis append.assoc append_Cons append_Nil)
    with t(3,4) show "\<exists>u blanks c v. t = u @ ''>'' @ blanks @ c # v \<and> list_all space_char blanks \<and> \<not> space_char c"
      by blast
  next
    assume "\<exists>u blanks c v. t = u @ ''>'' @ blanks @ c # v \<and> list_all space_char blanks \<and> \<not> space_char c"
    then obtain u blanks c v where t: "t = u @ (''>'' @ blanks @ [c]) @ v" "list_all space_char blanks" "\<not> space_char c"
      by auto
    moreover have "''>'' @ [] @ blanks @ [c] \<in> lang redirect_re" unfolding lang using t by auto
    ultimately show "re_found redirect_re t" unfolding found
      by (intro exI [of _ u] exI [of _ "''>'' @ blanks @ [c]"] exI [of _ v]) simp
  qed
qed




text \<open>
  Taking a line apart into its commands and printing each back as a command line loses
  nothing: POSIX splitting of a segment gives exactly the words between two separators, and
  segmenting it again gives only itself, so the classification's recursion is one level deep.
\<close>

theorem segments_roundtrip:
  assumes "lex segment_lexer Blank False [] s = Some toks"
  shows "\<exists>segs. command_segments s = Some segs \<and>
    map shlex_split segs = map Some (word_groups [] toks) \<and>
    (\<forall>seg \<in> set segs. strip seg = seg \<and> command_segments seg = Some [seg])"
proof -
  have segs: "command_segments s = Some (map shlex_join (word_groups [] toks))"
    using assms by (simp add: command_segments_def)
  then show ?thesis using segment_of_segment [OF segs] by (auto simp: split_join strip_join)
qed

theorem segments_roundtrip_witness:
  "\<exists>segs. command_segments ''cat 'a b' | wc -l && ls'' = Some segs \<and>
    map shlex_split segs = [Some [''cat'', ''a b''], Some [''wc'', ''-l''], Some [''ls'']]"
proof -
  have lexed: "lex segment_lexer Blank False [] ''cat 'a b' | wc -l && ls'' =
      Some [''cat'', ''a b'', ''|'', ''wc'', ''-l'', ''&&'', ''ls'']"
    by code_simp
  have "word_groups [] [''cat'', ''a b'', ''|'', ''wc'', ''-l'', ''&&'', ''ls''] =
      [[''cat'', ''a b''], [''wc'', ''-l''], [''ls'']]"
    by code_simp
  with segments_roundtrip [OF lexed] show ?thesis by auto
qed

end
