(* ===== verification/Script_Contracts.thy ===== *)
theory Script_Contracts
  imports Shlex Py_String Json Fork
begin

text \<open>
  sfx/script_contracts.py: the contracts of reviewed read-only scripts. The constructor validates
  the definitions; \<open>match_command\<close> decides whether a command is an invocation some contract
  allows and which paths it names; \<open>verify_sources\<close> compares the pinned sources with the files
  of a tree. The digest function is an argument.
\<close>

section \<open>Paths\<close>

text \<open>POSIX keeps exactly two leading slashes apart from one.\<close>

definition double_root :: "string \<Rightarrow> bool" where
  "double_root p \<longleftrightarrow> starts_with ''//'' p \<and> \<not> starts_with ''///'' p"

definition as_posix :: "string list \<Rightarrow> string" where
  "as_posix parts = (if parts = [] then ''.'' else join_with ''/'' parts)"

text \<open>\<^verbatim>\<open>relative_to\<close>: the parts below a directory.\<close>

fun parts_below :: "string list \<Rightarrow> string list \<Rightarrow> string list option" where
  "parts_below [] ps = Some ps"
| "parts_below (d # ds) [] = None"
| "parts_below (d # ds) (p # ps) = (if d = p then parts_below ds ps else None)"

definition relative_path :: "string \<Rightarrow> string \<Rightarrow> string option" where
  "relative_path path repo =
     (if path = [] \<or> CHR 0x00 \<in> set path \<or> ''..'' \<in> set (posix_parts path) \<or> starts_with ''//'' path
      then None
      else if posix_absolute path then
        (if posix_absolute repo \<and> \<not> double_root repo
         then map_option as_posix (parts_below (posix_parts repo) (posix_parts path)) else None)
      else Some (as_posix (posix_parts path)))"

section \<open>The definitions of contracts\<close>

record contract =
  ct_script :: string
  ct_positionals :: nat
  ct_path_options :: "string list"
  ct_value_options :: "string list"
  ct_flags :: "string list"
  ct_required :: "string list"
  ct_sources :: "(string \<times> string) list option"

definition plain_path_re :: re where
  "plain_path_re = Some_of (Cls path_char)"

definition lower_char :: "char \<Rightarrow> bool" where
  "lower_char c \<longleftrightarrow> CHR ''a'' \<le> c \<and> c \<le> CHR ''z''"

definition long_flag_re :: re where
  "long_flag_re = seqs [lit ''--'', Cls lower_char,
     Rep (Cls (\<lambda>c. lower_char c \<or> digit_char c \<or> c = CHR ''-''))]"

definition sha256_re :: re where
  "sha256_re = times 64 (Cls (\<lambda>c. digit_char c \<or> (CHR ''a'' \<le> c \<and> c \<le> CHR ''f'')))"

definition MUTATION_OPTIONS :: "string list" where
  "MUTATION_OPTIONS = [''--apply-fixes'', ''--fix'', ''--fix-only'', ''--unsafe-fixes'', ''--write'',
     ''--output'', ''--output-file'', ''--output-dir'', ''--out'', ''--in-place'']"

definition CONTRACT_FIELDS :: "string list" where
  "CONTRACT_FIELDS = [''script'', ''positionals'', ''path_options'', ''value_options'', ''flags'', ''required'']"

text \<open>A path in normal form: what \<open>relative_path\<close> gives back unchanged.\<close>

definition normal_path :: "string \<Rightarrow> bool" where
  "normal_path p \<longleftrightarrow>
     relative_path p ''/app'' = Some p \<and> \<not> posix_absolute p \<and> re_fullmatch plain_path_re p \<noteq> None"

definition valid_script :: "string set \<Rightarrow> pyval \<Rightarrow> bool" where
  "valid_script seen v =
     (case v of PStr s \<Rightarrow> normal_path s \<and> ends_with ''.py'' s \<and> s \<notin> seen | _ \<Rightarrow> False)"

definition option_names :: "pyval \<Rightarrow> string list option" where
  "option_names v =
     (case v of
        PList items \<Rightarrow>
          let names = those (map (\<lambda>x. case x of PStr s \<Rightarrow> Some s | _ \<Rightarrow> None) items)
          in (case names of
                None \<Rightarrow> None
              | Some ns \<Rightarrow>
                  if list_all (\<lambda>n. re_fullmatch long_flag_re n \<noteq> None) ns \<and> distinct ns then Some ns else None)
      | _ \<Rightarrow> None)"

definition valid_pin :: "string \<times> pyval \<Rightarrow> bool" where
  "valid_pin pin =
     (normal_path (fst pin) \<and> fst pin \<noteq> ''.'' \<and>
      (case snd pin of PStr digest \<Rightarrow> re_fullmatch sha256_re digest \<noteq> None | _ \<Rightarrow> False))"

definition str_of :: "pyval \<Rightarrow> string" where
  "str_of v = (case v of PStr s \<Rightarrow> s | _ \<Rightarrow> [])"

definition source_pins :: "string \<Rightarrow> (string, pyval) dict \<Rightarrow> py_error + (string \<times> string) list option" where
  "source_pins script value =
     (case dict_get value ''source_sha256'' of
        None \<Rightarrow> Inr None
      | Some (PDict pins) \<Rightarrow>
          if script \<notin> set (map fst pins)
          then Inl (ValueError ''source_sha256 must include the reviewed script'')
          else if list_all valid_pin pins then Inr (Some (map (\<lambda>(p, d). (p, str_of d)) pins))
          else Inl (ValueError ''invalid reviewed source identity'')
      | Some _ \<Rightarrow> Inl (ValueError ''source_sha256 must include the reviewed script''))"

definition field :: "(string, pyval) dict \<Rightarrow> string \<Rightarrow> pyval" where
  "field value name = dict_get_default value name PNone"

definition add_contract :: "pyval \<Rightarrow> contract list \<Rightarrow> py_error + contract list" where
  "add_contract v cs =
     (case v of
        PDict value \<Rightarrow>
          if \<not> set CONTRACT_FIELDS \<subseteq> set (map fst value) \<or>
             \<not> set (map fst value) \<subseteq> insert ''source_sha256'' (set CONTRACT_FIELDS)
          then Inl (ValueError ''invalid read-only script contract fields'')
          else if \<not> valid_script (ct_script ` set cs) (field value ''script'')
          then Inl (ValueError ''contract script must be a unique relative Python path'')
          else (case field value ''positionals'' of
             PInt n \<Rightarrow>
               if n < 0 \<or> 16 < n then Inl (ValueError ''invalid positional path count'')
               else (case (option_names (field value ''path_options''), option_names (field value ''value_options''),
                      option_names (field value ''flags''), option_names (field value ''required'')) of
                  (Some po, Some vo, Some fl, Some req) \<Rightarrow>
                    let options = po @ vo @ fl in
                    if \<not> distinct options \<or> \<not> set req \<subseteq> set options
                    then Inl (ValueError ''ambiguous or missing contract options'')
                    else if set options \<inter> set MUTATION_OPTIONS \<noteq> {}
                    then Inl (ValueError ''read-only contracts cannot declare mutation options'')
                    else (case source_pins (str_of (field value ''script'')) value of
                       Inl e \<Rightarrow> Inl e
                     | Inr pins \<Rightarrow>
                         Inr (cs @ [\<lparr>ct_script = str_of (field value ''script''), ct_positionals = nat n,
                           ct_path_options = po, ct_value_options = vo, ct_flags = fl, ct_required = req,
                           ct_sources = pins\<rparr>]))
                | _ \<Rightarrow> Inl (ValueError ''contract options must be distinct literal long flags''))
           | _ \<Rightarrow> Inl (ValueError ''invalid positional path count''))
      | _ \<Rightarrow> Inl (ValueError ''invalid read-only script contract fields''))"

definition script_contracts :: "pyval \<Rightarrow> py_error + contract list" where
  "script_contracts definitions =
     (let loaded = (case definitions of
          PStr s \<Rightarrow> (case json_loads s of None \<Rightarrow> Inl (ValueError ''JSON'') | Some v \<Rightarrow> Inr v)
        | v \<Rightarrow> Inr v)
      in case loaded of
           Inl e \<Rightarrow> Inl e
         | Inr v \<Rightarrow>
             (case (if v = PNone then PList [] else v) of
                PList vs \<Rightarrow> fold_res add_contract vs []
              | _ \<Rightarrow> Inl (ValueError ''script_contracts must be a list'')))"

section \<open>Matching a command\<close>

record invocation =
  iv_script :: string
  iv_paths :: "string list"
  iv_sources :: "(string \<times> string) list"

definition contract_for :: "contract list \<Rightarrow> string option \<Rightarrow> contract option" where
  "contract_for cs script = find (\<lambda>c. Some (ct_script c) = script) cs"

definition is_python :: "string list \<Rightarrow> bool" where
  "is_python words \<longleftrightarrow> 2 \<le> length words \<and> words ! 0 \<in> {''python'', ''python3''}"

definition declares :: "contract list \<Rightarrow> string option \<Rightarrow> string \<Rightarrow> bool" where
  "declares cs command repo =
     (case command of
        None \<Rightarrow> False
      | Some cmd \<Rightarrow>
          (case shlex_split cmd of
             None \<Rightarrow> False
           | Some words \<Rightarrow> is_python words \<and> contract_for cs (relative_path (words ! 1) repo) \<noteq> None))"

definition SHELL_CHARS :: string where
  "SHELL_CHARS = [CHR ''$'', CHR 0x60, CHR 0x0A, CHR 0x0D, CHR '';'', CHR ''&'', CHR ''|'', CHR ''<'',
     CHR ''>'', CHR ''('', CHR '')'', CHR ''{'', CHR ''}'', CHR ''*'', CHR ''?'', CHR ''['', CHR '']'',
     CHR 0x5C, CHR ''~'']"

text \<open>\<^verbatim>\<open>word.partition("=")\<close>: the option, and the value when there is a separator.\<close>

definition option_of :: "string \<Rightarrow> string" where
  "option_of word = before_first (CHR ''='') word"

definition inline_value :: "string \<Rightarrow> string option" where
  "inline_value word =
     (if CHR ''='' \<in> set word then Some (drop (Suc (length (option_of word))) word) else None)"

record scan =
  sc_paths :: "string list"
  sc_positionals :: nat
  sc_supplied :: "string list"

definition add_path :: "string \<Rightarrow> string \<Rightarrow> scan \<Rightarrow> scan option" where
  "add_path value repo s =
     (case relative_path value repo of
        None \<Rightarrow> None
      | Some p \<Rightarrow> Some (s\<lparr>sc_paths := sc_paths s @ [p]\<rparr>))"

definition add_value :: "contract \<Rightarrow> string \<Rightarrow> string \<Rightarrow> string \<Rightarrow> scan \<Rightarrow> scan option" where
  "add_value c repo opt value s =
     (if value = [] \<or> starts_with ''-'' value then None
      else if opt \<in> set (ct_path_options c) then add_path value repo s
      else Some s)"

fun scan_args :: "contract \<Rightarrow> string \<Rightarrow> string list \<Rightarrow> scan \<Rightarrow> scan option" where
  "scan_args c repo [] s = Some s"
| "scan_args c repo (word # args) s =
     (if starts_with ''-'' word then
        let opt = option_of word; s1 = s\<lparr>sc_supplied := opt # sc_supplied s\<rparr> in
        if opt \<in> set (sc_supplied s) then None
        else if opt \<in> set (ct_flags c) then
          (if inline_value word \<noteq> None then None else scan_args c repo args s1)
        else if opt \<in> set (ct_path_options c @ ct_value_options c) then
          (case inline_value word of
             Some value \<Rightarrow>
               (case add_value c repo opt value s1 of None \<Rightarrow> None | Some s2 \<Rightarrow> scan_args c repo args s2)
           | None \<Rightarrow>
               (case args of
                  [] \<Rightarrow> None
                | value # rest \<Rightarrow>
                    (case add_value c repo opt value s1 of
                       None \<Rightarrow> None | Some s2 \<Rightarrow> scan_args c repo rest s2)))
        else None
      else
        (case add_path word repo s of
           None \<Rightarrow> None
         | Some s1 \<Rightarrow> scan_args c repo args (s1\<lparr>sc_positionals := Suc (sc_positionals s1)\<rparr>)))"

text \<open>The contract's conditions on what was supplied.\<close>

definition accepted :: "contract \<Rightarrow> scan \<Rightarrow> bool" where
  "accepted c s =
     (let help_only = (set (sc_supplied s) = {''--help''} \<and> sc_positionals s = 0) in
      if ''--help'' \<in> set (sc_supplied s) \<and> \<not> help_only then False
      else if \<not> help_only \<and>
        (sc_positionals s \<noteq> ct_positionals c \<or> \<not> set (ct_required c) \<subseteq> set (sc_supplied s)) then False
      else True)"

definition match_command :: "contract list \<Rightarrow> string option \<Rightarrow> string \<Rightarrow> invocation option" where
  "match_command cs command repo =
     (case command of
        None \<Rightarrow> None
      | Some cmd \<Rightarrow>
          if list_ex (\<lambda>c. c \<in> set SHELL_CHARS) cmd then None
          else (case shlex_split cmd of
             None \<Rightarrow> None
           | Some words \<Rightarrow>
               if \<not> is_python words then None
               else (case contract_for cs (relative_path (words ! 1) repo) of
                  None \<Rightarrow> None
                | Some c \<Rightarrow>
                    (case scan_args c repo (drop 2 words)
                        \<lparr>sc_paths = [ct_script c], sc_positionals = 0, sc_supplied = []\<rparr> of
                       None \<Rightarrow> None
                     | Some s \<Rightarrow>
                         if accepted c s then
                           Some \<lparr>iv_script = ct_script c, iv_paths = sc_paths s,
                             iv_sources = sort_key fst (case ct_sources c of None \<Rightarrow> [] | Some pins \<Rightarrow> pins)\<rparr>
                         else None))))"

section \<open>Verifying the pinned sources\<close>

text \<open>
  The file is opened through directories only, refusing links; it must be a regular file with
  one name and at most 16 MiB, with the pinned digest. \<open>disturbed\<close> says of a path whether its
  file's identity or times changed between the two calls of \<^verbatim>\<open>fstat\<close>.
\<close>

definition MAX_SOURCE :: nat where
  "MAX_SOURCE = 16 * 1024 * 1024"

definition source_matches ::
  "(bytes \<Rightarrow> string) \<Rightarrow> (string \<Rightarrow> bool) \<Rightarrow> fs \<Rightarrow> inum \<Rightarrow> string \<times> string \<Rightarrow> py_error + bool" where
  "source_matches sha256 disturbed f top_dir pin =
     (let parts = posix_parts (fst pin) in
      if \<not> is_dir f top_dir then Inr False
      else if parts = [] then Inl IndexError
      else case open_existing f top_dir (butlast parts) of
        Inl e \<Rightarrow> Inr False
      | Inr d \<Rightarrow>
          (case lookup f d (last parts) of
             None \<Rightarrow> Inr False
           | Some i \<Rightarrow>
               (case inode_at f i of
                  Some (RegFile contents mode) \<Rightarrow>
                    if nlink f i \<noteq> 1 \<or> MAX_SOURCE < length contents then Inr False
                    else Inr (sha256 contents = snd pin \<and> \<not> disturbed (fst pin))
                | _ \<Rightarrow> Inr False)))"

fun all_match :: "(string \<times> string \<Rightarrow> py_error + bool) \<Rightarrow> (string \<times> string) list \<Rightarrow> py_error + bool" where
  "all_match m [] = Inr True"
| "all_match m (pin # pins) =
     (case m pin of Inl e \<Rightarrow> Inl e | Inr False \<Rightarrow> Inr False | Inr True \<Rightarrow> all_match m pins)"

definition verify_sources ::
  "(bytes \<Rightarrow> string) \<Rightarrow> (string \<Rightarrow> bool) \<Rightarrow> fs \<Rightarrow> inum \<Rightarrow> invocation \<Rightarrow> py_error + bool" where
  "verify_sources sha256 disturbed f top_dir iv =
     (if iv_sources iv = [] then Inr True
      else all_match (source_matches sha256 disturbed f top_dir) (iv_sources iv))"

section \<open>Paths are confined\<close>

definition component :: "string \<Rightarrow> bool" where
  "component c \<longleftrightarrow> c \<noteq> [] \<and> c \<noteq> ''.'' \<and> CHR ''/'' \<notin> set c"

lemma split_on_no_sep: "p \<in> set (split_on c s) \<Longrightarrow> c \<notin> set p"
  by (induction s arbitrary: p) (auto split: if_splits list.splits)

lemma split_on_chars: "p \<in> set (split_on c s) \<Longrightarrow> set p \<subseteq> set s"
  by (induction s arbitrary: p) (force split: if_splits list.splits)+

lemma posix_parts_components: "list_all component (posix_parts p)"
  using split_on_no_sep by (auto simp: posix_parts_def component_def list_all_iff)

lemma split_on_word: "c \<notin> set w \<Longrightarrow> split_on c w = [w]"
  by (induction w) auto

lemma split_on_sep: "c \<notin> set w \<Longrightarrow> split_on c (w @ c # s) = w # split_on c s"
  by (induction w) auto

lemma split_on_join: "ps \<noteq> [] \<Longrightarrow> list_all component ps \<Longrightarrow> split_on (CHR ''/'') (join_with ''/'' ps) = ps"
  by (induction "''/''" ps rule: join_with.induct) (simp_all add: component_def split_on_word split_on_sep)

lemma parts_as_posix: "list_all component ps \<Longrightarrow> posix_parts (as_posix ps) = ps"
  by (cases "ps = []")
    (simp_all add: as_posix_def posix_parts_def split_on_join split_on_word filter_id_conv list_all_iff component_def)

lemma component_hd: "component c \<Longrightarrow> c \<noteq> [] \<and> hd c \<noteq> CHR ''/''"
  unfolding component_def by (metis hd_in_set)

lemma as_posix_relative: "list_all component ps \<Longrightarrow> as_posix ps \<noteq> [] \<and> \<not> posix_absolute (as_posix ps)"
  by (cases ps rule: remdups_adj.cases) (auto simp: as_posix_def posix_absolute_def component_hd hd_append)

lemma as_posix_chars: "c \<in> set (as_posix ps) \<Longrightarrow> c = CHR ''/'' \<or> c = CHR ''.'' \<or> (\<exists>p \<in> set ps. c \<in> set p)"
proof (cases "ps = []")
  case False
  assume "c \<in> set (as_posix ps)"
  with False have "c \<in> set (join_with ''/'' ps)" by (simp add: as_posix_def)
  with False show ?thesis by (induction "''/''" ps rule: join_with.induct) auto
qed (auto simp: as_posix_def)

lemma parts_below_append: "parts_below ds ps = Some qs \<longleftrightarrow> ps = ds @ qs"
  by (induction ds ps rule: parts_below.induct) auto

text \<open>A relative path: not absolute, never upwards, and in normal form.\<close>

definition inside :: "string \<Rightarrow> bool" where
  "inside p \<longleftrightarrow> \<not> posix_absolute p \<and> ''..'' \<notin> set (posix_parts p) \<and> CHR 0x00 \<notin> set p \<and>
     as_posix (posix_parts p) = p"

lemma relative_path_inside:
  assumes "relative_path path repo = Some p"
  shows "inside p"
proof -
  have "\<exists>ps. p = as_posix ps \<and> set ps \<subseteq> set (posix_parts path)"
    using assms by (auto simp: relative_path_def parts_below_append split: if_splits)
  then obtain ps where ps: "p = as_posix ps" "set ps \<subseteq> set (posix_parts path)" by blast
  moreover have "list_all component ps"
    using ps(2) posix_parts_components [of path] by (auto simp: list_all_iff)
  moreover have "CHR 0x00 \<notin> set path" "''..'' \<notin> set (posix_parts path)"
    using assms by (auto simp: relative_path_def split: if_splits)
  moreover have "CHR 0x00 \<notin> set (as_posix ps)"
  proof
    assume "CHR 0x00 \<in> set (as_posix ps)"
    then obtain q where "q \<in> set ps" "CHR 0x00 \<in> set q" using as_posix_chars by fastforce
    moreover have "set q \<subseteq> set path" if "q \<in> set (posix_parts path)" for q
      using that split_on_chars by (auto simp: posix_parts_def)
    ultimately show False using ps(2) \<open>CHR 0x00 \<notin> set path\<close> by blast
  qed
  ultimately show ?thesis using as_posix_relative [of ps] by (auto simp: inside_def parts_as_posix)
qed

section \<open>What a match means\<close>

lemma add_path_inside:
  "add_path v repo s = Some s' \<Longrightarrow> \<forall>p \<in> set (sc_paths s). inside p \<Longrightarrow>
   (\<forall>p \<in> set (sc_paths s'). inside p) \<and> sc_supplied s' = sc_supplied s \<and> sc_positionals s' = sc_positionals s"
  by (auto simp: add_path_def relative_path_inside split: option.splits)

lemma add_value_inside:
  "add_value c repo opt v s = Some s' \<Longrightarrow> \<forall>p \<in> set (sc_paths s). inside p \<Longrightarrow>
   (\<forall>p \<in> set (sc_paths s'). inside p) \<and> sc_supplied s' = sc_supplied s \<and> \<not> starts_with ''-'' v"
  using add_path_inside [of v repo s s'] by (auto simp: add_value_def split: if_splits)

abbreviation options_of :: "contract \<Rightarrow> string list" where
  "options_of c \<equiv> ct_path_options c @ ct_value_options c @ ct_flags c"

lemma scan_args_confined:
  assumes "scan_args c repo args s = Some s'" and "\<forall>p \<in> set (sc_paths s). inside p"
  shows "(\<forall>p \<in> set (sc_paths s'). inside p) \<and>
    (\<forall>w \<in> set args. starts_with ''-'' w \<longrightarrow> option_of w \<in> set (options_of c))"
  using assms
proof (induction c repo args s rule: scan_args.induct)
  case (1 c repo s)
  then show ?case by simp
next
  case (2 c repo word args s)
  let ?s1 = "s\<lparr>sc_supplied := option_of word # sc_supplied s\<rparr>"
  show ?case
  proof (cases "starts_with ''-'' word")
    case False
    then show ?thesis using 2 add_path_inside [of word repo s] by (auto split: option.splits)
  next
    case dash: True
    show ?thesis
    proof (cases "option_of word \<in> set (ct_flags c)")
      case True
      then show ?thesis using 2 dash by (auto simp: Let_def split: if_splits)
    next
      case False
      then have known: "option_of word \<in> set (ct_path_options c @ ct_value_options c)"
        and new: "option_of word \<notin> set (sc_supplied s)"
        using 2(5) dash by (auto simp: Let_def split: if_splits)
      show ?thesis
      proof (cases "inline_value word")
        case (Some v)
        then obtain s2 where "add_value c repo (option_of word) v ?s1 = Some s2"
          "scan_args c repo args s2 = Some s'"
          using 2(5) dash False known new by (auto simp: Let_def split: option.splits)
        then show ?thesis
          using 2(3) [OF dash refl refl new False known Some] add_value_inside 2(6) known
          by (auto simp: Let_def)
      next
        case None
        then obtain v rest s2 where args: "args = v # rest"
          and add: "add_value c repo (option_of word) v ?s1 = Some s2"
          and rest: "scan_args c repo rest s2 = Some s'"
          using 2(5) dash False known new by (auto simp: Let_def split: option.splits list.splits)
        have added: "(\<forall>p \<in> set (sc_paths s2). inside p) \<and> \<not> starts_with ''-'' v"
          using add_value_inside [OF add] 2(6) by simp
        then have "(\<forall>p \<in> set (sc_paths s'). inside p) \<and>
            (\<forall>w \<in> set rest. starts_with ''-'' w \<longrightarrow> option_of w \<in> set (options_of c))"
          using 2(2) [OF dash refl refl new False known None args add rest] by blast
        with added known show ?thesis by (auto simp: args)
      qed
    qed
  qed
qed

text \<open>The constructor's contracts.\<close>

definition contract_ok :: "contract \<Rightarrow> bool" where
  "contract_ok c \<longleftrightarrow> inside (ct_script c) \<and> ends_with ''.py'' (ct_script c) \<and> ct_positionals c \<le> 16 \<and>
     distinct (options_of c) \<and> set (ct_required c) \<subseteq> set (options_of c) \<and>
     set (options_of c) \<inter> set MUTATION_OPTIONS = {} \<and>
     (case ct_sources c of None \<Rightarrow> True
      | Some pins \<Rightarrow> ct_script c \<in> set (map fst pins) \<and> (\<forall>pin \<in> set pins. inside (fst pin) \<and> fst pin \<noteq> ''.''))"

definition contracts_ok :: "contract list \<Rightarrow> bool" where
  "contracts_ok cs \<longleftrightarrow> list_all contract_ok cs \<and> distinct (map ct_script cs)"

lemma normal_path_inside: "normal_path p \<Longrightarrow> inside p"
  unfolding normal_path_def using relative_path_inside by blast

lemma source_pins_ok:
  assumes "source_pins script value = Inr (Some pins)"
  shows "script \<in> set (map fst pins) \<and> (\<forall>pin \<in> set pins. inside (fst pin) \<and> fst pin \<noteq> ''.'')"
proof -
  obtain raw where raw: "dict_get value ''source_sha256'' = Some (PDict raw)" "script \<in> set (map fst raw)"
    "list_all valid_pin raw" "pins = map (\<lambda>(p, d). (p, str_of d)) raw"
    using assms by (auto simp: source_pins_def split: option.splits pyval.splits if_splits)
  have "map fst pins = map fst raw" unfolding raw(4) by (simp add: case_prod_beta comp_def)
  moreover have "inside (fst pin) \<and> fst pin \<noteq> ''.''" if "pin \<in> set pins" for pin
    using raw(3) that unfolding raw(4) by (auto simp: list_all_iff valid_pin_def normal_path_inside)
  ultimately show ?thesis using raw(2) by simp
qed

lemma fold_res_keeps:
  assumes "fold_res f xs s = Inr s'" and "P s" and "\<And>x s s'. f x s = Inr s' \<Longrightarrow> P s \<Longrightarrow> P s'"
  shows "P s'"
  using assms(1,2) by (induction xs arbitrary: s) (auto split: sum.splits intro: assms(3))

lemma valid_script_inside:
  "valid_script seen v \<Longrightarrow> inside (str_of v) \<and> ends_with ''.py'' (str_of v) \<and> str_of v \<notin> seen"
  by (auto simp: valid_script_def str_of_def normal_path_inside split: pyval.splits)

lemma add_contract_ok:
  assumes "add_contract v cs = Inr cs'" and "contracts_ok cs"
  shows "contracts_ok cs'"
proof -
  obtain raw where v: "v = PDict raw"
    using assms(1) by (cases v) (auto simp: add_contract_def)
  have script: "valid_script (ct_script ` set cs) (field raw ''script'')"
    using assms(1) by (auto simp: v add_contract_def split: if_splits)
  obtain n where n: "field raw ''positionals'' = PInt n" "0 \<le> n" "n \<le> 16"
    using assms(1) script by (auto simp: v add_contract_def split: pyval.splits if_splits)
  obtain po vo fl req where names: "option_names (field raw ''path_options'') = Some po"
    "option_names (field raw ''value_options'') = Some vo" "option_names (field raw ''flags'') = Some fl"
    "option_names (field raw ''required'') = Some req"
    using assms(1) script n by (auto simp: v add_contract_def split: option.splits if_splits)
  obtain pins where pins: "source_pins (str_of (field raw ''script'')) raw = Inr pins"
    "distinct (po @ vo @ fl)" "set req \<subseteq> set (po @ vo @ fl)" "set (po @ vo @ fl) \<inter> set MUTATION_OPTIONS = {}"
    "cs' = cs @ [\<lparr>ct_script = str_of (field raw ''script''), ct_positionals = nat n,
        ct_path_options = po, ct_value_options = vo, ct_flags = fl, ct_required = req, ct_sources = pins\<rparr>]"
    using assms(1) script n names by (auto simp: v add_contract_def Let_def split: sum.splits if_splits)
  show ?thesis
  proof (cases pins)
    case None
    then show ?thesis using assms(2) valid_script_inside [OF script] n pins
      unfolding contracts_ok_def pins(5) by (auto simp: contract_ok_def)
  next
    case (Some ps)
    with pins(1) have "source_pins (str_of (field raw ''script'')) raw = Inr (Some ps)" by simp
    note sources = source_pins_ok [OF this]
    from Some sources show ?thesis using assms(2) valid_script_inside [OF script] n pins
      unfolding contracts_ok_def pins(5) by (auto simp: contract_ok_def)
  qed
qed

lemma script_contracts_ok:
  assumes "script_contracts defs = Inr cs"
  shows "contracts_ok cs"
proof -
  have "\<exists>vs. fold_res add_contract vs [] = Inr cs"
    using assms by (auto simp: script_contracts_def Let_def intro: exI [of _ "[]"]
        split: pyval.splits option.splits if_splits sum.splits)
  then obtain vs where "fold_res add_contract vs [] = Inr cs" ..
  then show ?thesis
    by (rule fold_res_keeps [where P = contracts_ok]) (simp add: contracts_ok_def, rule add_contract_ok)
qed

lemma contract_for_Some: "contract_for cs script = Some c \<Longrightarrow> c \<in> set cs \<and> script = Some (ct_script c)"
  unfolding contract_for_def by (auto simp: find_Some_iff)

lemma match_command_Some:
  assumes "match_command cs (Some cmd) repo = Some iv"
  shows "\<exists>words c s. list_all (\<lambda>c. c \<notin> set SHELL_CHARS) cmd \<and> shlex_split cmd = Some words \<and> is_python words \<and>
    c \<in> set cs \<and> relative_path (words ! 1) repo = Some (ct_script c) \<and>
    scan_args c repo (drop 2 words) \<lparr>sc_paths = [ct_script c], sc_positionals = 0, sc_supplied = []\<rparr> = Some s \<and>
    accepted c s \<and>
    iv = \<lparr>iv_script = ct_script c, iv_paths = sc_paths s,
      iv_sources = sort_key fst (case ct_sources c of None \<Rightarrow> [] | Some pins \<Rightarrow> pins)\<rparr>"
proof -
  obtain words where words: "list_all (\<lambda>c. c \<notin> set SHELL_CHARS) cmd" "shlex_split cmd = Some words" "is_python words"
    using assms by (auto simp: match_command_def list_ex_iff list_all_iff split: option.splits if_splits)
  then have "\<not> list_ex (\<lambda>c. c \<in> set SHELL_CHARS) cmd" by (simp add: list_ex_iff list_all_iff)
  with assms words obtain c where c: "contract_for cs (relative_path (words ! 1) repo) = Some c"
    by (auto simp: match_command_def split: option.splits)
  with assms words \<open>\<not> list_ex _ cmd\<close> obtain s where
    "scan_args c repo (drop 2 words) \<lparr>sc_paths = [ct_script c], sc_positionals = 0, sc_supplied = []\<rparr> = Some s"
    "accepted c s"
    "iv = \<lparr>iv_script = ct_script c, iv_paths = sc_paths s,
      iv_sources = sort_key fst (case ct_sources c of None \<Rightarrow> [] | Some pins \<Rightarrow> pins)\<rparr>"
    by (auto simp: match_command_def split: option.splits if_splits)
  with words contract_for_Some [OF c] show ?thesis by blast
qed


definition demo_contracts :: pyval where
  "demo_contracts = PList [PDict [
     (''script'', PStr ''tools/audit.py''), (''positionals'', PInt 1),
     (''path_options'', PList [PStr ''--config'']), (''value_options'', PList []),
     (''flags'', PList [PStr ''--strict'']), (''required'', PList [PStr ''--config''])]]"

definition demo_invocation :: string where
  "demo_invocation = ''python tools/audit.py src --strict --config=/app/etc/a.cfg''"

definition demo_contract :: contract where
  "demo_contract = \<lparr>ct_script = ''tools/audit.py'', ct_positionals = 1, ct_path_options = [''--config''],
     ct_value_options = [], ct_flags = [''--strict''], ct_required = [''--config''], ct_sources = None\<rparr>"


section \<open>What a verification means\<close>

lemma all_match_True: "all_match m pins = Inr True \<longleftrightarrow> (\<forall>pin \<in> set pins. m pin = Inr True)"
  by (induction pins) (auto split: sum.splits bool.splits)

lemma source_matches_True:
  assumes "source_matches sha256 disturbed f top_dir (path, digest) = Inr True"
  shows "\<exists>i contents mode. walk f top_dir (posix_parts path) = Some i \<and>
    inode_at f i = Some (RegFile contents mode) \<and> nlink f i = 1 \<and> length contents \<le> MAX_SOURCE \<and>
    sha256 contents = digest"
proof -
  let ?parts = "posix_parts path"
  obtain d i contents mode where d: "is_dir f top_dir" "?parts \<noteq> []" "open_existing f top_dir (butlast ?parts) = Inr d"
    "lookup f d (last ?parts) = Some i" "inode_at f i = Some (RegFile contents mode)"
    "nlink f i = 1" "length contents \<le> MAX_SOURCE" "sha256 contents = digest"
    using assms by (auto simp: source_matches_def Let_def split: if_splits sum.splits option.splits inode.splits)
  then have "walk f top_dir (butlast ?parts) = Some d" using open_existing_walk by blast
  with d(2,4) have "walk f top_dir ?parts = Some i"
    by (metis append_butlast_last_id option.simps(5) walk.simps(1,2) walk_append)
  with d show ?thesis by blast
qed

lemma verify_sources_True:
  assumes "verify_sources sha256 disturbed f top_dir iv = Inr True" and "(path, digest) \<in> set (iv_sources iv)"
  shows "\<exists>i contents mode. walk f top_dir (posix_parts path) = Some i \<and>
    inode_at f i = Some (RegFile contents mode) \<and> nlink f i = 1 \<and> length contents \<le> MAX_SOURCE \<and>
    sha256 contents = digest"
proof -
  have "source_matches sha256 disturbed f top_dir (path, digest) = Inr True"
    using assms by (auto simp: verify_sources_def all_match_True split: if_splits)
  then show ?thesis by (rule source_matches_True)
qed

end
