(* ===== verification/Speculation.thy ===== *)
theory Speculation
  imports Normalize Script_Contracts Fork_Life
begin

text \<open>
  eval/sfx_daemon_run.py: the guards between a predicted command and its execution. A command is
  executed speculatively only after \<open>validate_speculative_command\<close>, and in a fork only
  after \<open>validate_fork_command\<close>. The environment of the process, the digest function, the file
  tree and the shell that runs a command are arguments.
\<close>

section \<open>Rejections\<close>

text \<open>The subclasses of ValueError that the callers tell apart, and everything else.\<close>

datatype guard_error =
    ScriptInvocationRejected string
  | ScriptSourceMismatch string
  | PinnedScriptRequiresFork string
  | Rejected string
  | Other_error py_error

record guard_env =
  ge_environ :: "(string, string) dict"
  ge_sha256 :: "bytes \<Rightarrow> string"
  ge_disturbed :: "string \<Rightarrow> bool"
  ge_repo_dir :: inum

definition getenv :: "guard_env \<Rightarrow> string \<Rightarrow> string \<Rightarrow> string" where
  "getenv env name default_value = dict_get_default (ge_environ env) name default_value"

definition sfx_repo :: "guard_env \<Rightarrow> string" where
  "sfx_repo env = getenv env ''SFX_REPO'' ''/app''"

definition tool_environ :: "guard_env \<Rightarrow> (string, string) dict option \<Rightarrow> (string, string) dict" where
  "tool_environ env tool_env = (case tool_env of None \<Rightarrow> ge_environ env | Some e \<Rightarrow> e)"

definition env_set :: "(string, string) dict \<Rightarrow> string \<Rightarrow> bool" where
  "env_set environ name \<longleftrightarrow> dict_get_default environ name [] \<noteq> []"

definition validate_tool_environment :: "(string, string) dict \<Rightarrow> guard_error + unit" where
  "validate_tool_environment environ =
     (if env_set environ ''BASH_ENV'' \<or> env_set environ ''ENV'' \<or>
        list_ex (\<lambda>(name, v). starts_with ''BASH_FUNC_'' name) environ
      then Inl (ScriptInvocationRejected ''speculative shell environment contains unsupported startup or function hooks'') else Inr ())"

section \<open>Literal reads\<close>

definition CODE_EXECUTING_KINDS :: "string list" where
  "CODE_EXECUTING_KINDS = [''run'', ''test'', ''lint'', ''typecheck'', ''build'']"

definition LITERAL_READ_COMMANDS :: "string list" where
  "LITERAL_READ_COMMANDS = [''cat'', ''head'', ''tail'', ''nl'', ''grep'', ''rg'', ''ls'', ''stat'', ''pwd'']"

definition RG_FLAGS :: "string list" where
  "RG_FLAGS = [
    ''--line-number'', ''--no-line-number'', ''--with-filename'', ''--no-filename'',
    ''--ignore-case'', ''--case-sensitive'', ''--smart-case'', ''--word-regexp'', ''--line-regexp'',
    ''--fixed-strings'', ''--files-with-matches'', ''--files-without-match'', ''--count'',
    ''--count-matches'', ''--files'', ''--hidden'', ''--no-ignore'', ''--no-ignore-vcs'',
    ''--text'', ''--invert-match'', ''--quiet'', ''--no-messages'', ''--null'', ''--null-data'',
    ''--no-config'', ''--heading'', ''--no-heading'', ''--multiline'', ''--pcre2'']"

definition RG_VALUE_OPTIONS :: "string list" where
  "RG_VALUE_OPTIONS = [
    ''--regexp'', ''--file'', ''--glob'', ''--iglob'', ''--type'', ''--type-not'', ''--max-count'',
    ''--max-depth'', ''--after-context'', ''--before-context'', ''--context'', ''--color'',
    ''--replace'', ''-e'', ''-f'', ''-g'', ''-t'', ''-T'', ''-m'', ''-A'', ''-B'', ''-C'', ''-r'']"

definition GREP_FLAGS :: "string list" where
  "GREP_FLAGS = [
    ''--extended-regexp'', ''--fixed-strings'', ''--basic-regexp'', ''--perl-regexp'',
    ''--ignore-case'', ''--no-ignore-case'', ''--word-regexp'', ''--line-regexp'',
    ''--null-data'', ''--no-messages'', ''--invert-match'', ''--text'', ''--line-number'',
    ''--byte-offset'', ''--with-filename'', ''--no-filename'', ''--only-matching'',
    ''--quiet'', ''--silent'', ''--files-without-match'', ''--files-with-matches'',
    ''--count'', ''--null'', ''--line-buffered'']"

definition GREP_VALUE_OPTIONS :: "string list" where
  "GREP_VALUE_OPTIONS = [
    ''--regexp'', ''--file'', ''--max-count'', ''--after-context'', ''--before-context'', ''--context'',
    ''-e'', ''-f'', ''-m'', ''-A'', ''-B'', ''-C'']"

record search_tool =
  st_flags :: "string list"
  st_values :: "string list"
  st_short :: string

definition rg_tool :: search_tool where
  "rg_tool = \<lparr>st_flags = RG_FLAGS, st_values = RG_VALUE_OPTIONS, st_short = ''nNHIiSsSwxFvlcq0aUuP''\<rparr>"

definition grep_tool :: search_tool where
  "grep_tool = \<lparr>st_flags = GREP_FLAGS, st_values = GREP_VALUE_OPTIONS, st_short = ''EFGPinHhwxvqsclLboZzaIUuy''\<rparr>"

text \<open>The loop over the arguments of a search; the result is \<^verbatim>\<open>no_config\<close>.\<close>

fun scan_search :: "search_tool \<Rightarrow> string list \<Rightarrow> bool \<Rightarrow> guard_error + bool" where
  "scan_search t [] no_config = Inr no_config"
| "scan_search t (word # args) no_config =
     (if word = ''--'' then Inr no_config
      else if starts_with ''-'' word \<and> word \<noteq> ''-'' then
        (if option_of word \<in> set (st_values t) then
           (if inline_value word \<noteq> None then scan_search t args no_config
            else (case args of
                    [] \<Rightarrow> Inl (ScriptInvocationRejected ''search option is missing its value'')
                  | v # rest \<Rightarrow> scan_search t rest no_config))
         else if word \<in> set (st_flags t) then scan_search t args (no_config \<or> word = ''--no-config'')
         else if \<not> starts_with ''--'' word \<and> list_all (\<lambda>c. c \<in> set (st_short t)) (drop 1 word)
         then scan_search t args no_config
         else Inl (ScriptInvocationRejected ''unsupported speculative search option''))
      else scan_search t args no_config)"

definition LITERAL_CHARS :: string where
  "LITERAL_CHARS = CHR 0x00 # SHELL_CHARS"

definition validate_literal_read :: "(string, string) dict \<Rightarrow> string option \<Rightarrow> guard_error + unit" where
  "validate_literal_read environ command =
     (case command of
        None \<Rightarrow> Inl (ScriptInvocationRejected ''speculative reads require one literal supported invocation'')
      | Some cmd \<Rightarrow>
          if list_ex (\<lambda>c. c \<in> set LITERAL_CHARS) cmd
          then Inl (ScriptInvocationRejected ''speculative reads require one literal supported invocation'')
          else (case shlex_split cmd of
             None \<Rightarrow> Inl (ScriptInvocationRejected ''speculative read is not a literal invocation'')
           | Some [] \<Rightarrow> Inl (ScriptInvocationRejected ''read executable has no supported speculative contract'')
           | Some (name # args) \<Rightarrow>
               if name \<notin> set LITERAL_READ_COMMANDS
               then Inl (ScriptInvocationRejected ''read executable has no supported speculative contract'')
               else if name \<notin> {''rg'', ''grep''} then Inr ()
               else (case scan_search (if name = ''rg'' then rg_tool else grep_tool) args False of
                  Inl e \<Rightarrow> Inl e
                | Inr no_config \<Rightarrow>
                    if name = ''rg'' \<and> env_set environ ''RIPGREP_CONFIG_PATH'' \<and> \<not> no_config
                    then Inl (ScriptInvocationRejected ''speculative ripgrep cannot load an unreviewed environment config'') else Inr ())))"

section \<open>Speculative commands\<close>

definition command_of :: "(string, pyval) dict \<Rightarrow> string option" where
  "command_of args = (case dict_get args ''cmd'' of Some (PStr s) \<Rightarrow> Some s | _ \<Rightarrow> None)"

definition contracts :: "guard_env \<Rightarrow> guard_error + contract list" where
  "contracts env =
     (case script_contracts (PStr (getenv env ''SFX_SCRIPT_CONTRACTS'' ''[]'')) of
        Inl e \<Rightarrow> Inl (Other_error e) | Inr cs \<Rightarrow> Inr cs)"

text \<open>The policy part: which contract, if any, the command falls under.\<close>

definition contract_policy ::
  "guard_env \<Rightarrow> (string, string) dict \<Rightarrow> string \<Rightarrow> string option \<Rightarrow> contract list \<Rightarrow> guard_error + invocation option" where
  "contract_policy env environ kind command policy =
     (let iv = match_command policy command (sfx_repo env) in
      if declares policy command (sfx_repo env) \<and> iv = None
      then Inl (ScriptInvocationRejected ''registered script invocation violates its read-only contract'')
      else if kind \<in> set CODE_EXECUTING_KINDS \<or> iv \<noteq> None then
        (if (case iv of None \<Rightarrow> True | Some i \<Rightarrow> iv_sources i = [])
         then Inl (ScriptInvocationRejected ''code speculation requires an explicit source-pinned read-only contract'')
         else Inr iv)
      else if kind \<in> {''read'', ''grep'', ''search''} then
        (case validate_literal_read environ command of Inl e \<Rightarrow> Inl e | Inr u \<Rightarrow> Inr iv)
      else Inr iv)"

definition validate_speculative_command ::
  "guard_env \<Rightarrow> fs \<Rightarrow> (string, string) dict option \<Rightarrow> bool \<Rightarrow> inum option \<Rightarrow>
   string \<Rightarrow> (string, pyval) dict \<Rightarrow> guard_error + invocation option" where
  "validate_speculative_command env f tool_env verify source_root kind args =
     (let environ = tool_environ env tool_env; command = command_of args in
      case validate_tool_environment environ of
        Inl e \<Rightarrow> Inl e
      | Inr u \<Rightarrow>
      (case contracts env of
        Inl e \<Rightarrow> Inl e
      | Inr policy \<Rightarrow>
      (case contract_policy env environ kind command policy of
        Inl e \<Rightarrow> Inl e
      | Inr iv \<Rightarrow>
      (if (case command of
             None \<Rightarrow> True
           | Some cmd \<Rightarrow> classify ''Bash'' (Some cmd) \<noteq> (kind, ''free'') \<and> \<not> (kind = ''run'' \<and> iv \<noteq> None))
       then Inl (Rejected ''resolved command is not eligible for speculative execution'')
       else case iv of
         None \<Rightarrow> Inr None
       | Some i \<Rightarrow>
           if \<not> verify then Inr iv
           else (case verify_sources (ge_sha256 env) (ge_disturbed env) f
                   (case source_root of None \<Rightarrow> ge_repo_dir env | Some d \<Rightarrow> d) i of
                   Inl e \<Rightarrow> Inl (Other_error e)
                 | Inr True \<Rightarrow> Inr iv
                 | Inr False \<Rightarrow> Inl (ScriptSourceMismatch ''reviewed script source identity does not match''))))))"

section \<open>Commands in a fork\<close>

definition FORK_CHARS :: string where
  "FORK_CHARS = SHELL_CHARS"

definition LINK_OPTIONS :: "string list" where
  "LINK_OPTIONS = [''-follow'', ''--follow'', ''--dereference'', ''--dereference-command-line'',
     ''--dereference-recursive'']"

definition pytest_args :: "string list \<Rightarrow> nat option" where
  "pytest_args words =
     (if hd words = ''pytest'' then Some 1
      else if take 3 words \<in> {[''python'', ''-m'', ''pytest''], [''python3'', ''-m'', ''pytest'']} then Some 3
      else None)"

text \<open>Whether one of the components on the way is a symbolic link.\<close>

fun has_link :: "fs \<Rightarrow> inum \<Rightarrow> string list \<Rightarrow> bool" where
  "has_link f d [] = False"
| "has_link f d (part # parts) =
     (case lookup f d part of None \<Rightarrow> False | Some i \<Rightarrow> is_link f i \<or> has_link f i parts)"

definition valid_selector :: "string \<Rightarrow> bool" where
  "valid_selector sel \<longleftrightarrow> sel \<noteq> [] \<and> CHR ''/'' \<notin> set sel \<and> sel \<noteq> ''.'' \<and> sel \<noteq> ''..''"

definition check_parts :: "fs \<Rightarrow> inum \<Rightarrow> string option \<Rightarrow> string \<Rightarrow> guard_error + unit" where
  "check_parts f fork_dir repo path =
     (if ''..'' \<in> set (posix_parts path) then Inl (Rejected ''fork command path leaves the working tree'')
      else let below =
          (if \<not> posix_absolute path then Some (posix_parts path)
           else case repo of
             None \<Rightarrow> None
           | Some r \<Rightarrow>
               if posix_absolute r \<and> double_root r = double_root path
               then parts_below (posix_parts r) (posix_parts path) else None)
        in case below of
             None \<Rightarrow> Inl (Rejected ''fork command path leaves the working tree'')
           | Some parts \<Rightarrow>
               if has_link f fork_dir parts then Inl (Rejected ''fork command path contains a symlink'') else Inr ())"

definition check_value :: "fs \<Rightarrow> inum \<Rightarrow> string option \<Rightarrow> bool \<Rightarrow> string \<Rightarrow> guard_error + unit" where
  "check_value f fork_dir repo selectors val =
     (if selectors \<and> occurs_in ''::'' val then
        (let pieces = re_split (lit ''::'') val in
         if \<not> list_all valid_selector (tl pieces) then Inl (Rejected ''fork command contains an unsupported pytest selector'')
         else check_parts f fork_dir repo (hd pieces))
      else check_parts f fork_dir repo val)"

definition check_word :: "fs \<Rightarrow> inum \<Rightarrow> string option \<Rightarrow> bool \<Rightarrow> string \<Rightarrow> guard_error + unit" where
  "check_word f fork_dir repo selectors word =
     (if before_first (CHR ''='') word \<in> set LINK_OPTIONS \<or>
        (starts_with ''-'' word \<and> \<not> starts_with ''--'' word \<and> list_ex (\<lambda>c. c \<in> set ''LR'') word)
      then Inl (Rejected ''fork command may follow symlinks'')
      else if starts_with ''-'' word \<and> (CHR ''/'' \<in> set word \<or> occurs_in ''..'' word)
      then Inl (Rejected ''fork command contains an unsupported path option'')
      else case check_value f fork_dir repo selectors word of
        Inl e \<Rightarrow> Inl e
      | Inr u \<Rightarrow> check_value f fork_dir repo selectors (after_first (CHR ''='') word))"

fun check_words :: "fs \<Rightarrow> inum \<Rightarrow> string option \<Rightarrow> nat option \<Rightarrow> nat \<Rightarrow> string list \<Rightarrow> guard_error + unit" where
  "check_words f fork_dir repo pa i [] = Inr ()"
| "check_words f fork_dir repo pa i (word # words) =
     (case check_word f fork_dir repo (case pa of None \<Rightarrow> False | Some n \<Rightarrow> n \<le> i) word of
        Inl e \<Rightarrow> Inl e
      | Inr u \<Rightarrow> check_words f fork_dir repo pa (Suc i) words)"

definition validate_fork_command :: "fs \<Rightarrow> inum \<Rightarrow> string option \<Rightarrow> string \<Rightarrow> guard_error + unit" where
  "validate_fork_command f fork_dir repo command =
     (if list_ex (\<lambda>c. c \<in> set FORK_CHARS) command then Inl (Rejected ''fork command contains unsupported shell syntax'')
      else case shlex_split command of
        None \<Rightarrow> Inl (Rejected ''fork command is not a literal invocation'')
      | Some words \<Rightarrow>
          if words = [] \<or> hd words = ''pwd'' then Inl (Rejected ''fork command exposes its working directory'')
          else if hd words \<in> {''stat'', ''ls'', ''find''} then Inl (Rejected ''fork command can depend on filesystem metadata not preserved by a copy'')
          else check_words f fork_dir repo (pytest_args words) 0 words)"

section \<open>Snapshots of a tree\<close>

text \<open>
  eval/capture.py: \<open>fs_hash\<close> lists every entry of a tree except \<^verbatim>\<open>.git\<close>, in the order of names,
  and digests the list. The file model keeps permission bits of regular files only. The
  depth is bounded by the number of inodes, which no tree exceeds.
\<close>

datatype snap_entry =
    Snap_link string string
  | Snap_dir string
  | Snap_file string nat string string

type_synonym snapshot = "snap_entry list \<times> (inum, string) dict"

fun visit ::
  "nat \<Rightarrow> (bytes \<Rightarrow> string) \<Rightarrow> fs \<Rightarrow> string list \<Rightarrow> inum \<Rightarrow> snapshot \<Rightarrow> py_error + snapshot" where
  "visit 0 sha256 f rel d snap = Inl (OSError ''too deep'')"
| "visit (Suc n) sha256 f rel d snap =
     fold_res (\<lambda>(name, i) (parts, hardlinks).
       if name = ''.git'' then Inr (parts, hardlinks)
       else let path = as_posix (rel @ [name]) in
         case inode_at f i of
           Some (SymLink target) \<Rightarrow> Inr (parts @ [Snap_link path target], hardlinks)
         | Some (Directory es) \<Rightarrow> visit n sha256 f (rel @ [name]) i (parts @ [Snap_dir path], hardlinks)
         | Some (RegFile contents mode) \<Rightarrow>
             let linked_to = dict_get_default hardlinks i path
             in Inr (parts @ [Snap_file path mode (sha256 contents) linked_to], dict_set i linked_to hardlinks)
         | _ \<Rightarrow> Inl (ValueError ''unsupported workspace entry''))
       (sort_key fst (entries f d)) snap"

definition fs_hash :: "(bytes \<Rightarrow> string) \<Rightarrow> (snap_entry list \<Rightarrow> string) \<Rightarrow> fs \<Rightarrow> inum \<Rightarrow> py_error + string" where
  "fs_hash sha256 digest f d =
     (if \<not> is_dir f d then Inl (ValueError ''workspace is not a directory'')
      else case visit (Suc (length (inodes f))) sha256 f [] d ([], []) of
        Inl e \<Rightarrow> Inl e
      | Inr (parts, hardlinks) \<Rightarrow> Inr (digest parts))"

section \<open>Running a command in a fork\<close>

record drained =
  dr_out :: string
  dr_err :: "string option"
  dr_code :: int

text \<open>What the run relies on: the shell, the digest of a snapshot, and \<^verbatim>\<open>which("proot")\<close>.\<close>

record shell_env =
  se_drain :: "string \<Rightarrow> string \<Rightarrow> bool \<Rightarrow> fs \<Rightarrow> (py_error + drained) \<times> fs"
  se_digest :: "snap_entry list \<Rightarrow> string"
  se_proot :: "string option"
  se_shell :: "string option"

text \<open>Every entry below a directory, to the depth of the number of inodes.\<close>

fun all_entries :: "nat \<Rightarrow> fs \<Rightarrow> inum \<Rightarrow> inum list" where
  "all_entries 0 f d = []"
| "all_entries (Suc n) f d =
     concat (map (\<lambda>(name, i). i # (if is_dir f i then all_entries n f i else [])) (entries f d))"

definition has_aliases :: "fs \<Rightarrow> inum \<Rightarrow> bool" where
  "has_aliases f d \<longleftrightarrow>
     list_ex (\<lambda>i. is_link f i \<or> (is_reg f i \<and> 1 < nlink f i)) (all_entries (length (inodes f)) f d)"

text \<open>The command line as the fork's shell gets it, in the chosen view of paths.\<close>

definition fork_command ::
  "guard_env \<Rightarrow> shell_env \<Rightarrow> fs \<Rightarrow> inum \<Rightarrow> string \<Rightarrow> invocation option \<Rightarrow> string \<Rightarrow> guard_error + string" where
  "fork_command env sh f fork_dir fork_path iv command =
     (let repo = sfx_repo env in
      if getenv env ''SFX_FORK_PATH_VIEW'' ''cwd'' = ''proot'' then
        (case (if iv = None then validate_fork_command f fork_dir (Some repo) command else Inr ()) of
           Inl e \<Rightarrow> Inl e
         | Inr u \<Rightarrow>
             (case se_proot sh of
                None \<Rightarrow> Inl (Rejected ''declared proot path view is unavailable'')
              | Some binary \<Rightarrow>
                  if list_ex (\<lambda>c. c \<in> set [CHR '':'', CHR ''!'', CHR 0x0A, CHR 0x0D]) (fork_path @ repo) \<or>
                     \<not> posix_absolute repo
                  then Inl (Rejected ''invalid fork bind path'')
                  else Inr (shlex_join [binary, ''-r'', ''/'', ''-b'', fork_path @ '':'' @ repo, ''-w'', repo,
                    (case se_shell sh of None \<Rightarrow> ''/bin/sh'' | Some p \<Rightarrow> p), ''-c'', command])))
      else (case validate_fork_command f fork_dir None command of
        Inl e \<Rightarrow> Inl e | Inr u \<Rightarrow> Inr command))"

definition lift_error :: "py_error + 'a \<Rightarrow> guard_error + 'a" where
  "lift_error r = (case r of Inl e \<Rightarrow> Inl (Other_error e) | Inr x \<Rightarrow> Inr x)"

text \<open>The checks before the command: the policy, the aliases, the snapshot, the command line.\<close>

definition prepare_fork_run ::
  "guard_env \<Rightarrow> shell_env \<Rightarrow> (string, string) dict option \<Rightarrow> fs \<Rightarrow> inum \<Rightarrow> string \<Rightarrow>
   string \<Rightarrow> (string, pyval) dict \<Rightarrow> guard_error + (string option \<times> string)" where
  "prepare_fork_run env sh tool_env f fork_dir fork_path kind args =
     (case validate_speculative_command env f tool_env True (Some fork_dir) kind args of
        Inl e \<Rightarrow> Inl e
      | Inr iv \<Rightarrow>
      (case (if iv = None then Inr None
             else if has_aliases f fork_dir then Inl (Rejected ''contract fork contains aliases'')
             else lift_error (map_sum id Some (fs_hash (ge_sha256 env) (se_digest sh) f fork_dir))) of
        Inl e \<Rightarrow> Inl e
      | Inr earlier \<Rightarrow>
      (case command_of args of
        None \<Rightarrow> Inl (Other_error TypeError)
      | Some command \<Rightarrow>
      (case fork_command env sh f fork_dir fork_path iv command of
        Inl e \<Rightarrow> Inl e
      | Inr line \<Rightarrow> Inr (earlier, line)))))"

definition run_in_fork ::
  "guard_env \<Rightarrow> shell_env \<Rightarrow> (string, string) dict option \<Rightarrow> inum \<Rightarrow> string \<Rightarrow>
   string \<Rightarrow> (string, pyval) dict \<Rightarrow> fs \<Rightarrow> (guard_error + (drained \<times> string)) \<times> fs" where
  "run_in_fork env sh tool_env fork_dir fork_path kind args f =
     (case prepare_fork_run env sh tool_env f fork_dir fork_path kind args of
        Inl e \<Rightarrow> (Inl e, f)
      | Inr (earlier, line) \<Rightarrow>
      (case se_drain sh line fork_path (getenv env ''SFX_SEPARATE_STDERR'' [] = ''1'') f of
        (Inl e, f1) \<Rightarrow> (Inl (Other_error e), f1)
      | (Inr result, f1) \<Rightarrow>
          let fine = (Inr (result, status_of (dr_code result \<noteq> 0) kind), f1)
          in case earlier of
               None \<Rightarrow> fine
             | Some h \<Rightarrow>
                 (case fs_hash (ge_sha256 env) (se_digest sh) f1 fork_dir of
                    Inl e \<Rightarrow> (Inl (Other_error e), f1)
                  | Inr h1 \<Rightarrow>
                      if h1 \<noteq> h then (Inl (Rejected ''declared read-only command changed its fork''), f1)
                      else fine)))"

definition validate_fork_handle ::
  "guard_env \<Rightarrow> string \<Rightarrow> (string, pyval) dict \<Rightarrow> guard_error + unit" where
  "validate_fork_handle env substrate args =
     (case contracts env of
        Inl e \<Rightarrow> Inl e
      | Inr policy \<Rightarrow>
          (case match_command policy (command_of args) (sfx_repo env) of
             None \<Rightarrow> Inr ()
           | Some iv \<Rightarrow>
               if iv_sources iv \<noteq> [] \<and> substrate \<notin> {''clonefile'', ''reflink''}
               then Inl (PinnedScriptRequiresFork ''pinned script requires clonefile or reflink, not live overlay lowerdirs'') else Inr ()))"

section \<open>Running a command in the workspace\<close>

text \<open>
  The scratch directory as \<^verbatim>\<open>_run\<close> sees it: its tests, whether it lies in the repository, and the
  substrate chosen for it. \<open>with_handle\<close> is the context manager of sfx/fork.py.
\<close>

record scratch_view =
  sv_path :: string
  sv_absolute :: bool
  sv_symlink :: bool
  sv_dir :: bool
  sv_in_repo :: bool
  sv_substrate :: "py_error + string"

definition scratch_of :: "scratch_view option \<Rightarrow> guard_error + string" where
  "scratch_of view =
     (case view of
        None \<Rightarrow> Inl (PinnedScriptRequiresFork ''pinned script requires an existing private scratch directory'')
      | Some v \<Rightarrow>
          if sv_path v = [] \<or> \<not> sv_absolute v \<or> sv_symlink v \<or> \<not> sv_dir v
          then Inl (PinnedScriptRequiresFork ''pinned script requires an existing private scratch directory'')
          else if sv_in_repo v
          then Inl (PinnedScriptRequiresFork ''pinned script scratch must be outside the repository'')
          else (case sv_substrate v of
             Inl e \<Rightarrow> Inl (Other_error e)
           | Inr sub \<Rightarrow>
               if sub \<notin> {''clonefile'', ''reflink''}
               then Inl (PinnedScriptRequiresFork ''pinned script requires clonefile or reflink, not live overlay lowerdirs'') else Inr sub))"

definition run_real ::
  "guard_env \<Rightarrow> shell_env \<Rightarrow> (string, string) dict option \<Rightarrow> scratch_view option \<Rightarrow>
   (string \<Rightarrow> (inum \<Rightarrow> string \<Rightarrow> string \<Rightarrow> fs \<Rightarrow> (guard_error + drained) \<times> fs) \<Rightarrow> fs \<Rightarrow> (guard_error + drained) \<times> fs) \<Rightarrow>
   string \<Rightarrow> (string, pyval) dict \<Rightarrow> fs \<Rightarrow> (guard_error + drained) \<times> fs" where
  "run_real env sh tool_env view with_handle kind args f =
     (case validate_speculative_command env f tool_env False None kind args of
        Inl e \<Rightarrow> (Inl e, f)
      | Inr (Some iv) \<Rightarrow>
          (case scratch_of view of
             Inl e \<Rightarrow> (Inl e, f)
           | Inr sub \<Rightarrow>
               with_handle sub (\<lambda>fork_dir fork_path substrate f1.
                 case validate_fork_handle env substrate args of
                   Inl e \<Rightarrow> (Inl e, f1)
                 | Inr u \<Rightarrow>
                     (case run_in_fork env sh tool_env fork_dir fork_path kind args f1 of
                        (Inl e, f2) \<Rightarrow> (Inl e, f2)
                      | (Inr (result, status), f2) \<Rightarrow> (Inr result, f2))) f)
      | Inr None \<Rightarrow>
          (case command_of args of
             None \<Rightarrow> (Inl (Other_error TypeError), f)
           | Some command \<Rightarrow>
               (case validate_fork_command f (ge_repo_dir env) (Some (sfx_repo env)) command of
                  Inl (Rejected m) \<Rightarrow> (Inl (ScriptInvocationRejected m), f)
                | Inl e \<Rightarrow> (Inl e, f)
                | Inr u \<Rightarrow>
                    (case se_drain sh command (sfx_repo env) (getenv env ''SFX_SEPARATE_STDERR'' [] = ''1'') f of
                       (Inl e, f1) \<Rightarrow> (Inl (Other_error e), f1)
                     | (Inr result, f1) \<Rightarrow> (Inr result, f1)))))"

section \<open>The guards' promises\<close>

text \<open>The free kinds are the ones that run code, and the reads.\<close>

lemma classify_single_free_kind:
  "classify_single s = (k, ''free'') \<Longrightarrow> k \<in> set CODE_EXECUTING_KINDS \<union> {''read'', ''grep''}"
  using find_kind_of_prefix [of s] by (auto simp: classify_single_def CODE_EXECUTING_KINDS_def split: if_splits)

lemma classify_command_parts:
  assumes "classify_whole (strip skel) = None" and "command_segments (strip skel) = Some segs"
    and "\<not> list_ex segment_is_write segs"
  shows "classify_command skel =
    (if 1 < length segs then
       (let classified = map classify_command (filter (\<lambda>seg. strip seg \<noteq> []) segs)
        in if classified = [] \<or> list_ex (\<lambda>kv. snd kv \<noteq> ''free'') classified
           then (''unsafe'', ''never'') else hd classified)
     else classify_single (strip skel))"
  using assms by (subst classify_command.simps) simp

lemma classify_command_free_kind:
  "classify_command skel = (k, ''free'') \<Longrightarrow> k \<in> set CODE_EXECUTING_KINDS \<union> {''read'', ''grep''}"
proof (induction skel arbitrary: k rule: classify_command.induct)
  case (1 skel)
  let ?s = "strip skel"
  from classify_command_free [OF 1(2)] obtain segs where segs:
    "classify_whole ?s = None" "command_segments ?s = Some segs" "\<not> list_ex segment_is_write segs"
    by blast
  note parts = classify_command_parts [OF segs]
  show ?case
  proof (cases "1 < length segs")
    case False
    then have "classify_single ?s = (k, ''free'')" using 1(2) parts by simp
    then show ?thesis by (rule classify_single_free_kind)
  next
    case True
    define kvs where "kvs = map classify_command (filter (\<lambda>seg. strip seg \<noteq> []) segs)"
    have "kvs \<noteq> [] \<and> hd kvs = (k, ''free'')"
      using 1(2) True unfolding parts kvs_def [symmetric] by (simp add: Let_def split: if_splits)
    then have "(k, ''free'') \<in> set kvs" by (metis hd_in_set)
    then obtain seg where "seg \<in> set (filter (\<lambda>seg. strip seg \<noteq> []) segs)" "classify_command seg = (k, ''free'')"
      unfolding kvs_def by auto
    then show ?thesis using 1(1) [OF refl segs(1,2,3) True] by blast
  qed
qed

lemma classify_bash_free_kind:
  assumes "classify ''Bash'' (Some cmd) = (k, ''free'')"
  shows "k \<in> set CODE_EXECUTING_KINDS \<union> {''read'', ''grep''}"
proof -
  have "classify ''Bash'' (Some cmd) = (if cmd \<noteq> [] then classify_command cmd else (''unknown'', ''never''))"
    by (simp add: classify_def READ_TOOLS_def GREP_TOOLS_def EDIT_TOOLS_def SUBLLM_TOOLS_def BASH_TOOLS_def)
  with assms show ?thesis using classify_command_free_kind by (auto split: if_splits)
qed

lemma validate_literal_read_Inr:
  assumes "validate_literal_read environ (Some cmd) = Inr u"
  shows "list_all (\<lambda>c. c \<notin> set LITERAL_CHARS) cmd \<and>
    (\<exists>name words. shlex_split cmd = Some (name # words) \<and> name \<in> set LITERAL_READ_COMMANDS)"
proof -
  have chars: "\<not> list_ex (\<lambda>c. c \<in> set LITERAL_CHARS) cmd"
    using assms by (auto simp: validate_literal_read_def split: if_splits)
  then obtain name words where "shlex_split cmd = Some (name # words)" "name \<in> set LITERAL_READ_COMMANDS"
    using assms by (auto simp: validate_literal_read_def split: option.splits list.splits if_splits)
  with chars show ?thesis by (simp add: list_all_iff list_ex_iff)
qed

lemma contract_policy_Inr:
  assumes "contract_policy env environ kind command policy = Inr iv"
  shows "iv = match_command policy command (sfx_repo env) \<and>
    (\<forall>i. iv = Some i \<longrightarrow> iv_sources i \<noteq> []) \<and>
    (iv = None \<longrightarrow> kind \<notin> set CODE_EXECUTING_KINDS \<and>
      (kind \<in> {''read'', ''grep'', ''search''} \<longrightarrow> validate_literal_read environ command = Inr ()))"
  using assms by (auto simp: contract_policy_def Let_def split: if_splits option.splits sum.splits)

lemma match_command_facts:
  assumes "script_contracts defs = Inr policy" and "match_command policy (Some cmd) repo = Some i"
  shows "(\<forall>p \<in> set (iv_paths i). inside p) \<and>
    (iv_sources i \<noteq> [] \<longrightarrow> iv_script i \<in> set (map fst (iv_sources i)))"
proof -
  from match_command_Some [OF assms(2)] obtain words ct s where m:
    "list_all (\<lambda>c. c \<notin> set SHELL_CHARS) cmd" "shlex_split cmd = Some words" "is_python words" "ct \<in> set policy"
    "relative_path (words ! 1) repo = Some (ct_script ct)"
    "scan_args ct repo (drop 2 words) \<lparr>sc_paths = [ct_script ct], sc_positionals = 0, sc_supplied = []\<rparr> = Some s"
    "i = \<lparr>iv_script = ct_script ct, iv_paths = sc_paths s,
      iv_sources = sort_key fst (case ct_sources ct of None \<Rightarrow> [] | Some pins \<Rightarrow> pins)\<rparr>"
    by blast
  from script_contracts_ok [OF assms(1)] m(4) have ok: "contract_ok ct"
    by (simp add: contracts_ok_def list_all_iff)
  have "\<forall>p \<in> set (sc_paths s). inside p"
    using scan_args_confined [OF m(6)] ok by (simp add: contract_ok_def)
  moreover have "iv_script i \<in> set (map fst (iv_sources i))" if "iv_sources i \<noteq> []"
    using ok that by (cases "ct_sources ct") (simp_all add: m(7) contract_ok_def)
  ultimately show ?thesis by (simp add: m(7))
qed

definition root_dir :: "guard_env \<Rightarrow> inum option \<Rightarrow> inum" where
  "root_dir env source_root = (case source_root of None \<Rightarrow> ge_repo_dir env | Some d \<Rightarrow> d)"


definition demo_guard :: guard_env where
  "demo_guard = \<lparr>ge_environ = [], ge_sha256 = (\<lambda>b. b), ge_disturbed = (\<lambda>p. False), ge_repo_dir = 0\<rparr>"

definition demo_tree :: fs where
  "demo_tree = \<lparr>inodes = [(0, Directory [(''a.txt'', 1), (''ln'', 2)]), (1, RegFile ''hi'' 420), (2, SymLink ''a.txt'')],
     next_ino = 3\<rparr>"


text \<open>What the link check says: no prefix of the path names a symbolic link.\<close>

lemma has_link_prefix:
  "\<not> has_link f d parts \<Longrightarrow> 0 < n \<Longrightarrow> walk f d (take n parts) = Some i \<Longrightarrow> parts \<noteq> [] \<Longrightarrow> \<not> is_link f i"
proof (induction f d parts arbitrary: n rule: has_link.induct)
  case (1 f d)
  then show ?case by simp
next
  case (2 f d part parts)
  then obtain m where m: "n = Suc m" by (cases n) auto
  with 2 obtain j where j: "lookup f d part = Some j" "\<not> is_link f j" "\<not> has_link f j parts"
    "walk f j (take m parts) = Some i"
    by (auto split: option.splits)
  show ?case
  proof (cases "m = 0 \<or> parts = []")
    case True
    with j show ?thesis by auto
  next
    case False
    with 2(1) [OF j(1,3) _ j(4)] show ?thesis by blast
  qed
qed

lemma check_words_all:
  "check_words f d repo pa i words = Inr u \<Longrightarrow> w \<in> set words \<Longrightarrow> \<exists>sel. check_word f d repo sel w = Inr ()"
  by (induction words arbitrary: i) (auto split: sum.splits)

lemma check_value_parts:
  "check_value f d repo sel v = Inr () \<Longrightarrow> \<not> occurs_in ''::'' v \<Longrightarrow> check_parts f d repo v = Inr ()"
  by (auto simp: check_value_def split: if_splits)

lemma check_parts_Inr:
  assumes "check_parts f d repo path = Inr ()"
  shows "''..'' \<notin> set (posix_parts path) \<and>
    (\<exists>parts. (if posix_absolute path then \<exists>r. repo = Some r \<and> posix_parts path = posix_parts r @ parts
              else parts = posix_parts path) \<and> \<not> has_link f d parts)"
  using assms by (auto simp: check_parts_def Let_def parts_below_append split: if_splits option.splits)




definition demo_shell :: shell_env where
  "demo_shell = \<lparr>se_drain = (\<lambda>line cwd sep f. (Inr \<lparr>dr_out = ''hi'', dr_err = None, dr_code = 0\<rparr>, f)),
     se_digest = (\<lambda>parts. ''d''), se_proot = None, se_shell = None\<rparr>"


end
