(* ===== verification/Json_Print.thy ===== *)
theory Json_Print
  imports Json Shlex
begin

text \<open>
  What the program uses of \<^verbatim>\<open>json.dumps\<close>, and that \<^verbatim>\<open>json.loads\<close> reads back what it
  prints: strings with every escape, integers, lists and dicts. The printing of a float is an
  argument. With \<^verbatim>\<open>ensure_ascii\<close> the text must be ASCII; without it any bytes are allowed.
\<close>

section \<open>Printing\<close>

record json_style =
  js_ascii :: bool
  js_item_sep :: string
  js_key_sep :: string
  js_float :: "rat \<Rightarrow> string"

text \<open>\<^verbatim>\<open>json.dumps(v)\<close> and \<^verbatim>\<open>json.dumps(v, separators=(",", ":"))\<close>.\<close>

definition default_style :: "(rat \<Rightarrow> string) \<Rightarrow> json_style" where
  "default_style fl = \<lparr>js_ascii = True, js_item_sep = '', '', js_key_sep = '': '', js_float = fl\<rparr>"

definition compact_style :: "(rat \<Rightarrow> string) \<Rightarrow> json_style" where
  "compact_style fl = \<lparr>js_ascii = True, js_item_sep = '','', js_key_sep = '':'', js_float = fl\<rparr>"

definition hex_char :: "nat \<Rightarrow> char" where
  "hex_char n = (if n < 10 then char_of (48 + n) else char_of (87 + n))"

definition json_escape :: "bool \<Rightarrow> char \<Rightarrow> string" where
  "json_escape ascii c =
     (if c = CHR 0x22 \<or> c = CHR 0x5C then [CHR 0x5C, c]
      else if c = CHR 0x0A then [CHR 0x5C, CHR ''n'']
      else if c = CHR 0x0D then [CHR 0x5C, CHR ''r'']
      else if c = CHR 0x09 then [CHR 0x5C, CHR ''t'']
      else if c = CHR 0x0C then [CHR 0x5C, CHR ''f'']
      else if c = CHR 0x08 then [CHR 0x5C, CHR ''b'']
      else if code c < 32 \<or> (ascii \<and> 127 \<le> code c)
      then [CHR 0x5C, CHR ''u'', CHR ''0'', CHR ''0'', hex_char (code c div 16), hex_char (code c mod 16)]
      else [c])"

definition json_str :: "bool \<Rightarrow> string \<Rightarrow> string" where
  "json_str ascii s = [CHR 0x22] @ concat (map (json_escape ascii) s) @ [CHR 0x22]"

definition int_str :: "int \<Rightarrow> string" where
  "int_str i = (if i < 0 then ''-'' @ nat_str (nat (- i)) else nat_str (nat i))"

primrec json_dumps :: "json_style \<Rightarrow> pyval \<Rightarrow> string" where
  "json_dumps st PNone = ''null''"
| "json_dumps st (PBool b) = (if b then ''true'' else ''false'')"
| "json_dumps st (PInt i) = int_str i"
| "json_dumps st (PFloat x) = js_float st x"
| "json_dumps st (PStr s) = json_str (js_ascii st) s"
| "json_dumps st (PList xs) = ''['' @ join_with (js_item_sep st) (map (json_dumps st) xs) @ '']''"
| "json_dumps st (PTuple xs) = ''['' @ join_with (js_item_sep st) (map (json_dumps st) xs) @ '']''"
| "json_dumps st (PDict kvs) =
     ''{'' @ join_with (js_item_sep st)
       (map (\<lambda>(k, s). json_str (js_ascii st) k @ js_key_sep st @ s) (map (map_prod id (json_dumps st)) kvs)) @ ''}''"

text \<open>The values that a style prints without loss.\<close>

definition text_ok :: "bool \<Rightarrow> string \<Rightarrow> bool" where
  "text_ok ascii s \<longleftrightarrow> (ascii \<longrightarrow> list_all (\<lambda>c. code c < 128) s)"

primrec json_ok :: "bool \<Rightarrow> pyval \<Rightarrow> bool" where
  "json_ok a PNone = True"
| "json_ok a (PBool b) = True"
| "json_ok a (PInt i) = True"
| "json_ok a (PFloat x) = False"
| "json_ok a (PStr s) = text_ok a s"
| "json_ok a (PList xs) = list_all id (map (json_ok a) xs)"
| "json_ok a (PTuple xs) = False"
| "json_ok a (PDict kvs) = (distinct (map fst kvs) \<and> list_all (text_ok a) (map fst kvs) \<and>
     list_all snd (map (map_prod id (json_ok a)) kvs))"

definition style_ok :: "json_style \<Rightarrow> bool" where
  "style_ok st \<longleftrightarrow> js_item_sep st \<in> {'','', '', ''} \<and> js_key_sep st \<in> {'':'', '': ''}"

lemma style_ok_simps [simp]: "style_ok (default_style fl)" "style_ok (compact_style fl)"
  by (simp_all add: style_ok_def default_style_def compact_style_def)

section \<open>Strings and numbers read back\<close>

lemma code_eqI: "code c = code d \<Longrightarrow> c = d"
  by (simp add: code_def)

lemma hex_digit_char: "n < 16 \<Longrightarrow> hex_digit (hex_char n) = Some n"
  by (simp add: hex_digit_def hex_char_def code_def)

lemma code_lt: "code c < 256"
  unfolding code_def by (cases c) (simp add: of_char_def)

lemma json_string_escape:
  assumes "text_ok ascii [c]"
  shows "json_string (json_escape ascii c @ s) = map_option (\<lambda>(t, r). (c # t, r)) (json_string s)"
proof -
  have simple: "simple_escape (CHR 0x22) = Some (CHR 0x22)" "simple_escape (CHR 0x5C) = Some (CHR 0x5C)"
    "simple_escape (CHR ''n'') = Some (CHR 0x0A)" "simple_escape (CHR ''r'') = Some (CHR 0x0D)"
    "simple_escape (CHR ''t'') = Some (CHR 0x09)" "simple_escape (CHR ''f'') = Some (CHR 0x0C)"
    "simple_escape (CHR ''b'') = Some (CHR 0x08)"
    by code_simp+
  consider "c \<in> {CHR 0x22, CHR 0x5C, CHR 0x0A, CHR 0x0D, CHR 0x09, CHR 0x0C, CHR 0x08}"
    | (hex) "c \<notin> {CHR 0x22, CHR 0x5C, CHR 0x0A, CHR 0x0D, CHR 0x09, CHR 0x0C, CHR 0x08}"
        "code c < 32 \<or> (ascii \<and> 127 \<le> code c)"
    | (plain) "c \<notin> {CHR 0x22, CHR 0x5C, CHR 0x0A, CHR 0x0D, CHR 0x09, CHR 0x0C, CHR 0x08}"
        "\<not> (code c < 32 \<or> (ascii \<and> 127 \<le> code c))" by blast
  then show ?thesis
  proof cases
    case 1
    then show ?thesis by (auto simp: json_escape_def simple)
  next
    case hex
    have small: "code c < 128" using assms hex(2) by (auto simp: text_ok_def)
    have zero: "hex_digit (CHR ''0'') = Some 0" by code_simp
    have "hex4 ([CHR ''0'', CHR ''0'', hex_char (code c div 16), hex_char (code c mod 16)] @ s) = Some (code c, s)"
      using code_lt [of c] by (simp add: hex4_def zero hex_digit_char div_mult_mod_eq)
    moreover have "utf8_point (code c) = [c]"
      using small by (simp add: utf8_point_def byte_def code_def)
    ultimately show ?thesis using hex small
      by (simp add: json_escape_def del: append_Cons append_Nil) simp
  next
    case plain
    then have "json_escape ascii c = [c]" by (simp only: json_escape_def) auto
    with plain show ?thesis by simp
  qed
qed

lemma json_string_body:
  "text_ok ascii s \<Longrightarrow> json_string (concat (map (json_escape ascii) s) @ CHR 0x22 # r) = Some (s, r)"
proof (induction s)
  case Nil
  then show ?case by simp
next
  case (Cons c s)
  then have "text_ok ascii [c]" "text_ok ascii s" by (auto simp: text_ok_def)
  with Cons.IH show ?case by (simp add: json_string_escape)
qed

lemma digits_append:
  "list_all is_digit ds \<Longrightarrow> (r = [] \<or> \<not> is_digit (hd r)) \<Longrightarrow> digits (ds @ r) = (ds, r)"
  by (cases r) (auto simp: digits_def list_all_iff takeWhile_append2 dropWhile_append2)

lemma digits_value_snoc: "digits_value (s @ [c]) = 10 * digits_value s + (code c - 48)"
  by (simp add: digits_value_def)

lemma nat_digits_ok:
  "n < fuel \<Longrightarrow> list_all is_digit (nat_digits fuel n) \<and> digits_value (nat_digits fuel n) = n \<and>
    nat_digits fuel n \<noteq> [] \<and> (0 < n \<longrightarrow> hd (nat_digits fuel n) \<noteq> CHR ''0'') \<and> (n = 0 \<longrightarrow> nat_digits fuel n = ''0'')"
proof (induction fuel arbitrary: n)
  case 0
  then show ?case by simp
next
  case (Suc fuel)
  have digit: "is_digit (char_of (48 + m))" "code (char_of (48 + m)) - 48 = m" if "m < 10" for m :: nat
    using that by (simp_all add: is_digit_def code_def)
  show ?case
  proof (cases "n < 10")
    case True
    have "char_of (48 + n) \<noteq> CHR ''0''" if "0 < n"
    proof
      assume "char_of (48 + n) = CHR ''0''"
      then have "code (char_of (48 + n)) = code (CHR ''0'')" by simp
      with that True show False by (simp add: code_def)
    qed
    moreover have "char_of (48 + 0 :: nat) = CHR ''0''" by code_simp
    ultimately show ?thesis using True digit [of n] by (auto simp: digits_value_def)
  next
    case False
    then have less: "n div 10 < fuel" "0 < n div 10" using Suc.prems by (auto simp: less_Suc_eq_le div_less_dividend)
    with Suc.IH [OF less(1)] digit [of "n mod 10"] False show ?thesis
      by (auto simp: digits_value_snoc)
  qed
qed

lemma nat_str_ok:
  "list_all is_digit (nat_str n) \<and> digits_value (nat_str n) = n \<and> nat_str n \<noteq> [] \<and>
    (0 < n \<longrightarrow> hd (nat_str n) \<noteq> CHR ''0'') \<and> (n = 0 \<longrightarrow> nat_str n = ''0'')"
  unfolding nat_str_def by (rule nat_digits_ok) simp

text \<open>What may follow a value inside a printed text, or at the end of a line.\<close>

definition value_end :: "string \<Rightarrow> bool" where
  "value_end r \<longleftrightarrow> r = [] \<or> hd r \<in> {CHR '','', CHR '']'', CHR ''}'', CHR 0x0A}"

lemma value_end_not_number:
  "value_end r \<Longrightarrow> (r = [] \<or> \<not> is_digit (hd r)) \<and> num_frac r = ([], r) \<and> num_exp r = (None, r)"
  by (cases r) (auto simp: value_end_def num_frac_def num_exp_def json_exponent_def is_digit_def code_def)

lemma num_int_nat: "value_end r \<Longrightarrow> num_int (nat_str n @ r) = (nat_str n, r)"
proof -
  assume r: "value_end r"
  show ?thesis
  proof (cases "n = 0")
    case True
    then show ?thesis using nat_str_ok [of n] by (simp add: num_int_def)
  next
    case False
    then have "nat_str n \<noteq> []" "hd (nat_str n) \<noteq> CHR ''0''" using nat_str_ok [of n] by auto
    moreover have "digits (nat_str n @ r) = (nat_str n, r)"
      using nat_str_ok [of n] value_end_not_number [OF r] by (intro digits_append) auto
    ultimately show ?thesis by (cases "nat_str n") (simp_all add: num_int_def)
  qed
qed

lemma json_number_int: "value_end r \<Longrightarrow> json_number (int_str i @ r) = Some (PInt i, r)"
proof -
  assume r: "value_end r"
  note rest = value_end_not_number [OF r]
  have minus: "\<not> is_digit (CHR ''-'')" by code_simp
  have sign: "num_sign (nat_str n @ r) = (1, nat_str n @ r)" for n
    using nat_str_ok [of n] minus by (cases "nat_str n") (auto simp: num_sign_def)
  show ?thesis
  proof (cases "i < 0")
    case True
    then show ?thesis using rest nat_str_ok [of "nat (- i)"] num_int_nat [OF r, of "nat (- i)"]
      by (simp add: json_number_def int_str_def num_sign_def)
  next
    case False
    then show ?thesis using rest nat_str_ok [of "nat i"] num_int_nat [OF r, of "nat i"] sign
      by (simp add: json_number_def int_str_def)
  qed
qed

section \<open>Values read back\<close>

text \<open>With enough fuel the scanner reads a printed value and stops behind it.\<close>

definition reads :: "bool \<Rightarrow> json_style \<Rightarrow> pyval \<Rightarrow> bool" where
  "reads u st v \<longleftrightarrow> (\<forall>r. value_end r \<longrightarrow>
     (\<exists>N. \<forall>n \<ge> N. json_value u n (json_dumps st v @ r) = Some (v, r)))"

definition first_ok :: "string \<Rightarrow> bool" where
  "first_ok s \<longleftrightarrow> s \<noteq> [] \<and> \<not> is_ws (hd s) \<and> hd s \<notin> {CHR '']'', CHR ''}''}"

lemma first_ok_skip: "first_ok s \<Longrightarrow> skip_ws (s @ r) = s @ r"
  by (cases s) (auto simp: first_ok_def skip_ws_def)

lemma sep_skip: "first_ok s \<Longrightarrow> skip_ws (CHR '' '' # s @ r) = s @ r" "first_ok s \<Longrightarrow> skip_ws (s @ r) = s @ r"
  using first_ok_skip [of s r] by (simp_all add: skip_ws_def is_ws_def code_def)

lemma nat_str_first: "first_ok (nat_str n) \<and> hd (nat_str n) \<notin> {CHR 0x22, CHR ''{'', CHR ''['', CHR ''n'', CHR ''t'', CHR ''f''}"
proof -
  have "nat_str n \<noteq> []" "is_digit (hd (nat_str n))"
    using nat_str_ok [of n] by (auto simp: list_all_iff)
  then show ?thesis by (auto simp: first_ok_def is_digit_def is_ws_def code_def)
qed

lemma int_str_first: "first_ok (int_str i) \<and> hd (int_str i) \<notin> {CHR 0x22, CHR ''{'', CHR ''['', CHR ''n'', CHR ''t'', CHR ''f''}"
  using nat_str_first [of "nat i"] by (simp add: int_str_def first_ok_def is_ws_def code_def)

lemma dumps_first: "json_ok (js_ascii st) v \<Longrightarrow> first_ok (json_dumps st v)"
  using int_str_first by (cases v) (auto simp: first_ok_def json_str_def is_ws_def code_def)

lemma json_value_atom:
  assumes "s \<noteq> []" and "hd s \<notin> {CHR 0x22, CHR ''{'', CHR ''[''}"
  shows "json_value u (Suc n) s = (case json_literal s of Some r \<Rightarrow> Some r | None \<Rightarrow> json_number s)"
proof -
  obtain c cs where s: "s = c # cs" using assms(1) by (cases s) auto
  show ?thesis using assms(2) unfolding s by simp
qed

lemma json_literal_none:
  assumes "s \<noteq> []" and "hd s \<notin> {CHR ''n'', CHR ''t'', CHR ''f''}"
  shows "json_literal s = None"
  using assms by (cases s) (auto simp: json_literal_def)

lemma eventually_le: "\<forall>n \<ge> N. P n \<Longrightarrow> N \<le> M \<Longrightarrow> \<forall>n \<ge> (M::nat). P n"
  by simp

lemma skip_value_end: "value_end r \<Longrightarrow> r \<noteq> [] \<Longrightarrow> hd r \<noteq> CHR 0x0A \<Longrightarrow> skip_ws r = r"
  by (cases r) (auto simp: value_end_def skip_ws_def is_ws_def code_def)

lemma skip_comma: "skip_ws (CHR '','' # s) = CHR '','' # s"
  by (simp add: skip_ws_def is_ws_def code_def)

lemma reads_items:
  assumes "style_ok st" and "xs \<noteq> []" and "\<forall>x \<in> set xs. reads u st x \<and> json_ok (js_ascii st) x"
  shows "\<exists>N. \<forall>n \<ge> N. json_items u n acc (join_with (js_item_sep st) (map (json_dumps st) xs) @ CHR '']'' # r) =
    Some (acc @ xs, r)"
  using assms(2,3)
proof (induction xs arbitrary: acc)
  case Nil
  then show ?case by simp
next
  case (Cons x xs)
  show ?case
  proof (cases "xs = []")
    case True
    have "value_end (CHR '']'' # r)" by (simp add: value_end_def)
    with Cons.prems obtain N where N: "\<forall>n \<ge> N. json_value u n (json_dumps st x @ CHR '']'' # r) = Some (x, CHR '']'' # r)"
      unfolding reads_def by (metis list.set_intros(1))
    have "json_items u n acc (json_dumps st x @ CHR '']'' # r) = Some (acc @ [x], r)" if n: "Suc N \<le> n" for n
    proof -
      obtain m where m: "n = Suc m" "N \<le> m" using n by (cases n) auto
      show ?thesis using N m skip_value_end [OF \<open>value_end (CHR '']'' # r)\<close>] by simp
    qed
    with True show ?thesis by auto
  next
    case False
    then obtain y ys where ys: "xs = y # ys" by (cases xs) auto
    let ?tail = "join_with (js_item_sep st) (map (json_dumps st) xs) @ CHR '']'' # r"
    let ?rest = "js_item_sep st @ ?tail"
    have sep: "?rest = CHR '','' # tl (js_item_sep st) @ ?tail" "value_end ?rest"
      using assms(1) by (auto simp: style_ok_def value_end_def)
    have "first_ok (json_dumps st y)" using Cons.prems ys dumps_first by simp
    then have "first_ok (join_with (js_item_sep st) (map (json_dumps st) xs))"
      unfolding ys by (cases ys) (auto simp: first_ok_def)
    then have skip: "skip_ws (tl (js_item_sep st) @ ?tail) = ?tail"
      using assms(1) sep_skip by (auto simp: style_ok_def)
    have "reads u st x" using Cons.prems by simp
    with sep(2) obtain N1 where N1: "\<forall>n \<ge> N1. json_value u n (json_dumps st x @ ?rest) = Some (x, ?rest)"
      unfolding reads_def by blast
    from Cons.IH [of "acc @ [x]"] Cons.prems False obtain N2 where
      N2: "\<forall>n \<ge> N2. json_items u n (acc @ [x]) ?tail = Some ((acc @ [x]) @ xs, r)" by auto
    have "json_items u n acc (json_dumps st x @ ?rest) = Some (acc @ x # xs, r)" if n: "Suc (max N1 N2) \<le> n" for n
    proof -
      obtain m where m: "n = Suc m" "N1 \<le> m" "N2 \<le> m" using n by (cases n) auto
      have rest: "skip_ws ?rest = CHR '','' # tl (js_item_sep st) @ ?tail"
        unfolding sep(1) by (rule skip_comma)
      have one: "json_value u m (json_dumps st x @ ?rest) = Some (x, ?rest)" using N1 m by simp
      have two: "json_items u m (acc @ [x]) ?tail = Some ((acc @ [x]) @ xs, r)" using N2 m by simp
      show ?thesis unfolding m(1) by (simp add: one rest skip two [simplified])
    qed
    then show ?thesis unfolding ys by auto
  qed
qed

lemma reads_key:
  assumes "style_ok st" and "text_ok (js_ascii st) k" and "first_ok s"
  shows "\<exists>q. json_str (js_ascii st) k @ js_key_sep st @ s @ r = CHR 0x22 # q \<and>
    json_string q = Some (k, js_key_sep st @ s @ r) \<and>
    (\<exists>cs. skip_ws (js_key_sep st @ s @ r) = CHR '':'' # cs \<and> skip_ws cs = s @ r)"
proof -
  have colon: "skip_ws (CHR '':'' # t) = CHR '':'' # t" for t by (simp add: skip_ws_def is_ws_def code_def)
  have "json_string (concat (map (json_escape (js_ascii st)) k) @ CHR 0x22 # js_key_sep st @ s @ r) =
      Some (k, js_key_sep st @ s @ r)"
    using assms(2) by (rule json_string_body)
  moreover have "\<exists>cs. skip_ws (js_key_sep st @ s @ r) = CHR '':'' # cs \<and> skip_ws cs = s @ r"
    using assms(1) colon sep_skip [OF assms(3)] by (auto simp: style_ok_def)
  ultimately show ?thesis by (auto simp: json_str_def)
qed

abbreviation member_str :: "json_style \<Rightarrow> string \<times> pyval \<Rightarrow> string" where
  "member_str st p \<equiv> json_str (js_ascii st) (fst p) @ js_key_sep st @ json_dumps st (snd p)"

lemma reads_members:
  assumes "style_ok st" and "kvs \<noteq> []" and "\<forall>p \<in> set kvs. reads u st (snd p) \<and> json_ok (js_ascii st) (snd p) \<and> text_ok (js_ascii st) (fst p)"
    and "distinct (map fst acc @ map fst kvs)"
  shows "\<exists>N. \<forall>n \<ge> N. json_members u n acc (join_with (js_item_sep st) (map (member_str st) kvs) @ CHR ''}'' # r) =
    Some (fold (\<lambda>p. dict_set (fst p) (snd p)) kvs acc, r)"
  using assms(2-4)
proof (induction kvs arbitrary: acc)
  case Nil
  then show ?case by simp
next
  case (Cons p kvs)
  have first: "first_ok (json_dumps st (snd p))" using Cons.prems dumps_first by simp
  have new: "\<not> repeated u acc (fst p)"
    using Cons.prems(3) by (auto simp: repeated_def map_of_eq_None_iff)
  have key: "text_ok (js_ascii st) (fst p)" and rd: "reads u st (snd p)" using Cons.prems by simp_all
  show ?case
  proof (cases "kvs = []")
    case True
    let ?rest = "CHR ''}'' # r"
    have rest_end: "value_end ?rest" by (simp add: value_end_def)
    with rd obtain N where N: "\<forall>n \<ge> N. json_value u n (json_dumps st (snd p) @ ?rest) = Some (snd p, ?rest)"
      unfolding reads_def by blast
    from reads_key [OF assms(1) key first, of ?rest] obtain q cs where q:
      "member_str st p @ ?rest = CHR 0x22 # q" "json_string q = Some (fst p, js_key_sep st @ json_dumps st (snd p) @ ?rest)"
      "skip_ws (js_key_sep st @ json_dumps st (snd p) @ ?rest) = CHR '':'' # cs" "skip_ws cs = json_dumps st (snd p) @ ?rest"
      by auto
    have "json_members u n acc (member_str st p @ ?rest) = Some (dict_set (fst p) (snd p) acc, r)" if n: "Suc N \<le> n" for n
    proof -
      obtain m where m: "n = Suc m" "N \<le> m" using n by (cases n) auto
      show ?thesis unfolding m(1) q(1) using N m(2) q(2-4) new skip_value_end [OF rest_end] by simp
    qed
    with True show ?thesis by auto
  next
    case False
    then obtain y ys where ys: "kvs = y # ys" by (cases kvs) auto
    let ?tail = "join_with (js_item_sep st) (map (member_str st) kvs) @ CHR ''}'' # r"
    let ?rest = "js_item_sep st @ ?tail"
    have sep: "?rest = CHR '','' # tl (js_item_sep st) @ ?tail" "value_end ?rest"
      using assms(1) by (auto simp: style_ok_def value_end_def)
    have "first_ok (join_with (js_item_sep st) (map (member_str st) kvs))"
      unfolding ys by (cases ys) (auto simp: first_ok_def json_str_def is_ws_def code_def)
    then have skip: "skip_ws (tl (js_item_sep st) @ ?tail) = ?tail"
      using assms(1) sep_skip by (auto simp: style_ok_def)
    from rd sep(2) obtain N1 where N1: "\<forall>n \<ge> N1. json_value u n (json_dumps st (snd p) @ ?rest) = Some (snd p, ?rest)"
      unfolding reads_def by blast
    have later: "distinct (map fst (dict_set (fst p) (snd p) acc) @ map fst kvs)"
      using Cons.prems(3) dict_set_fresh [of "fst p" acc "snd p"] by auto
    from Cons.IH [OF False _ later] Cons.prems(2) obtain N2 where
      N2: "\<forall>n \<ge> N2. json_members u n (dict_set (fst p) (snd p) acc) ?tail =
        Some (fold (\<lambda>p. dict_set (fst p) (snd p)) kvs (dict_set (fst p) (snd p) acc), r)" by auto
    from reads_key [OF assms(1) key first, of ?rest] obtain q cs where q:
      "member_str st p @ ?rest = CHR 0x22 # q" "json_string q = Some (fst p, js_key_sep st @ json_dumps st (snd p) @ ?rest)"
      "skip_ws (js_key_sep st @ json_dumps st (snd p) @ ?rest) = CHR '':'' # cs" "skip_ws cs = json_dumps st (snd p) @ ?rest"
      by auto
    have "json_members u n acc (member_str st p @ ?rest) =
        Some (fold (\<lambda>p. dict_set (fst p) (snd p)) (p # kvs) acc, r)" if n: "Suc (max N1 N2) \<le> n" for n
    proof -
      obtain m where m: "n = Suc m" "N1 \<le> m" "N2 \<le> m" using n by (cases n) auto
      have rest: "skip_ws ?rest = CHR '','' # tl (js_item_sep st) @ ?tail"
        unfolding sep(1) by (rule skip_comma)
      have one: "json_value u m (json_dumps st (snd p) @ ?rest) = Some (snd p, ?rest)" using N1 m by simp
      have two: "json_members u m (dict_set (fst p) (snd p) acc) ?tail =
          Some (fold (\<lambda>p. dict_set (fst p) (snd p)) kvs (dict_set (fst p) (snd p) acc), r)" using N2 m by simp
      show ?thesis unfolding m(1) q(1) by (simp add: q(2-4) new one rest skip two)
    qed
    then show ?thesis unfolding ys by auto
  qed
qed

lemma fold_dict_set_distinct:
  "distinct (map fst acc @ map fst kvs) \<Longrightarrow> fold (\<lambda>p. dict_set (fst p) (snd p)) kvs acc = acc @ kvs"
proof (induction kvs arbitrary: acc)
  case Nil
  then show ?case by simp
next
  case (Cons p kvs)
  then have "dict_set (fst p) (snd p) acc = acc @ [p]" by (cases p) (auto intro: dict_set_fresh)
  with Cons.IH [of "acc @ [p]"] Cons.prems show ?case by simp
qed

lemma json_ok_PDict:
  "json_ok a (PDict kvs) \<longleftrightarrow> distinct (map fst kvs) \<and> (\<forall>p \<in> set kvs. text_ok a (fst p) \<and> json_ok a (snd p))"
  by (induction kvs) auto

lemma dumps_PDict:
  "json_dumps st (PDict kvs) = ''{'' @ join_with (js_item_sep st) (map (member_str st) kvs) @ ''}''"
  by (simp add: comp_def case_prod_beta)

lemma json_value_reads: "style_ok st \<Longrightarrow> json_ok (js_ascii st) v \<Longrightarrow> reads u st v"
proof (induction v)
  case PNone
  have "json_value u n (''null'' @ r) = Some (PNone, r)" if "1 \<le> n" for n r
    using that by (cases n) (simp_all add: json_literal_def)
  then show ?case by (auto simp: reads_def intro!: exI [of _ 1])
next
  case (PBool b)
  have "json_value u n ((if b then ''true'' else ''false'') @ r) = Some (PBool b, r)" if "1 \<le> n" for n r
    using that by (cases n) (simp_all add: json_literal_def)
  then show ?case by (auto simp: reads_def intro!: exI [of _ 1])
next
  case (PInt i)
  have "json_value u n (int_str i @ r) = Some (PInt i, r)" if n: "1 \<le> n" "value_end r" for n r
  proof -
    obtain m where "n = Suc m" using n(1) by (cases n) auto
    moreover have "json_value u (Suc m) (int_str i @ r) = json_number (int_str i @ r)"
      using int_str_first [of i] json_literal_none [of "int_str i @ r"]
      by (subst json_value_atom) (auto simp: first_ok_def)
    ultimately show ?thesis using json_number_int [OF n(2)] by simp
  qed
  then show ?case by (auto simp: reads_def intro!: exI [of _ 1])
next
  case (PFloat x)
  then show ?case by simp
next
  case (PStr s)
  have "json_value u n (json_str (js_ascii st) s @ r) = Some (PStr s, r)" if "1 \<le> n" for n r
    using that PStr.prems json_string_body [of "js_ascii st" s r] by (cases n) (simp_all add: json_str_def)
  then show ?case by (auto simp: reads_def intro!: exI [of _ 1])
next
  case (PList xs)
  show ?case
  proof (cases "xs = []")
    case True
    have "json_value u n (''[]'' @ r) = Some (PList [], r)" if "1 \<le> n" for n r
      using that by (cases n) (simp_all add: skip_ws_def is_ws_def code_def)
    with True show ?thesis by (auto simp: reads_def intro!: exI [of _ 1])
  next
    case False
    have all: "\<forall>x \<in> set xs. reads u st x \<and> json_ok (js_ascii st) x"
      using PList by (auto simp: list_all_iff)
    show ?thesis unfolding reads_def
    proof (intro allI impI)
      fix r assume "value_end r"
      let ?body = "join_with (js_item_sep st) (map (json_dumps st) xs) @ CHR '']'' # r"
      from reads_items [OF PList.prems(1) False all, of "[]" r] obtain N where
        N: "\<forall>n \<ge> N. json_items u n [] ?body = Some (xs, r)" by auto
      obtain y ys where ys: "xs = y # ys" using False by (cases xs) auto
      have "first_ok (json_dumps st y)" using all ys dumps_first by simp
      then have first: "first_ok (join_with (js_item_sep st) (map (json_dumps st) xs))"
        unfolding ys by (cases ys) (auto simp: first_ok_def)
      then have skip: "skip_ws ?body = ?body" by (rule first_ok_skip)
      have "json_value u n (CHR ''['' # ?body) = Some (PList xs, r)" if n: "Suc N \<le> n" for n
      proof -
        obtain m where m: "n = Suc m" "N \<le> m" using n by (cases n) auto
        obtain d ds where d: "?body = d # ds" "d \<noteq> CHR '']''"
          using first by (cases "join_with (js_item_sep st) (map (json_dumps st) xs)") (auto simp: first_ok_def)
        have "json_items u m [] (d # ds) = Some (xs, r)" using N m(2) unfolding d(1) by simp
        with skip d(2) show ?thesis unfolding m(1) d(1) by simp
      qed
      then show "\<exists>N. \<forall>n \<ge> N. json_value u n (json_dumps st (PList xs) @ r) = Some (PList xs, r)" by auto
    qed
  qed
next
  case (PTuple xs)
  then show ?case by simp
next
  case (PDict kvs)
  show ?case
  proof (cases "kvs = []")
    case True
    have "json_value u n (''{}'' @ r) = Some (PDict [], r)" if "1 \<le> n" for n r
      using that by (cases n) (simp_all add: skip_ws_def is_ws_def code_def)
    with True show ?thesis by (auto simp: reads_def intro!: exI [of _ 1])
  next
    case False
    have ok: "distinct (map fst kvs)" "\<forall>p \<in> set kvs. text_ok (js_ascii st) (fst p) \<and> json_ok (js_ascii st) (snd p)"
      using PDict.prems(2) unfolding json_ok_PDict by blast+
    have "reads u st (snd p)" if "p \<in> set kvs" for p
      using PDict.IH [of p "snd p"] PDict.prems(1) ok(2) that by (cases p) auto
    with ok(2) have all: "\<forall>p \<in> set kvs. reads u st (snd p) \<and> json_ok (js_ascii st) (snd p) \<and> text_ok (js_ascii st) (fst p)"
      by blast
    have same: "fold (\<lambda>p. dict_set (fst p) (snd p)) kvs [] = kvs" using fold_dict_set_distinct [of "[]" kvs] ok(1) by simp
    show ?thesis unfolding reads_def
    proof (intro allI impI)
      fix r assume "value_end r"
      let ?body = "join_with (js_item_sep st) (map (member_str st) kvs) @ CHR ''}'' # r"
      from reads_members [OF PDict.prems(1) False all, of "[]" r] ok(1) same obtain N where
        N: "\<forall>n \<ge> N. json_members u n [] ?body = Some (kvs, r)" by auto
      obtain y ys where ys: "kvs = y # ys" using False by (cases kvs) auto
      have first: "first_ok (join_with (js_item_sep st) (map (member_str st) kvs))"
        unfolding ys by (cases ys) (auto simp: first_ok_def json_str_def is_ws_def code_def)
      then have skip: "skip_ws ?body = ?body" by (rule first_ok_skip)
      have "json_value u n (CHR ''{'' # ?body) = Some (PDict kvs, r)" if n: "Suc N \<le> n" for n
      proof -
        obtain m where m: "n = Suc m" "N \<le> m" using n by (cases n) auto
        obtain d ds where d: "?body = d # ds" "d \<noteq> CHR ''}''"
          using first by (cases "join_with (js_item_sep st) (map (member_str st) kvs)") (auto simp: first_ok_def)
        have "json_members u m [] (d # ds) = Some (kvs, r)" using N m(2) unfolding d(1) by simp
        with skip d(2) show ?thesis unfolding m(1) d(1) by simp
      qed
      then show "\<exists>N. \<forall>n \<ge> N. json_value u n (json_dumps st (PDict kvs) @ r) = Some (PDict kvs, r)"
        unfolding dumps_PDict by auto
    qed
  qed
qed

lemma loads_dumps_end:
  assumes "style_ok st" and "json_ok (js_ascii st) v" and "r \<in> {[], [CHR 0x0A]}"
  shows "json_loads_by u (json_dumps st v @ r) = Some v"
proof -
  have "value_end r" using assms(3) by (auto simp: value_end_def)
  with json_value_reads [OF assms(1,2)] obtain N where
    N: "\<forall>n \<ge> N. json_value u n (json_dumps st v @ r) = Some (v, r)"
    unfolding reads_def by blast
  let ?n = "max N (2 * length (json_dumps st v @ r) + 2)"
  have "json_value u ?n (skip_ws (json_dumps st v @ r)) = Some (v, r)"
    using N first_ok_skip [OF dumps_first [OF assms(2)], of r] by simp
  moreover have "skip_ws r = []" using assms(3) by (auto simp: skip_ws_def is_ws_def code_def)
  ultimately show ?thesis by (subst json_loads_fuel [of _ ?n]) (simp_all only: max.cobounded2, simp)
qed

text \<open>\<^verbatim>\<open>json.loads(json.dumps(v))\<close>, and the same for a line that ends in a newline.\<close>

lemma loads_dumps: "style_ok st \<Longrightarrow> json_ok (js_ascii st) v \<Longrightarrow> json_loads_by u (json_dumps st v) = Some v"
  using loads_dumps_end [of st v "[]"] by simp

lemma loads_dumps_line:
  "style_ok st \<Longrightarrow> json_ok (js_ascii st) v \<Longrightarrow> json_loads_by u (json_dumps st v @ [CHR 0x0A]) = Some v"
  using loads_dumps_end [of st v "[CHR 0x0A]"] by simp

end
