(* ===== verification/Protocol.thy ===== *)
theory Protocol
  imports Daemon_Run Json_Print
begin

text \<open>
  adapters/protocol.py: the line protocol between an agent and the daemon. The client prints
  one JSON object per request; the server reads a line, calls the daemon's handler the
  \<^verbatim>\<open>type\<close> field names, and prints a reply. A field of another JSON type than the client
  sends is a TypeError here.

  \<open>world\<close> holds what the handlers need besides the daemon: the files of the workspace at the end
  of a mutation and the jobs no worker has started. A \<^verbatim>\<open>resolve\<close> that has to wait is
  registered with the configuration and answered later.
\<close>

section \<open>Reading the fields of a message\<close>

type_synonym message = "(string, pyval) dict"

definition required :: "message \<Rightarrow> string \<Rightarrow> py_error + pyval" where
  "required msg k = (case dict_get msg k of None \<Rightarrow> Inl (KeyError k) | Some v \<Rightarrow> Inr v)"

definition optional :: "message \<Rightarrow> string \<Rightarrow> pyval \<Rightarrow> pyval" where
  "optional msg k v = dict_get_default msg k v"

definition as_str :: "pyval \<Rightarrow> py_error + string" where
  "as_str v = (case v of PStr s \<Rightarrow> Inr s | _ \<Rightarrow> Inl TypeError)"

definition as_opt_str :: "pyval \<Rightarrow> py_error + string option" where
  "as_opt_str v = (case v of PNone \<Rightarrow> Inr None | PStr s \<Rightarrow> Inr (Some s) | _ \<Rightarrow> Inl TypeError)"

definition as_bool :: "pyval \<Rightarrow> py_error + bool" where
  "as_bool v = (case v of PBool b \<Rightarrow> Inr b | _ \<Rightarrow> Inl TypeError)"

definition as_num :: "pyval \<Rightarrow> py_error + rat" where
  "as_num v = (case v of PInt i \<Rightarrow> Inr (of_int i) | PFloat x \<Rightarrow> Inr x | _ \<Rightarrow> Inl TypeError)"

text \<open>Mutation ids are numbers here, as in the model of the daemon.\<close>

definition as_id :: "pyval \<Rightarrow> py_error + nat" where
  "as_id v = (case v of PInt i \<Rightarrow> if 0 \<le> i then Inr (nat i) else Inl TypeError | _ \<Rightarrow> Inl TypeError)"

definition as_opt_id :: "pyval \<Rightarrow> py_error + nat option" where
  "as_opt_id v = (if v = PNone then Inr None else map_sum id Some (as_id v))"

fun all_res :: "('a \<Rightarrow> 'e + 'b) \<Rightarrow> 'a list \<Rightarrow> 'e + 'b list" where
  "all_res f [] = Inr []"
| "all_res f (x # xs) = res_bind (f x) (\<lambda>y. res_bind (all_res f xs) (\<lambda>ys. Inr (y # ys)))"

definition as_opt_list :: "(pyval \<Rightarrow> py_error + 'a) \<Rightarrow> pyval \<Rightarrow> py_error + 'a list option" where
  "as_opt_list f v =
     (case v of PNone \<Rightarrow> Inr None | PList vs \<Rightarrow> map_sum id Some (all_res f vs) | _ \<Rightarrow> Inl TypeError)"

definition as_dict :: "pyval \<Rightarrow> py_error + message" where
  "as_dict v = (case v of PDict d \<Rightarrow> Inr d | _ \<Rightarrow> Inl TypeError)"

definition as_profile :: "pyval \<Rightarrow> py_error + profile_arg" where
  "as_profile v = map_sum id (\<lambda>p. case p of None \<Rightarrow> NoProfile | Some n \<Rightarrow> NamedProfile n) (as_opt_str v)"

section \<open>Requests\<close>

datatype request_call =
    Turn_begin string string session_args
  | Turn_again string
  | Mutation_begin string pyval
  | Mutation_end string nat pyval
  | Feed string string string string "nat option"
  | Resolve_call string string pyval
  | Call_executed string string string string pyval rat string "nat option" bool
  | Turn_end string
  | Session_end string

datatype decoded = Request request_call | Refused string

definition decode_turn_begin :: "string \<Rightarrow> message \<Rightarrow> py_error + request_call" where
  "decode_turn_begin sid msg =
     res_bind (required msg ''repo'') (\<lambda>v. res_bind (as_str v) (\<lambda>repo.
     res_bind (required msg ''role'') (\<lambda>v. res_bind (as_str v) (\<lambda>role.
     res_bind (as_opt_str (optional msg ''scratch'' PNone)) (\<lambda>scratch.
     res_bind (as_str (optional msg ''state_model'' (PStr ''fs-only''))) (\<lambda>state_model.
     res_bind (as_profile (optional msg ''profile'' PNone)) (\<lambda>prof.
     res_bind (as_opt_list as_str (optional msg ''registered_kinds'' PNone)) (\<lambda>kinds.
     res_bind (as_opt_str (optional msg ''state_dir'' PNone)) (\<lambda>state_dir.
     res_bind (as_bool (optional msg ''spec_disabled'' (PBool False))) (\<lambda>off.
     res_bind (as_opt_list as_dict (optional msg ''trajectory'' PNone)) (\<lambda>trajectory.
     Inr (Turn_begin sid repo \<lparr>sa_role = role, sa_scratch = scratch, sa_state_model = state_model,
       sa_profile = prof, sa_registered_kinds = kinds, sa_state_dir = state_dir,
       sa_spec_disabled = off, sa_trajectory = trajectory, sa_sptc = True\<rparr>))))))))))))"

definition decode_feed :: "string \<Rightarrow> message \<Rightarrow> py_error + request_call" where
  "decode_feed sid msg =
     res_bind (required msg ''call_id'') (\<lambda>v. res_bind (as_str v) (\<lambda>call_id.
     res_bind (required msg ''tool'') (\<lambda>v. res_bind (as_str v) (\<lambda>tool.
     res_bind (required msg ''delta'') (\<lambda>v. res_bind (as_str v) (\<lambda>delta.
     res_bind (as_opt_id (optional msg ''mutation_id'' PNone)) (\<lambda>mid.
     Inr (Feed sid call_id tool delta mid))))))))"

definition decode_call_executed :: "string \<Rightarrow> message \<Rightarrow> py_error + request_call" where
  "decode_call_executed sid msg =
     res_bind (required msg ''tool'') (\<lambda>v. res_bind (as_str v) (\<lambda>kind.
     res_bind (required msg ''verb'') (\<lambda>v. res_bind (as_str v) (\<lambda>verb.
     res_bind (required msg ''outcome'') (\<lambda>v. res_bind (as_str v) (\<lambda>outcome.
     res_bind (required msg ''args'') (\<lambda>args.
     res_bind (required msg ''latency'') (\<lambda>v. res_bind (as_num v) (\<lambda>latency.
     res_bind (as_str (optional msg ''observation'' (PStr []))) (\<lambda>observation.
     res_bind (as_opt_id (optional msg ''mutation_id'' PNone)) (\<lambda>mid.
     res_bind (as_bool (optional msg ''speculate'' (PBool True))) (\<lambda>want.
     Inr (Call_executed sid kind verb outcome args latency observation mid want)))))))))))))"

text \<open>\<^verbatim>\<open>_dispatch\<close> up to the call of the handler; \<open>known\<close> are the sessions there are.\<close>

definition decode :: "(string \<Rightarrow> bool) \<Rightarrow> message \<Rightarrow> py_error + decoded" where
  "decode known msg =
     res_bind (required msg ''type'') (\<lambda>t.
     res_bind (required msg ''session'') (\<lambda>v. res_bind (as_str v) (\<lambda>sid.
     if t = PStr ''turn_begin'' then
       (if known sid then Inr (Request (Turn_again sid)) else map_sum id Request (decode_turn_begin sid msg))
     else if t = PStr ''mutation_begin'' then
       Inr (Request (Mutation_begin sid (optional msg ''write_args'' PNone)))
     else if t = PStr ''mutation_end'' then
       res_bind (required msg ''mutation_id'') (\<lambda>v. res_bind (as_id v) (\<lambda>mid.
       Inr (Request (Mutation_end sid mid (optional msg ''success'' (PBool False))))))
     else if t = PStr ''feed'' then map_sum id Request (decode_feed sid msg)
     else if t = PStr ''resolve'' then
       res_bind (required msg ''args'') (\<lambda>args.
       if args = PNone then Inr (Refused ''args must not be null'')
       else res_bind (required msg ''tool'') (\<lambda>v. res_bind (as_str v) (\<lambda>kind.
         Inr (Request (Resolve_call sid kind args)))))
     else if t = PStr ''call_executed'' then map_sum id Request (decode_call_executed sid msg)
     else if t = PStr ''turn_end'' then Inr (Request (Turn_end sid))
     else if t = PStr ''session_end'' then Inr (Request (Session_end sid))
     else Inr (Refused (''unknown type: '' @ (case t of PStr s \<Rightarrow> s | _ \<Rightarrow> []))))))"

section \<open>Serving a line\<close>

datatype reply =
    Reply message
  | Reply_error py_error
  | Reply_later

record world =
  wd_fs :: fs
  wd_base :: inum
  wd_queued :: "nat \<Rightarrow> spec_id set"

definition ok_reply :: message where
  "ok_reply = [(''result'', PStr ''ok'')]"

text \<open>The reply to a handler's result; the state changes either way.\<close>

definition answer :: "('r \<Rightarrow> message) \<Rightarrow> (py_error + 'r) \<times> daemon \<Rightarrow> config \<Rightarrow> reply \<times> config" where
  "answer f r c =
     (case fst r of Inl e \<Rightarrow> Reply_error e | Inr x \<Rightarrow> Reply (f x), c\<lparr>c_daemon := snd r\<rparr>)"

definition chain_len :: "dchain option \<Rightarrow> nat" where
  "chain_len ch = (case ch of None \<Rightarrow> 0 | Some x \<Rightarrow> length (dc_hops x))"

definition resolve_reply :: "string \<Rightarrow> pyval \<Rightarrow> message" where
  "resolve_reply outcome result = [(''result'', PStr outcome), (''output'', result)]"

fun perform :: "daemon_env \<Rightarrow> world \<Rightarrow> request_call \<Rightarrow> config \<Rightarrow> reply \<times> config" where
  "perform env w (Turn_begin sid repo a) c =
     answer (\<lambda>_. ok_reply) (session_start env sid repo a (c_daemon c)) c"
| "perform env w (Turn_again sid) c = (Reply ok_reply, c)"
| "perform env w (Mutation_begin sid write_args) c =
     answer (\<lambda>mid. ok_reply @ [(''mutation_id'', PInt (int mid))]) (mutation_begin env sid write_args (c_daemon c)) c"
| "perform env w (Mutation_end sid mid success) c =
     answer (\<lambda>preserved. ok_reply @ [(''chain_preserved'', PBool preserved)])
       (mutation_end env (wd_fs w) (wd_base w) sid mid success (c_daemon c)) c"
| "perform env w (Feed sid call_id tool delta mid) c =
     answer (\<lambda>ch. [(''chain_len'', PInt (int (chain_len ch)))])
       (call_stream_delta env sid call_id tool delta mid (c_daemon c)) c"
| "perform env w (Resolve_call sid kind args) c =
     (case resolve_begin env sid kind args (c_daemon c) of
        (Inl e, d) \<Rightarrow> (Reply_error e, c\<lparr>c_daemon := d\<rparr>)
      | (Inr (Answered outcome result), d) \<Rightarrow> (Reply (resolve_reply outcome result), c\<lparr>c_daemon := d\<rparr>)
      | (Inr (Waiting i t0 job cl), d) \<Rightarrow>
          (Reply_later, \<lparr>c_daemon = d, c_waiting = c_waiting c @ [\<lparr>rq_sid = sid, rq_kind = kind, rq_args = args,
             rq_place = i, rq_t0 = t0, rq_job = job, rq_claim = cl\<rparr>]\<rparr>))"
| "perform env w (Call_executed sid kind verb outcome args latency observation mid want) c =
     answer (\<lambda>_. ok_reply) (call_executed env sid kind verb outcome args latency observation mid want (c_daemon c)) c"
| "perform env w (Turn_end sid) c = answer (\<lambda>_. ok_reply) (turn_end sid (c_daemon c)) c"
| "perform env w (Session_end sid) c = answer (\<lambda>_. ok_reply) (session_end env (wd_queued w) sid (c_daemon c)) c"

definition known_session :: "config \<Rightarrow> string \<Rightarrow> bool" where
  "known_session c sid \<longleftrightarrow> dict_get (d_sessions (c_daemon c)) sid \<noteq> None"

definition dispatch :: "daemon_env \<Rightarrow> world \<Rightarrow> message \<Rightarrow> config \<Rightarrow> reply \<times> config" where
  "dispatch env w msg c =
     (case decode (known_session c) msg of
        Inl e \<Rightarrow> (Reply_error e, c)
      | Inr (Refused m) \<Rightarrow> (Reply [(''error'', PStr m)], c)
      | Inr (Request r) \<Rightarrow> perform env w r c)"

text \<open>\<^verbatim>\<open>_handle_line\<close>: whatever is raised becomes an error reply.\<close>

definition handle_line :: "daemon_env \<Rightarrow> world \<Rightarrow> string \<Rightarrow> config \<Rightarrow> reply \<times> config" where
  "handle_line env w line c =
     (case json_loads line of
        None \<Rightarrow> (Reply_error (ValueError ''JSON''), c)
      | Some (PDict msg) \<Rightarrow> dispatch env w msg c
      | Some _ \<Rightarrow> (Reply_error TypeError, c))"

fun serve_lines :: "daemon_env \<Rightarrow> (nat \<Rightarrow> world) \<Rightarrow> nat \<Rightarrow> string list \<Rightarrow> config \<Rightarrow> reply list \<times> config" where
  "serve_lines env w n [] c = ([], c)"
| "serve_lines env w n (line # lines) c =
     (case handle_line env (w n) line c of (r, c1) \<Rightarrow>
        (case serve_lines env w (Suc n) lines c1 of (rs, c2) \<Rightarrow> (r # rs, c2)))"

section \<open>The client\<close>

definition opt_str :: "string option \<Rightarrow> pyval" where
  "opt_str s = (case s of None \<Rightarrow> PNone | Some x \<Rightarrow> PStr x)"

definition opt_id :: "nat option \<Rightarrow> pyval" where
  "opt_id n = (case n of None \<Rightarrow> PNone | Some m \<Rightarrow> PInt (int m))"

definition opt_list :: "('a \<Rightarrow> pyval) \<Rightarrow> 'a list option \<Rightarrow> pyval" where
  "opt_list f xs = (case xs of None \<Rightarrow> PNone | Some ys \<Rightarrow> PList (map f ys))"

definition profile_name :: "profile_arg \<Rightarrow> pyval" where
  "profile_name p = (case p of NamedProfile n \<Rightarrow> PStr n | _ \<Rightarrow> PNone)"

text \<open>The arguments of the client's methods, as the messages they send; \<open>latency\<close> is as it was given.\<close>

definition header :: "string \<Rightarrow> string \<Rightarrow> message" where
  "header t sid = [(''type'', PStr t), (''session'', PStr sid)]"

definition client_turn_begin :: "string \<Rightarrow> string \<Rightarrow> session_args \<Rightarrow> message" where
  "client_turn_begin sid repo a = header ''turn_begin'' sid @
     [(''repo'', PStr repo), (''role'', PStr (sa_role a)), (''scratch'', opt_str (sa_scratch a)),
      (''state_model'', PStr (sa_state_model a)), (''profile'', profile_name (sa_profile a)),
      (''registered_kinds'', opt_list PStr (sa_registered_kinds a)), (''state_dir'', opt_str (sa_state_dir a)),
      (''spec_disabled'', PBool (sa_spec_disabled a)), (''trajectory'', opt_list PDict (sa_trajectory a))]"

definition client_mutation_begin :: "string \<Rightarrow> pyval \<Rightarrow> message" where
  "client_mutation_begin sid write_args = header ''mutation_begin'' sid @ [(''write_args'', write_args)]"

definition client_mutation_end :: "string \<Rightarrow> nat \<Rightarrow> pyval \<Rightarrow> message" where
  "client_mutation_end sid mid success =
     header ''mutation_end'' sid @ [(''mutation_id'', PInt (int mid)), (''success'', success)]"

definition client_feed :: "string \<Rightarrow> string \<Rightarrow> string \<Rightarrow> string \<Rightarrow> nat option \<Rightarrow> message" where
  "client_feed sid call_id tool delta mid =
     header ''feed'' sid @ [(''call_id'', PStr call_id), (''tool'', PStr tool), (''delta'', PStr delta),
       (''mutation_id'', opt_id mid)]"

definition client_resolve :: "string \<Rightarrow> string \<Rightarrow> pyval \<Rightarrow> message" where
  "client_resolve sid kind args = header ''resolve'' sid @ [(''tool'', PStr kind), (''args'', args)]"

definition client_call_executed ::
  "string \<Rightarrow> string \<Rightarrow> string \<Rightarrow> string \<Rightarrow> pyval \<Rightarrow> pyval \<Rightarrow> string \<Rightarrow> nat option \<Rightarrow> bool \<Rightarrow> message" where
  "client_call_executed sid kind verb outcome args latency observation mid want =
     header ''call_executed'' sid @ [(''tool'', PStr kind), (''verb'', PStr verb), (''outcome'', PStr outcome),
       (''args'', args), (''latency'', latency), (''observation'', PStr observation), (''mutation_id'', opt_id mid),
       (''speculate'', PBool want)]"

text \<open>The message for a request, where the client has a method that sends it.\<close>

fun client_message :: "request_call \<Rightarrow> message" where
  "client_message (Turn_begin sid repo a) = client_turn_begin sid repo a"
| "client_message (Turn_again sid) = header ''turn_begin'' sid"
| "client_message (Mutation_begin sid write_args) = client_mutation_begin sid write_args"
| "client_message (Mutation_end sid mid success) = client_mutation_end sid mid success"
| "client_message (Feed sid call_id tool delta mid) = client_feed sid call_id tool delta mid"
| "client_message (Resolve_call sid kind args) = client_resolve sid kind args"
| "client_message (Call_executed sid kind verb outcome args latency observation mid want) =
     client_call_executed sid kind verb outcome args
       (if latency = of_int \<lfloor>latency\<rfloor> then PInt \<lfloor>latency\<rfloor> else PFloat latency) observation mid want"
| "client_message (Turn_end sid) = header ''turn_end'' sid"
| "client_message (Session_end sid) = header ''session_end'' sid"

definition client_line :: "(rat \<Rightarrow> string) \<Rightarrow> request_call \<Rightarrow> string" where
  "client_line fl r = json_dumps (default_style fl) (PDict (client_message r)) @ [CHR 0x0A]"

text \<open>\<^verbatim>\<open>_send\<close>: the reply line as the client reads it; an empty or broken line is an error.\<close>

definition client_reply :: "string \<Rightarrow> py_error + pyval" where
  "client_reply line =
     (case json_loads line of None \<Rightarrow> Inl (RuntimeError ''SfxDaemonError'') | Some v \<Rightarrow> Inr v)"

definition reply_line :: "(rat \<Rightarrow> string) \<Rightarrow> (py_error \<Rightarrow> string) \<Rightarrow> reply \<Rightarrow> string" where
  "reply_line fl str_of_error r =
     (case r of
        Reply msg \<Rightarrow> json_dumps (default_style fl) (PDict msg) @ [CHR 0x0A]
      | Reply_error e \<Rightarrow> json_dumps (default_style fl) (PDict [(''error'', PStr (str_of_error e))]) @ [CHR 0x0A]
      | Reply_later \<Rightarrow> [])"

section \<open>A session of lines is a run of the daemon\<close>

lemma perform_operation: "snd (perform env w r c) = c \<or> (\<exists>x. snd (perform env w r c) = daemon_do env x c)"
proof (cases r)
  case (Turn_begin sid repo a)
  have "snd (perform env w r c) = daemon_do env (DStart sid repo a) c" by (simp add: Turn_begin answer_def)
  then show ?thesis by blast
next
  case (Turn_again sid)
  then show ?thesis by simp
next
  case (Mutation_begin sid write_args)
  have "snd (perform env w r c) = daemon_do env (DMutationBegin sid write_args) c" by (simp add: Mutation_begin answer_def)
  then show ?thesis by blast
next
  case (Mutation_end sid mid success)
  have "snd (perform env w r c) = daemon_do env (DMutationEnd (wd_fs w) (wd_base w) sid mid success) c"
    by (simp add: Mutation_end answer_def)
  then show ?thesis by blast
next
  case (Feed sid call_id tool delta mid)
  have "snd (perform env w r c) = daemon_do env (DStream sid call_id tool delta mid) c" by (simp add: Feed answer_def)
  then show ?thesis by blast
next
  case (Resolve_call sid kind args)
  have "snd (perform env w r c) = daemon_do env (DResolve sid kind args) c"
    by (auto simp: Resolve_call split: prod.split sum.split resolve_wait.split)
  then show ?thesis by blast
next
  case (Call_executed sid kind verb outcome args latency observation mid want)
  have "snd (perform env w r c) = daemon_do env (DExecuted sid kind verb outcome args latency observation mid want) c"
    by (simp add: Call_executed answer_def)
  then show ?thesis by blast
next
  case (Turn_end sid)
  have "snd (perform env w r c) = daemon_do env (DTurnEnd sid) c" by (simp add: Turn_end answer_def)
  then show ?thesis by blast
next
  case (Session_end sid)
  have "snd (perform env w r c) = daemon_do env (DSessionEnd (wd_queued w) sid) c" by (simp add: Session_end answer_def)
  then show ?thesis by blast
qed

lemma handle_line_operation:
  "snd (handle_line env w line c) = c \<or> (\<exists>x. snd (handle_line env w line c) = daemon_do env x c)"
  using perform_operation by (auto simp: handle_line_def dispatch_def split: option.split pyval.split sum.split decoded.split)

lemma daemon_run_Nil: "daemon_run env c [] = c"
  by (simp add: daemon_run_def)

lemma daemon_run_Cons: "daemon_run env c (x # xs) = daemon_run env (daemon_do env x c) xs"
  by (simp add: daemon_run_def)

lemma daemon_run_ok: "config_ok c \<Longrightarrow> config_ok (daemon_run env c xs)"
  using daemon_do_later by (induction xs arbitrary: c) (auto simp: daemon_run_Nil daemon_run_Cons)


section \<open>What the client sends is what the daemon does\<close>

text \<open>The requests a client can send: JSON values, and what its methods can express.\<close>

fun expressible :: "request_call \<Rightarrow> bool" where
  "expressible (Turn_begin sid repo a) =
     (sa_sptc a \<and> (case sa_profile a of GivenProfile q \<Rightarrow> False | _ \<Rightarrow> True))"
| "expressible (Turn_again sid) = False"
| "expressible (Resolve_call sid kind args) = (args \<noteq> PNone)"
| "expressible r = True"

definition wire_ok :: "request_call \<Rightarrow> bool" where
  "wire_ok r \<longleftrightarrow> expressible r \<and> json_ok True (PDict (client_message r))"

lemma as_simps [simp]:
  "as_str (PStr s) = Inr s" "as_opt_str (opt_str x) = Inr x" "as_bool (PBool b) = Inr b"
  "as_id (PInt (int n)) = Inr n" "as_opt_id (opt_id m) = Inr m"
  by (auto simp: as_str_def as_opt_str_def opt_str_def as_bool_def as_id_def as_opt_id_def opt_id_def split: option.split)

lemma all_res_map: "(\<And>x. f (g x) = Inr x) \<Longrightarrow> all_res f (map g xs) = Inr xs"
  by (induction xs) auto

lemma as_opt_list_opt: "(\<And>x. f (g x) = Inr x) \<Longrightarrow> as_opt_list f (opt_list g xs) = Inr xs"
  by (cases xs) (auto simp: as_opt_list_def opt_list_def all_res_map)

lemma as_opt_list_simps [simp]:
  "as_opt_list as_str (opt_list PStr xs) = Inr xs" "as_opt_list as_dict (opt_list PDict ys) = Inr ys"
  by (simp_all add: as_opt_list_opt as_dict_def)

lemma as_profile_name: "(case p of GivenProfile q \<Rightarrow> False | _ \<Rightarrow> True) \<Longrightarrow> as_profile (profile_name p) = Inr p"
  by (cases p) (auto simp: as_profile_def profile_name_def as_opt_str_def)

lemma as_num_latency:
  "as_num (if latency = of_int \<lfloor>latency\<rfloor> then PInt \<lfloor>latency\<rfloor> else PFloat latency) = Inr latency"
  by (simp add: as_num_def)

lemmas message_simps = required_def optional_def header_def dict_get_default_def

lemma decode_client_message:
  assumes "expressible r" and "\<And>sid repo a. r = Turn_begin sid repo a \<Longrightarrow> \<not> known sid"
  shows "decode known (client_message r) = Inr (Request r)"
proof (cases r)
  case (Turn_begin sid repo a)
  have "decode_turn_begin sid (client_turn_begin sid repo a) = Inr (Turn_begin sid repo a)"
    using assms(1) as_profile_name [of "sa_profile a"] unfolding Turn_begin
    by (simp add: decode_turn_begin_def client_turn_begin_def message_simps)
  with assms(2) [OF Turn_begin] show ?thesis unfolding Turn_begin
    by (simp add: decode_def client_turn_begin_def message_simps)
next
  case (Feed sid call_id tool delta mid)
  have "decode_feed sid (client_feed sid call_id tool delta mid) = Inr (Feed sid call_id tool delta mid)"
    by (simp add: decode_feed_def client_feed_def message_simps)
  then show ?thesis unfolding Feed by (simp add: decode_def client_feed_def message_simps)
next
  case (Call_executed sid kind verb outcome args latency observation mid want)
  have "decode_call_executed sid (client_message r) = Inr r"
    using as_num_latency [of latency] unfolding Call_executed
    by (simp add: decode_call_executed_def client_call_executed_def message_simps)
  then show ?thesis unfolding Call_executed
    by (simp add: decode_def client_call_executed_def message_simps)
qed (use assms(1) in \<open>simp_all add: decode_def client_mutation_begin_def client_mutation_end_def
      client_resolve_def message_simps\<close>)


definition demo_world :: world where
  "demo_world = \<lparr>wd_fs = \<lparr>inodes = [], next_ino = 0\<rparr>, wd_base = 0, wd_queued = (\<lambda>i. {})\<rparr>"

definition wire_env :: daemon_env where
  "wire_env = \<lparr>de_clock = (\<lambda>n. of_nat n), de_global = [], de_k = 2, de_depth_cap = 2,
     de_resolve_args = (\<lambda>k c. PNone), de_resolve_details = (\<lambda>k c. (PNone, ''none'', ''unresolved_args'')),
     de_probe = (\<lambda>r s. Inr ()), de_realpath = (\<lambda>p. p)\<rparr>"

definition demo_start :: request_call where
  "demo_start = Turn_begin ''s1'' ''/app'' \<lparr>sa_role = ''main'', sa_scratch = None, sa_state_model = ''fs-only'',
     sa_profile = NoProfile, sa_registered_kinds = Some [''read''], sa_state_dir = None, sa_spec_disabled = False,
     sa_trajectory = None, sa_sptc = True\<rparr>"



end
