(* ===== verification/Text_Codec.thy ===== *)
theory Text_Codec
  imports Json_Print
begin

text \<open>
  UTF-8 with and without replacement of what cannot be coded, and JSON text with sorted keys:
  what the program uses of Python's codecs and of \<^verbatim>\<open>json.dumps(..., sort_keys=True)\<close>.
\<close>

section \<open>UTF-8\<close>

text \<open>The bytes that can be decoded.\<close>

definition continuation :: "nat \<Rightarrow> nat \<Rightarrow> char \<Rightarrow> bool" where
  "continuation lo hi c \<longleftrightarrow> lo \<le> code c \<and> code c \<le> hi"

fun utf8_ok :: "string \<Rightarrow> bool" where
  "utf8_ok [] = True"
| "utf8_ok (c # s) =
     (let n = code c; tail = continuation 128 191 in
      if n < 128 then utf8_ok s
      else if 194 \<le> n \<and> n \<le> 223 then
        (case s of d # s1 \<Rightarrow> tail d \<and> utf8_ok s1 | _ \<Rightarrow> False)
      else if 224 \<le> n \<and> n \<le> 239 then
        (case s of d # e # s1 \<Rightarrow>
             continuation (if n = 224 then 160 else 128) (if n = 237 then 159 else 191) d \<and> tail e \<and> utf8_ok s1
         | _ \<Rightarrow> False)
      else if 240 \<le> n \<and> n \<le> 244 then
        (case s of d # e # g # s1 \<Rightarrow>
             continuation (if n = 240 then 144 else 128) (if n = 244 then 143 else 191) d \<and> tail e \<and> tail g \<and>
             utf8_ok s1
         | _ \<Rightarrow> False)
      else False)"

text \<open>
  \<^verbatim>\<open>decode("utf-8", errors="replace")\<close>: every longest wrong beginning of a character becomes
  one U+FFFD. \<open>want\<close> are the bounds of the continuation bytes still expected after \<open>got\<close>.
\<close>

definition replacement :: string where
  "replacement = [byte 0xEF, byte 0xBF, byte 0xBD]"

definition lead :: "nat \<Rightarrow> (nat \<times> nat) list option" where
  "lead n =
     (if n < 128 then Some []
      else if 194 \<le> n \<and> n \<le> 223 then Some [(128, 191)]
      else if 224 \<le> n \<and> n \<le> 239 then
        Some [(if n = 224 then 160 else 128, if n = 237 then 159 else 191), (128, 191)]
      else if 240 \<le> n \<and> n \<le> 244 then
        Some [(if n = 240 then 144 else 128, if n = 244 then 143 else 191), (128, 191), (128, 191)]
      else None)"

fun decode_replace :: "(nat \<times> nat) list \<Rightarrow> string \<Rightarrow> string \<Rightarrow> string" where
  "decode_replace want got [] = (if want = [] then got else replacement)"
| "decode_replace ((lo, hi) # want) got (c # s) =
     (if continuation lo hi c then decode_replace want (got @ [c]) s
      else replacement @
        (case lead (code c) of Some w \<Rightarrow> decode_replace w [c] s | None \<Rightarrow> replacement @ decode_replace [] [] s))"
| "decode_replace [] got (c # s) =
     got @ (case lead (code c) of Some w \<Rightarrow> decode_replace w [c] s | None \<Rightarrow> replacement @ decode_replace [] [] s)"

text \<open>
  \<^verbatim>\<open>encode("utf-8", errors="replace")\<close>: a surrogate cannot be encoded and becomes a question
  mark. In a text a surrogate is the three bytes that \<^const>\<open>utf8_point\<close> gives it.
\<close>

fun encode_replace :: "string \<Rightarrow> string" where
  "encode_replace (c # d # e # s) =
     (if code c = 237 \<and> 160 \<le> code d then CHR ''?'' # encode_replace s else c # encode_replace (d # e # s))"
| "encode_replace s = s"

lemma decode_replace_valid:
  "utf8_ok s \<Longrightarrow> decode_replace [] got s = got @ s"
proof (induction s arbitrary: got rule: utf8_ok.induct)
  case 1
  then show ?case by simp
next
  case (2 c s)
  consider "code c < 128" | "194 \<le> code c" "code c \<le> 223" | "224 \<le> code c" "code c \<le> 239" | "240 \<le> code c" "code c \<le> 244"
    using "2.prems" by (auto simp: Let_def split: if_splits)
  then show ?case
  proof cases
    case 1
    then show ?thesis using 2 by (simp add: lead_def)
  next
    case two: 2
    then obtain d s1 where "s = d # s1" "continuation 128 191 d" "utf8_ok s1"
      using "2.prems" by (auto simp: Let_def split: list.splits)
    then show ?thesis using two 2 by (simp add: lead_def)
  next
    case three: 3
    then obtain d e s1 where "s = d # e # s1" "utf8_ok s1" "continuation 128 191 e"
      "continuation (if code c = 224 then 160 else 128) (if code c = 237 then 159 else 191) d"
      using "2.prems" by (auto simp: Let_def split: list.splits)
    then show ?thesis using three 2 by (simp add: lead_def)
  next
    case four: 4
    then obtain d e g s1 where "s = d # e # g # s1" "utf8_ok s1" "continuation 128 191 e" "continuation 128 191 g"
      "continuation (if code c = 240 then 144 else 128) (if code c = 244 then 143 else 191) d"
      using "2.prems" by (auto simp: Let_def split: list.splits)
    then show ?thesis using four 2 by (simp add: lead_def)
  qed
qed

section \<open>Sorted keys\<close>

primrec sort_keys :: "pyval \<Rightarrow> pyval" where
  "sort_keys PNone = PNone"
| "sort_keys (PBool b) = PBool b"
| "sort_keys (PInt i) = PInt i"
| "sort_keys (PFloat x) = PFloat x"
| "sort_keys (PStr s) = PStr s"
| "sort_keys (PList xs) = PList (map sort_keys xs)"
| "sort_keys (PTuple xs) = PTuple (map sort_keys xs)"
| "sort_keys (PDict kvs) = PDict (sort_key fst (map (map_prod id sort_keys) kvs))"

text \<open>\<^verbatim>\<open>json.dumps(v, sort_keys=True, separators=(",", ":"), ensure_ascii=False)\<close>\<close>

definition canonical_text :: "(rat \<Rightarrow> string) \<Rightarrow> pyval \<Rightarrow> string" where
  "canonical_text fl v = json_dumps ((compact_style fl)\<lparr>js_ascii := False\<rparr>) (sort_keys v)"

lemma json_ok_sort_keys: "json_ok a v \<Longrightarrow> json_ok a (sort_keys v)"
proof (induction v)
  case (PList xs)
  then show ?case by (auto simp: list_all_iff)
next
  case (PDict kvs)
  let ?l = "map (map_prod id sort_keys) kvs"
  have "map fst (sort_key fst ?l) = sort (map fst ?l)" by (simp add: sort_key_map)
  then have "distinct (map fst (sort_key fst ?l))" using PDict.prems by (simp add: json_ok_PDict)
  moreover have "\<forall>p \<in> set (sort_key fst ?l). text_ok a (fst p) \<and> json_ok a (snd p)"
  proof -
    have "\<forall>p \<in> set kvs. text_ok a (fst p) \<and> json_ok a (snd p)"
      using PDict.prems unfolding json_ok_PDict by blast
    then show ?thesis using PDict.IH by (fastforce simp: snds.simps)
  qed
  ultimately have "json_ok a (PDict (sort_key fst ?l))" unfolding json_ok_PDict by blast
  then show ?case by (simp only: sort_keys.simps)
qed simp_all

end
