(* ===== verification/Resolver.thy ===== *)
theory Resolver
  imports Script_Contracts Normalize Text_Codec
begin

text \<open>
  sfx/resolver.py: from a predicted kind to the arguments of the call. The command comes from
  the project's configuration, from the last observation, from the script just edited or from
  the session's history. Python's parser, the TOML parser and the test for a directory are
  arguments; sources are trees of the node types the code looks at.
\<close>

section \<open>What the resolver sees\<close>

record resolve_ctx =
  cx_repo :: string
  cx_observation :: string
  cx_session :: "(string, string) dict"
  cx_edit_path :: string
  cx_edit_contents :: "string option"

datatype comparison = Eq | NotEq | Lt | LtE | Gt | GtE | Other_comparison

datatype py_ast =
    Call py_ast "py_ast list" "(string option \<times> py_ast) list"
  | Attribute py_ast string
  | Name string
  | Constant pyval
  | Compare py_ast "comparison list" "py_ast list"
  | If py_ast "py_ast list" "py_ast list"
  | Raise "py_ast list"
  | Expr py_ast
  | Other_node "py_ast list"

text \<open>
  The project: the text of package.json, whether there is a Cargo.toml, the tables of
  pyproject.toml, the tree, and the arguments named above.
\<close>

record project =
  pj_package :: "string option"
  pj_cargo :: bool
  pj_pyproject :: "(py_error + (string, pyval) dict) option"
  pj_fs :: fs
  pj_root :: inum
  pj_is_dir :: "string list \<Rightarrow> bool"
  pj_parse :: "string \<Rightarrow> py_ast option"

section \<open>Configuration\<close>

text \<open>\<^verbatim>\<open>_from_config\<close>: \<^verbatim>\<open>scripts\<close> is usually a dict; other JSON values fail as Python does.\<close>

definition package_script :: "string \<Rightarrow> string \<Rightarrow> py_error + pyval option" where
  "package_script kind text =
     (case json_loads text of
        None \<Rightarrow> Inl (ValueError ''JSON'')
      | Some (PDict d) \<Rightarrow>
          (case dict_get_default d ''scripts'' (PDict []) of
             PDict scripts \<Rightarrow> Inr (dict_get scripts kind)
           | PList xs \<Rightarrow> if PStr kind \<in> set xs then Inl TypeError else Inr None
           | PStr s \<Rightarrow> if occurs_in kind s then Inl TypeError else Inr None
           | _ \<Rightarrow> Inl TypeError)
      | Some _ \<Rightarrow> Inl AttributeError)"

definition pyproject_command :: "string \<Rightarrow> (string, pyval) dict \<Rightarrow> py_error + pyval" where
  "pyproject_command kind cfg =
     (if kind \<noteq> ''test'' then Inr PNone
      else case dict_get_default cfg ''tool'' (PDict []) of
        PDict tool \<Rightarrow> Inr (if dict_get tool ''pytest'' \<noteq> None then PStr ''pytest'' else PNone)
      | PList xs \<Rightarrow> Inr (if PStr ''pytest'' \<in> set xs then PStr ''pytest'' else PNone)
      | PStr s \<Rightarrow> Inr (if occurs_in ''pytest'' s then PStr ''pytest'' else PNone)
      | _ \<Rightarrow> Inl TypeError)"

definition from_config :: "project \<Rightarrow> string \<Rightarrow> py_error + pyval" where
  "from_config pj kind =
     (case (case pj_package pj of None \<Rightarrow> Inr None | Some text \<Rightarrow> package_script kind text) of
        Inl e \<Rightarrow> Inl e
      | Inr (Some v) \<Rightarrow> Inr v
      | Inr None \<Rightarrow>
          if pj_cargo pj \<and> kind \<in> {''test'', ''build''} then
            Inr (PStr (if kind = ''test'' then ''cargo test'' else ''cargo build''))
          else (case pj_pyproject pj of
             None \<Rightarrow> Inr PNone
           | Some (Inl e) \<Rightarrow> Inl e
           | Some (Inr cfg) \<Rightarrow> pyproject_command kind cfg))"

definition canonical_command :: "project \<Rightarrow> string \<Rightarrow> resolve_ctx \<Rightarrow> py_error + pyval" where
  "canonical_command pj kind ctx =
     (case from_config pj kind of
        Inl e \<Rightarrow> Inl e
      | Inr cmd \<Rightarrow>
          Inr (if py_truthy cmd then cmd
               else case dict_get (cx_session ctx) kind of None \<Rightarrow> PNone | Some c \<Rightarrow> PStr c))"

section \<open>Scripts that need arguments\<close>

text \<open>\<^verbatim>\<open>ast.walk\<close>: every node below and including one.\<close>

primrec nodes :: "py_ast \<Rightarrow> py_ast list" where
  "nodes (Call f as ks) = Call f as ks # nodes f @ concat (map nodes as) @ concat (map snd (map (map_prod id nodes) ks))"
| "nodes (Attribute v n) = Attribute v n # nodes v"
| "nodes (Name n) = [Name n]"
| "nodes (Constant v) = [Constant v]"
| "nodes (Compare l ops cs) = Compare l ops cs # nodes l @ concat (map nodes cs)"
| "nodes (If t b e) = If t b e # nodes t @ concat (map nodes b) @ concat (map nodes e)"
| "nodes (Raise ns) = Raise ns # concat (map nodes ns)"
| "nodes (Expr v) = Expr v # nodes v"
| "nodes (Other_node ns) = Other_node ns # concat (map nodes ns)"

text \<open>\<^verbatim>\<open>_rejects_empty_argv\<close>: a test of \<^verbatim>\<open>len(sys.argv)\<close> that holds for one argument, and then fails.\<close>

definition is_len_argv :: "py_ast \<Rightarrow> bool" where
  "is_len_argv call =
     (case call of
        Call (Name f) [Attribute (Name m) a] [] \<Rightarrow> f = ''len'' \<and> a = ''argv'' \<and> m = ''sys''
      | _ \<Rightarrow> False)"

definition holds_for_one :: "comparison \<Rightarrow> int \<Rightarrow> bool" where
  "holds_for_one cmp bound =
     (case cmp of
        Eq \<Rightarrow> 1 = bound | NotEq \<Rightarrow> 1 \<noteq> bound | Lt \<Rightarrow> 1 < bound | LtE \<Rightarrow> 1 \<le> bound
      | Gt \<Rightarrow> 1 > bound | GtE \<Rightarrow> 1 \<ge> bound | Other_comparison \<Rightarrow> False)"

definition equals_one_of :: "pyval \<Rightarrow> pyval list \<Rightarrow> bool" where
  "equals_one_of v vs = list_ex (py_eq v) vs"

definition fails_at_once :: "py_ast \<Rightarrow> bool" where
  "fails_at_once statement =
     (case statement of
        Raise ns \<Rightarrow> True
      | Expr (Call (Attribute (Name m) a) [Constant v] ks) \<Rightarrow>
          a = ''exit'' \<and> m = ''sys'' \<and> \<not> equals_one_of v [PNone, PInt 0]
      | _ \<Rightarrow> False)"

definition rejects_empty_argv :: "py_ast \<Rightarrow> bool" where
  "rejects_empty_argv node =
     (case node of
        If (Compare call [cmp] [bound]) body orelse \<Rightarrow>
          is_len_argv call \<and>
          (case bound of Constant (PInt b) \<Rightarrow> holds_for_one cmp b | _ \<Rightarrow> False) \<and>
          list_ex fails_at_once body
      | _ \<Rightarrow> False)"

text \<open>Keywords as a dict: the last of a name counts.\<close>

definition keyword_value :: "(string option \<times> py_ast) list \<Rightarrow> string \<Rightarrow> py_ast option" where
  "keyword_value ks name = map_of (rev ks) (Some name)"

definition adds_required_argument :: "py_ast \<Rightarrow> bool" where
  "adds_required_argument node =
     (case node of
        Call (Attribute obj attr) args ks \<Rightarrow>
          if attr \<notin> {''add_argument'', ''add_subparsers''} then False
          else if keyword_value ks ''required'' = Some (Constant (PBool True)) then True
          else attr = ''add_argument'' \<and>
            (case args of
               Constant (PStr name) # rest \<Rightarrow>
                 \<not> starts_with ''-'' name \<and>
                 (case keyword_value ks ''nargs'' of
                    Some (Constant v) \<Rightarrow> \<not> equals_one_of v [PStr ''?'', PStr ''*'', PInt 0]
                  | _ \<Rightarrow> True)
             | _ \<Rightarrow> False)
      | _ \<Rightarrow> False)"

definition MAX_EDITED :: nat where
  "MAX_EDITED = 1048576"

definition read_edited_source :: "project \<Rightarrow> resolve_ctx \<Rightarrow> string option" where
  "read_edited_source pj ctx =
     (let path = cx_edit_path ctx; parts = posix_parts path; f = pj_fs pj in
      if posix_absolute path \<or> ''..'' \<in> set parts then None
      else if \<not> is_dir f (pj_root pj) \<or> parts = [] then None
      else case open_existing f (pj_root pj) (butlast parts) of
        Inl e \<Rightarrow> None
      | Inr d \<Rightarrow>
          (case lookup f d (last parts) of
             None \<Rightarrow> None
           | Some i \<Rightarrow>
               (case inode_at f i of
                  Some (RegFile contents mode) \<Rightarrow>
                    if length contents \<le> MAX_EDITED \<and> utf8_ok contents then Some contents else None
                | _ \<Rightarrow> None)))"

definition requires_python_arguments :: "project \<Rightarrow> resolve_ctx \<Rightarrow> bool" where
  "requires_python_arguments pj ctx =
     (case (case cx_edit_contents ctx of Some c \<Rightarrow> Some c | None \<Rightarrow> read_edited_source pj ctx) of
        None \<Rightarrow> False
      | Some source \<Rightarrow>
          (case pj_parse pj source of
             None \<Rightarrow> False
           | Some tree \<Rightarrow> list_ex (\<lambda>n. rejects_empty_argv n \<or> adds_required_argument n) (nodes tree)))"

section \<open>Commands from the edit and the session\<close>

definition from_edit :: "project \<Rightarrow> string \<Rightarrow> resolve_ctx \<Rightarrow> string option" where
  "from_edit pj kind ctx =
     (if kind = ''run'' \<and> ends_with ''.py'' (cx_edit_path ctx) then
        (if requires_python_arguments pj ctx then None
         else Some (''python '' @ shlex_quote (cx_edit_path ctx)))
      else None)"

definition python_re :: re where
  "python_re = Seq (lit ''python'')
     (Opt (Seq (Some_of Digit) (Opt (Seq (lit ''.'') (Some_of Digit)))))"

definition path_name :: "string \<Rightarrow> string" where
  "path_name p = (case posix_parts p of [] \<Rightarrow> [] | ps \<Rightarrow> last ps)"

fun script_and_arguments :: "string list \<Rightarrow> (string \<times> string list) option" where
  "script_and_arguments [] = None"
| "script_and_arguments (word # words) =
     (if word \<in> {''-u'', ''-B'', ''-E'', ''-I'', ''-O'', ''-OO'', ''-s'', ''-S''} then script_and_arguments words
      else if starts_with ''-'' word then None else Some (word, words))"

definition python_call :: "string \<Rightarrow> (string \<times> string list) option" where
  "python_call command =
     (case shlex_split command of
        None \<Rightarrow> None
      | Some [] \<Rightarrow> None
      | Some (program # words) \<Rightarrow>
          if re_fullmatch python_re (path_name program) = None then None else script_and_arguments words)"

text \<open>\<^verbatim>\<open>_repo_relative\<close> and \<^verbatim>\<open>Path(ctx.last_edit_path)\<close>, as parts; an absolute path is \<open>None\<close>.\<close>

definition repo_relative :: "string \<Rightarrow> string \<Rightarrow> string list option" where
  "repo_relative value repo =
     (if ''..'' \<in> set (posix_parts value) then None
      else if posix_absolute value then
        (if posix_absolute repo \<and> double_root repo = double_root value
         then parts_below (posix_parts repo) (posix_parts value) else None)
      else Some (posix_parts value))"

definition edited_parts :: "resolve_ctx \<Rightarrow> string list option" where
  "edited_parts ctx =
     (if posix_absolute (cx_edit_path ctx) then None else Some (posix_parts (cx_edit_path ctx)))"

definition names_edit :: "project \<Rightarrow> resolve_ctx \<Rightarrow> string \<Rightarrow> bool" where
  "names_edit pj ctx argument0 =
     (let argument = (if starts_with ''--'' argument0 \<and> CHR ''='' \<in> set argument0
        then after_first (CHR ''='') argument0 else argument0)
      in argument \<noteq> [] \<and> \<not> starts_with ''-'' argument \<and>
        (case (repo_relative argument (cx_repo ctx), edited_parts ctx) of
           (Some path, Some edited) \<Rightarrow>
             path = edited \<or> (pj_is_dir pj path \<and> take (length path) edited = path)
         | _ \<Rightarrow> False))"

definition uses_edit :: "project \<Rightarrow> string \<Rightarrow> resolve_ctx \<Rightarrow> bool" where
  "uses_edit pj command ctx =
     (case python_call command of
        None \<Rightarrow> False
      | Some (script, arguments) \<Rightarrow>
          (repo_relative script (cx_repo ctx) \<noteq> None \<and>
           repo_relative script (cx_repo ctx) = edited_parts ctx) \<or>
          list_ex (names_edit pj ctx) arguments)"

section \<open>Commands from the observation\<close>

definition node_re :: re where
  "node_re = Seq (seqs [LineStart, lit ''FAILED'', Some_of Space])
     (Seq (Group ''1'' (seqs [Some_of NonSpace, lit ''::'', Some_of NonSpace])) Eps)"

definition tb_file_re :: re where
  "tb_file_re = Seq (lit (''File '' @ [CHR 0x22]))
     (Seq (Group ''1'' (Seq (Some_of (none_of [CHR 0x22])) (lit ''.py'')))
       (seqs [lit (CHR 0x22 # '', line ''), Some_of Digit]))"

definition path_line_re :: re where
  "path_line_re = Seq (Seq LineStart (Rep Space))
     (Seq (Group ''1'' (seqs [Some_of NonSpace, lit ''.'', Some_of Word])) (Seq (Rep Space) LineEnd))"

definition safe_path_re :: re where
  "safe_path_re = seqs [TextStart, Some_of (Cls path_char), TextEnd]"

definition safe_node_re :: re where
  "safe_node_re = seqs [TextStart,
     Seq (Some_of (Cls path_char)) (Some_of (Seq (lit ''::'') (Some_of (Cls path_char)))), TextEnd]"

definition safe_group :: "re \<Rightarrow> re \<Rightarrow> string \<Rightarrow> string option" where
  "safe_group r safe obs =
     (case re_search r obs of
        None \<Rightarrow> None
      | Some (p, q) \<Rightarrow> if re_match safe (group ''1'' q) \<noteq> None then Some (group ''1'' q) else None)"

definition from_observation :: "string \<Rightarrow> string \<Rightarrow> string option" where
  "from_observation kind obs =
     (if obs = [] then None
      else if kind = ''test'' then
        map_option (\<lambda>node. ''pytest '' @ node) (safe_group node_re safe_node_re obs)
      else if kind = ''read'' then
        (case safe_group tb_file_re safe_path_re obs of
           Some p \<Rightarrow> Some (''cat '' @ p)
         | None \<Rightarrow> map_option (\<lambda>p. ''cat '' @ p) (safe_group path_line_re safe_path_re obs))
      else None)"

section \<open>Resolving\<close>

datatype tier = Config | Session | Edit | Observation | No_tier

datatype reason = Resolved | Required_python_arguments | Unresolved_args

type_synonym resolution = "(string, pyval) dict option \<times> tier \<times> reason"

definition resolved :: "pyval \<Rightarrow> tier \<Rightarrow> resolution" where
  "resolved command t = (Some [(''cmd'', command)], t, Resolved)"

definition resolve_run :: "project \<Rightarrow> string \<Rightarrow> string option \<Rightarrow> resolve_ctx \<Rightarrow> resolution" where
  "resolve_run pj kind previous ctx =
     (let edited = (case from_edit pj kind ctx of
          Some command \<Rightarrow> resolved (PStr command) Edit
        | None \<Rightarrow> (None, No_tier, Required_python_arguments))
      in case nonempty previous of
           None \<Rightarrow> edited
         | Some earlier \<Rightarrow>
             if uses_edit pj earlier ctx \<and>
               (case python_call earlier of Some (script, arguments) \<Rightarrow> arguments \<noteq> [] | None \<Rightarrow> False) \<or>
               uses_edit pj earlier ctx \<and> \<not> requires_python_arguments pj ctx
             then resolved (PStr earlier) Session else edited)"

definition resolve_details :: "project \<Rightarrow> string \<Rightarrow> resolve_ctx \<Rightarrow> py_error + resolution" where
  "resolve_details pj kind ctx =
     (case from_config pj kind of
        Inl e \<Rightarrow> Inl e
      | Inr command \<Rightarrow>
          if py_truthy command then Inr (resolved command Config)
          else let previous = dict_get (cx_session ctx) kind in
            if kind = ''run'' \<and> ends_with ''.py'' (cx_edit_path ctx) then Inr (resolve_run pj kind previous ctx)
            else (case from_observation kind (cx_observation ctx) of
               Some c \<Rightarrow> Inr (resolved (PStr c) Observation)
             | None \<Rightarrow>
                 (case nonempty previous of
                    Some c \<Rightarrow> Inr (resolved (PStr c) Session)
                  | None \<Rightarrow> Inr (None, No_tier, Unresolved_args))))"

definition resolve :: "project \<Rightarrow> string \<Rightarrow> resolve_ctx \<Rightarrow> py_error + (string, pyval) dict option" where
  "resolve pj kind ctx = map_sum id fst (resolve_details pj kind ctx)"

definition resolve_tier :: "project \<Rightarrow> string \<Rightarrow> resolve_ctx \<Rightarrow> py_error + tier" where
  "resolve_tier pj kind ctx = map_sum id (\<lambda>r. fst (snd r)) (resolve_details pj kind ctx)"

definition canonical_args :: "string \<Rightarrow> string \<Rightarrow> resolve_ctx \<Rightarrow> (string, pyval) dict" where
  "canonical_args kind command ctx = [(''cmd'', PStr command)]"

section \<open>What a resolved command is\<close>

definition node_char :: "char \<Rightarrow> bool" where
  "node_char c \<longleftrightarrow> path_char c \<or> c = CHR '':''"

lemma all_of_list_all:
  assumes "w \<in> all_of A" and "\<forall>u \<in> A. list_all f u"
  shows "list_all f w"
proof -
  obtain ws where "w = concat ws" "set ws \<subseteq> A" using assms(1) by (auto simp: all_of_def)
  then show ?thesis using assms(2) by (induction ws arbitrary: w) auto
qed

lemma some_of_list_all:
  "w \<in> lang (Some_of r) \<Longrightarrow> \<forall>u \<in> lang r. list_all f u \<Longrightarrow> list_all f w"
  by (auto simp: Some_of_def dest: all_of_list_all)

lemma path_char_node: "list_all path_char w \<Longrightarrow> list_all node_char w"
  by (auto simp: list_all_iff node_char_def)

text \<open>A pattern anchored at both ends lets at most a final newline through.\<close>

lemma anchored:
  assumes "re_match (seqs [TextStart, r, TextEnd]) s \<noteq> None" and "plain r"
  shows "\<exists>w \<in> lang r. s = w \<or> s = w @ [CHR 0x0A]"
proof -
  have "matches (seqs [TextStart, r, TextEnd]) (start_of s) = concat (map (matches TextEnd) (matches r (start_of s)))"
    by (simp add: start_of_def)
  moreover have "matches (seqs [TextStart, r, TextEnd]) (start_of s) \<noteq> []"
    using assms(1) by (auto simp: re_match_def simp del: matches.simps seqs.simps)
  ultimately have "\<exists>q \<in> set (matches r (start_of s)). matches TextEnd q \<noteq> []"
    by (simp del: matches.simps seqs.simps)
  then obtain q where q: "q \<in> set (matches r (start_of s))" "after q = [] \<or> after q = [CHR 0x0A]"
    by (auto split: if_splits)
  then have "after q \<in> rests (lang r) s"
    using matches_rests [OF assms(2), of "start_of s"] by (auto simp: start_of_def)
  with q(2) show ?thesis by (auto simp: rests_def)
qed

text \<open>What each of the searches can yield: no newline at the end, and it occurs in the text.\<close>

lemma safe_group_Some:
  assumes "safe_group (Seq pre (Seq (Group ''1'' r) post)) (seqs [TextStart, safe, TextEnd]) obs = Some u"
    and "plain r" and "''1'' \<notin> group_names post" and "plain safe"
    and "\<forall>w \<in> lang r. w \<noteq> [] \<and> last w \<noteq> CHR 0x0A"
  shows "u \<in> lang safe \<and> occurs_in u obs"
proof -
  obtain p q where found: "re_search (Seq pre (Seq (Group ''1'' r) post)) obs = Some (p, q)"
    and u: "u = group ''1'' q" "re_match (seqs [TextStart, safe, TextEnd]) u \<noteq> None"
    using assms(1) by (auto simp: safe_group_def split: option.splits if_splits)
  from search_group [OF found assms(2,3)] have "occurs_in u obs" "u \<in> lang r"
    using u(1) by (auto simp: occurs_in_iff)
  with assms(5) have "u \<noteq> []" "last u \<noteq> CHR 0x0A" by blast+
  with anchored [OF u(2) assms(4)] \<open>occurs_in u obs\<close> show ?thesis by auto
qed

lemma last_nonspace: "list_all (\<lambda>c. \<not> space_char c) w \<Longrightarrow> w \<noteq> [] \<Longrightarrow> last w \<noteq> CHR 0x0A"
  by (auto simp: list_all_iff space_char_def dest: last_in_set)

lemma lang_some_of_cls: "w \<in> lang (Some_of (Cls f)) \<Longrightarrow> w \<noteq> [] \<and> list_all f w"
  by (auto simp: Some_of_def all_of_chars)

lemma lang_nonspaces: "w \<in> lang (Some_of NonSpace) \<Longrightarrow> w \<noteq> [] \<and> last w \<noteq> CHR 0x0A"
  using lang_some_of_cls last_nonspace unfolding NonSpace_def by blast

lemma lang_words: "w \<in> lang (Some_of Word) \<Longrightarrow> w \<noteq> [] \<and> last w \<noteq> CHR 0x0A"
proof -
  assume "w \<in> lang (Some_of Word)"
  then have "w \<noteq> [] \<and> list_all word_char w" unfolding Word_def by (rule lang_some_of_cls)
  moreover have "\<not> word_char (CHR 0x0A)" by code_simp
  ultimately show ?thesis by (metis last_in_set list_all_iff)
qed

lemma lang_path_chars: "w \<in> lang (Some_of (Cls path_char)) \<Longrightarrow> w \<noteq> [] \<and> list_all path_char w"
  by (rule lang_some_of_cls)

lemma lang_node:
  assumes "w \<in> lang (Seq (Some_of (Cls path_char)) (Some_of (Seq (lit ''::'') (Some_of (Cls path_char)))))"
  shows "w \<noteq> [] \<and> list_all node_char w"
proof -
  obtain u v where w: "w = u @ v" "u \<in> lang (Some_of (Cls path_char))"
    "v \<in> lang (Some_of (Seq (lit ''::'') (Some_of (Cls path_char))))"
    using assms by auto
  have "list_all node_char x" if x: "x \<in> lang (Seq (lit ''::'') (Some_of (Cls path_char)))" for x
  proof -
    obtain y where "x = ''::'' @ y" "y \<in> lang (Some_of (Cls path_char))" using x by auto
    then show ?thesis using lang_path_chars path_char_node by (auto simp: node_char_def)
  qed
  then have "list_all node_char v" using some_of_list_all [OF w(3)] by blast
  with w(1) lang_path_chars [OF w(2)] path_char_node show ?thesis by simp
qed

lemma plain_some_of [simp]: "plain (Some_of r) = plain r"
  by (simp add: Some_of_def)

lemma from_observation_Some:
  assumes "from_observation kind obs = Some c"
  shows "\<exists>prog arg. prog \<in> {''pytest'', ''cat''} \<and> c = prog @ '' '' @ arg \<and> arg \<noteq> [] \<and>
    list_all node_char arg \<and> occurs_in arg obs"
proof -
  have node: "u \<noteq> [] \<and> list_all node_char u \<and> occurs_in u obs" if "safe_group node_re safe_node_re obs = Some u" for u
  proof -
    have "u \<in> lang (Seq (Some_of (Cls path_char)) (Some_of (Seq (lit ''::'') (Some_of (Cls path_char))))) \<and> occurs_in u obs"
      using that unfolding node_re_def safe_node_re_def
    proof (rule safe_group_Some)
      show "\<forall>w \<in> lang (seqs [Some_of NonSpace, lit ''::'', Some_of NonSpace]). w \<noteq> [] \<and> last w \<noteq> CHR 0x0A"
        using lang_nonspaces by auto
    qed (simp_all add: NonSpace_def)
    then show ?thesis using lang_node by blast
  qed
  have tb: "u \<noteq> [] \<and> list_all node_char u \<and> occurs_in u obs" if "safe_group tb_file_re safe_path_re obs = Some u" for u
  proof -
    have "u \<in> lang (Some_of (Cls path_char)) \<and> occurs_in u obs"
      using that unfolding tb_file_re_def safe_path_re_def
    proof (rule safe_group_Some)
      show "\<forall>w \<in> lang (Seq (Some_of (none_of [CHR 0x22])) (lit ''.py'')). w \<noteq> [] \<and> last w \<noteq> CHR 0x0A"
        by auto
    qed (simp_all add: none_of_def Digit_def Some_of_def)
    then show ?thesis using lang_path_chars path_char_node by blast
  qed
  have line: "u \<noteq> [] \<and> list_all node_char u \<and> occurs_in u obs" if "safe_group path_line_re safe_path_re obs = Some u" for u
  proof -
    have "u \<in> lang (Some_of (Cls path_char)) \<and> occurs_in u obs"
      using that unfolding path_line_re_def safe_path_re_def
    proof (rule safe_group_Some)
      show "\<forall>w \<in> lang (seqs [Some_of NonSpace, lit ''.'', Some_of Word]). w \<noteq> [] \<and> last w \<noteq> CHR 0x0A"
        using lang_words by auto
    qed (simp_all add: NonSpace_def Word_def Space_def)
    then show ?thesis using lang_path_chars path_char_node by blast
  qed
  show ?thesis
    using assms node tb line
    by (auto simp: from_observation_def split: if_splits option.splits)
qed

lemma safe_word_quote: "list_all node_char w \<Longrightarrow> w \<noteq> [] \<Longrightarrow> shlex_quote w = w"
  by (auto simp: shlex_quote_def list_all_iff node_char_def safe_char_def path_char_def)

lemma split_two: "shlex_quote prog = prog \<Longrightarrow> shlex_split (prog @ '' '' @ shlex_quote arg) = Some [prog, arg]"
  using split_join [of "[prog, arg]"] by (simp add: shlex_join_def)

lemma plain_programs:
  "shlex_quote ''pytest'' = ''pytest''" "shlex_quote ''cat'' = ''cat''" "shlex_quote ''python'' = ''python''"
  by code_simp+

lemma resolve_run_Some:
  assumes "resolve_run pj kind previous ctx = (Some args, t, r)"
  shows "t = Session \<or>
    (t = Edit \<and> (\<exists>c. from_edit pj kind ctx = Some c \<and> args = [(''cmd'', PStr c)]))"
  using assms unfolding resolve_run_def Let_def resolved_def
  by (auto split: option.splits if_splits)

text \<open>What a resolution from the observation or the edit rests on.\<close>

lemma resolve_details_Some:
  assumes "resolve_details pj kind ctx = Inr (Some args, t, r)"
  shows "(t = Observation \<longrightarrow> (\<exists>c. args = [(''cmd'', PStr c)] \<and> from_observation kind (cx_observation ctx) = Some c)) \<and>
    (t = Edit \<longrightarrow> (\<exists>c. args = [(''cmd'', PStr c)] \<and> from_edit pj kind ctx = Some c))"
proof -
  obtain command where config: "from_config pj kind = Inr command"
    using assms by (cases "from_config pj kind") (simp_all add: resolve_details_def)
  let ?previous = "dict_get (cx_session ctx) kind"
  consider (config) "py_truthy command"
    | (run) "\<not> py_truthy command" "kind = ''run'' \<and> ends_with ''.py'' (cx_edit_path ctx)"
    | (other) "\<not> py_truthy command" "\<not> (kind = ''run'' \<and> ends_with ''.py'' (cx_edit_path ctx))" by blast
  then show ?thesis
  proof cases
    case config
    then show ?thesis using assms \<open>from_config pj kind = Inr command\<close> by (simp add: resolve_details_def resolved_def)
  next
    case run
    then have "resolve_run pj kind ?previous ctx = (Some args, t, r)"
      using assms \<open>from_config pj kind = Inr command\<close> by (simp add: resolve_details_def)
    then show ?thesis using resolve_run_Some by fastforce
  next
    case other
    then show ?thesis using assms \<open>from_config pj kind = Inr command\<close>
      by (auto simp: resolve_details_def resolved_def split: option.splits)
  qed
qed

text \<open>
  C27: nothing in an observation or in the name of an edited file can smuggle a second word or
  shell syntax into a predicted command. A command resolved from an observation is pytest or
  cat with one argument that occurs in the observation and has only letters, digits and
  \<^verbatim>\<open>_./-:\<close>; one resolved from an edit is python with the edited path, whatever characters it has.
\<close>

theorem resolved_command_words:
  assumes "resolve_details pj kind ctx = Inr (Some args, t, r)" and "t = Observation \<or> t = Edit"
  shows "\<exists>cmd prog arg. args = [(''cmd'', PStr cmd)] \<and> shlex_split cmd = Some [prog, arg] \<and>
    (t = Observation \<longrightarrow> prog \<in> {''pytest'', ''cat''} \<and> list_all node_char arg \<and>
       occurs_in arg (cx_observation ctx)) \<and>
    (t = Edit \<longrightarrow> prog = ''python'' \<and> arg = cx_edit_path ctx \<and> \<not> requires_python_arguments pj ctx)"
proof (cases t)
  case Observation
  have "\<exists>c. args = [(''cmd'', PStr c)] \<and> from_observation kind (cx_observation ctx) = Some c"
    using resolve_details_Some [OF assms(1)] Observation by simp
  then obtain c where args: "args = [(''cmd'', PStr c)]"
    and obs: "from_observation kind (cx_observation ctx) = Some c" by blast
  from from_observation_Some [OF obs] obtain prog arg where c: "prog \<in> {''pytest'', ''cat''}"
    "c = prog @ '' '' @ arg" "arg \<noteq> []" "list_all node_char arg" "occurs_in arg (cx_observation ctx)"
    by blast
  have "shlex_quote prog = prog" using c(1) plain_programs by blast
  then have "shlex_split c = Some [prog, arg]"
    using split_two [of prog arg] safe_word_quote [OF c(4,3)] c(2) by simp
  with args c Observation show ?thesis by (intro exI [of _ c] exI [of _ prog] exI [of _ arg]) simp
next
  case Edit
  have "from_edit pj kind ctx = Some (''python '' @ shlex_quote (cx_edit_path ctx)) \<and>
      args = [(''cmd'', PStr (''python '' @ shlex_quote (cx_edit_path ctx)))] \<and> \<not> requires_python_arguments pj ctx"
    using resolve_details_Some [OF assms(1)] Edit by (auto simp: from_edit_def split: if_splits)
  moreover have "shlex_split (''python '' @ shlex_quote (cx_edit_path ctx)) = Some [''python'', cx_edit_path ctx]"
    using split_two [OF plain_programs(3), of "cx_edit_path ctx"] by simp
  ultimately show ?thesis using Edit by auto
qed (use assms(2) in simp_all)

definition demo_project :: project where
  "demo_project = \<lparr>pj_package = None, pj_cargo = False, pj_pyproject = None, pj_fs = \<lparr>inodes = [], next_ino = 0\<rparr>,
     pj_root = 0, pj_is_dir = (\<lambda>p. False), pj_parse = (\<lambda>s. None)\<rparr>"

definition demo_ctx :: resolve_ctx where
  "demo_ctx = \<lparr>cx_repo = ''/app'', cx_observation = ''1 failed'' @ [CHR 0x0A] @ ''FAILED t/a.py::test_x - assert'',
     cx_session = [], cx_edit_path = [], cx_edit_contents = None\<rparr>"

theorem resolved_command_words_witness:
  "shlex_split ''pytest t/a.py::test_x'' = Some [''pytest'', ''t/a.py::test_x'']"
proof -
  have "resolve_details demo_project ''test'' demo_ctx =
      Inr (Some [(''cmd'', PStr ''pytest t/a.py::test_x'')], Observation, Resolved)"
    by code_simp
  from resolved_command_words [OF this] obtain prog arg where
    "shlex_split ''pytest t/a.py::test_x'' = Some [prog, arg]" by auto
  moreover have "shlex_split ''pytest t/a.py::test_x'' = Some [''pytest'', ''t/a.py::test_x'']" by code_simp
  ultimately show ?thesis by simp
qed

end
