(* ===== verification/Token_Budget.thy ===== *)
theory Token_Budget
  imports Text_Codec Py_String
begin

text \<open>
  eval/sglang_budget.py: the extension of the serving process that counts the tokens of a chat
  request exactly (\<open>count_endpoint\<close>) and checks the count again when the request is really served
  (\<open>guard_conversion\<close>). The server, its requests and the conversion of a request to token ids are
  third-party objects: their fields are records here, the conversion and the validation of a
  payload are arguments. The error of a step is the text of its \<^verbatim>\<open>ValueError\<close>.
\<close>

section \<open>Constants and digests\<close>

definition PROTOCOL :: string where "PROTOCOL = ''sfx-chat-token-budget-v1''"
definition ROUTE :: string where "ROUTE = ''/sfx/chat-token-count''"
definition HEADER :: string where "HEADER = ''X-SFX-Context-Budget''"
definition VERSION :: string where "VERSION = ''0.5.8''"

definition RENDERER_SHA256 :: string where
  "RENDERER_SHA256 = ''1410f5c9ed763751b59c00b332208e1cca669dcc18e4e52b317f333ec957988d''"

definition TOKENIZER_MANAGER_SHA256 :: string where
  "TOKENIZER_MANAGER_SHA256 = ''e3df12f41a837883e42d1540b5d61b995dd7eea8afd859e6deb41f77d9b5e355''"

definition RECEIPT_FIELDS :: "string list" where
  "RECEIPT_FIELDS = [''protocol'', ''server_instance_id'', ''renderer_sha256'', ''model'', ''prompt_tokens'',
     ''prompt_sha256'', ''reserved_tokens'', ''context_length'', ''safety_margin_tokens'']"

text \<open>The digest, the printing of a float and the test for a loopback address are Python's.\<close>

record budget_env =
  be_sha256 :: "string \<Rightarrow> string"
  be_float :: "rat \<Rightarrow> string"
  be_ip_is_loopback :: "string \<Rightarrow> bool option"

definition canonical_sha256 :: "budget_env \<Rightarrow> pyval \<Rightarrow> string + string" where
  "canonical_sha256 env v =
     (let t = canonical_text (be_float env) v
      in if encode_replace t = t then Inr (be_sha256 env t) else Inl ''surrogates not allowed'')"

definition loopback :: "budget_env \<Rightarrow> string \<Rightarrow> bool" where
  "loopback env host = (case be_ip_is_loopback env host of Some b \<Rightarrow> b | None \<Rightarrow> host = ''localhost'')"

section \<open>The server and its requests\<close>

record serving =
  sv_is_multimodal :: bool
  sv_served_model_name :: pyval
  sv_tokenizer_worker_num :: pyval
  sv_allow_auto_truncate :: pyval
  sv_validate_total_tokens :: pyval
  sv_context_len :: pyval
  sv_num_reserved_tokens :: pyval
  sv_api_key :: pyval

record chat_request =
  cq_model :: pyval
  cq_contents :: "pyval list"
  cq_lora_path :: pyval
  cq_n :: pyval

record adapted =
  ad_input_ids :: pyval
  ad_lora_path :: pyval
  ad_sampling_params :: "(string, pyval) dict"

record raw_request =
  rw_client :: "string option"
  rw_headers :: "string \<Rightarrow> string option"
  rw_json :: "pyval option"

definition authorize :: "budget_env \<Rightarrow> serving \<Rightarrow> raw_request \<Rightarrow> string + unit" where
  "authorize env sv raw =
     (if \<not> (case rw_client raw of None \<Rightarrow> False | Some host \<Rightarrow> loopback env host)
      then Inl ''SFX budget endpoint requires a loopback client''
      else
        (let supplied = (case rw_headers raw ''authorization'' of None \<Rightarrow> [] | Some h \<Rightarrow> h)
         in case sv_api_key sv of
              PStr key \<Rightarrow>
                if key = [] \<or> supplied \<noteq> ''Bearer '' @ key
                then Inl ''SFX budget endpoint requires server API-key authentication'' else Inr ()
            | _ \<Rightarrow> Inl ''SFX budget endpoint requires server API-key authentication''))"

definition token_ids :: "pyval \<Rightarrow> pyval list option" where
  "token_ids v =
     (case v of
        PList ids \<Rightarrow> if list_all (\<lambda>t. case t of PInt i \<Rightarrow> 0 \<le> i | _ \<Rightarrow> False) ids then Some ids else None
      | _ \<Rightarrow> None)"

definition int_of :: "pyval \<Rightarrow> int option" where
  "int_of v = (case v of PInt i \<Rightarrow> Some i | _ \<Rightarrow> None)"

definition server_limits :: "serving \<Rightarrow> (int \<times> int) option" where
  "server_limits sv =
     (case (int_of (sv_context_len sv), int_of (sv_num_reserved_tokens sv)) of
        (Some context, Some reserved) \<Rightarrow>
          if context \<le> 1 \<or> reserved < 0 \<or> context \<le> reserved then None else Some (context, reserved)
      | _ \<Rightarrow> None)"

definition supported :: "serving \<Rightarrow> chat_request \<Rightarrow> adapted \<Rightarrow> bool" where
  "supported sv rq ad \<longleftrightarrow>
     \<not> sv_is_multimodal sv \<and> \<not> py_truthy (ad_lora_path ad) \<and>
     py_eq (cq_model rq) (sv_served_model_name sv) \<and>
     py_eq (sv_tokenizer_worker_num sv) (PInt 1) \<and>
     sv_allow_auto_truncate sv = PBool False \<and>
     sv_validate_total_tokens sv = PBool True"

definition receipt_of :: "string \<Rightarrow> pyval \<Rightarrow> nat \<Rightarrow> string \<Rightarrow> int \<Rightarrow> int \<Rightarrow> (string, pyval) dict" where
  "receipt_of instance_id model prompt_tokens prompt_sha256 reserved context =
     [(''protocol'', PStr PROTOCOL), (''server_instance_id'', PStr instance_id),
      (''renderer_sha256'', PStr RENDERER_SHA256), (''model'', model),
      (''prompt_tokens'', PInt (int prompt_tokens)), (''prompt_sha256'', PStr prompt_sha256),
      (''reserved_tokens'', PInt reserved), (''context_length'', PInt context),
      (''safety_margin_tokens'', PInt 1)]"

definition count_adapted :: "budget_env \<Rightarrow> serving \<Rightarrow> chat_request \<Rightarrow> adapted \<Rightarrow> string \<Rightarrow> string + (string, pyval) dict" where
  "count_adapted env sv rq ad instance_id =
     (case (if supported sv rq ad then token_ids (ad_input_ids ad) else None) of
        None \<Rightarrow> Inl ''SFX budget counting requires the supported text-only serving configuration''
      | Some ids \<Rightarrow>
          (case server_limits sv of
             None \<Rightarrow> Inl ''SFX budget server limits are invalid''
           | Some (context, reserved) \<Rightarrow>
               res_bind (canonical_sha256 env (PList ids)) (\<lambda>prompt.
               Inr (receipt_of instance_id (cq_model rq) (length ids) prompt reserved context))))"

section \<open>Checking a receipt\<close>

text \<open>\<^verbatim>\<open>type(a) is type(b) and a == b\<close>\<close>

fun same_type :: "pyval \<Rightarrow> pyval \<Rightarrow> bool" where
  "same_type PNone PNone = True"
| "same_type (PBool a) (PBool b) = True"
| "same_type (PInt a) (PInt b) = True"
| "same_type (PFloat a) (PFloat b) = True"
| "same_type (PStr a) (PStr b) = True"
| "same_type (PList a) (PList b) = True"
| "same_type (PTuple a) (PTuple b) = True"
| "same_type (PDict a) (PDict b) = True"
| "same_type _ _ = False"

definition same_value :: "pyval \<Rightarrow> pyval \<Rightarrow> bool" where
  "same_value a b \<longleftrightarrow> same_type a b \<and> py_eq a b"

text \<open>\<^verbatim>\<open>d[k]\<close> of a key that is known to be there.\<close>

definition entry :: "(string, pyval) dict \<Rightarrow> string \<Rightarrow> pyval" where
  "entry d k = opt_val (dict_get d k)"

definition is_int_from :: "int \<Rightarrow> pyval \<Rightarrow> bool" where
  "is_int_from least v \<longleftrightarrow> (case v of PInt i \<Rightarrow> least \<le> i | _ \<Rightarrow> False)"

definition read_receipt :: "budget_env \<Rightarrow> serving \<Rightarrow> raw_request \<Rightarrow> string \<Rightarrow> string + (string, pyval) dict" where
  "read_receipt env sv raw header =
     res_bind (authorize env sv raw) (\<lambda>_.
     if 2048 < length header then Inl ''SFX context budget receipt is invalid''
     else
       (case json_loads header of
          Some (PDict receipt) \<Rightarrow>
            if set (map fst receipt) \<noteq> set (''max_tokens'' # RECEIPT_FIELDS)
               \<or> \<not> is_int_from 1 (entry receipt ''max_tokens'')
            then Inl ''SFX context budget receipt is invalid'' else Inr receipt
        | _ \<Rightarrow> Inl ''SFX context budget receipt is invalid''))"

definition check_receipt :: "(string, pyval) dict \<Rightarrow> (string, pyval) dict \<Rightarrow> adapted \<Rightarrow> bool" where
  "check_receipt receipt actual ad \<longleftrightarrow>
     list_all (\<lambda>(key, v). same_value (entry receipt key) v) actual \<and>
     (case (int_of (entry actual ''context_length''), int_of (entry actual ''prompt_tokens''),
            int_of (entry actual ''reserved_tokens''), int_of (entry (ad_sampling_params ad) ''max_new_tokens'')) of
        (Some context, Some prompt, Some reserved, Some maximum) \<Rightarrow>
          py_eq (PInt maximum) (entry receipt ''max_tokens'') \<and> maximum \<le> context - prompt - reserved - 1
      | _ \<Rightarrow> False)"

type_synonym conversion = "serving \<Rightarrow> chat_request \<Rightarrow> raw_request option \<Rightarrow> string + adapted \<times> chat_request"

text \<open>\<open>original\<close> is the server's own conversion.\<close>

definition guard_conversion :: "budget_env \<Rightarrow> conversion \<Rightarrow> string \<Rightarrow> conversion" where
  "guard_conversion env original instance_id sv rq raw =
     res_bind
       (case raw of
          None \<Rightarrow> Inr None
        | Some r \<Rightarrow>
            (case rw_headers r HEADER of
               None \<Rightarrow> Inr None
             | Some header \<Rightarrow> res_bind (read_receipt env sv r header) (\<lambda>receipt. Inr (Some receipt))))
       (\<lambda>receipt.
     res_bind (original sv rq raw) (\<lambda>(ad, normalized).
     case receipt of
       None \<Rightarrow> Inr (ad, normalized)
     | Some rc \<Rightarrow>
         res_bind (count_adapted env sv normalized ad instance_id) (\<lambda>actual.
         if check_receipt rc actual ad then Inr (ad, normalized)
         else Inl ''SFX context budget receipt no longer matches the serving request'')))"

section \<open>The counting endpoint\<close>

text \<open>The validation of a payload as a chat request, and the server's own check of it.\<close>

record chat_schema =
  cs_validate :: "(string, pyval) dict \<Rightarrow> chat_request option"
  cs_invalid :: "chat_request \<Rightarrow> bool"

definition lower :: "string \<Rightarrow> string" where
  "lower s = map (\<lambda>c. if CHR ''A'' \<le> c \<and> c \<le> CHR ''Z'' then char_of (code c + 32) else c) s"

definition accepts :: "serving \<Rightarrow> chat_request \<Rightarrow> bool" where
  "accepts sv rq \<longleftrightarrow>
     \<not> sv_is_multimodal sv \<and> py_eq (cq_model rq) (sv_served_model_name sv) \<and>
     list_all (\<lambda>c. case c of PNone \<Rightarrow> True | PStr _ \<Rightarrow> True | _ \<Rightarrow> False) (cq_contents rq) \<and>
     \<not> py_truthy (cq_lora_path rq) \<and> (cq_n rq = PNone \<or> py_eq (cq_n rq) (PInt 1))"

definition count :: "budget_env \<Rightarrow> chat_schema \<Rightarrow> conversion \<Rightarrow> string \<Rightarrow> serving \<Rightarrow> raw_request \<Rightarrow>
  string + (string, pyval) dict" where
  "count env cs original instance_id sv raw =
     (if lower (before_first (CHR '';'') (case rw_headers raw ''content-type'' of None \<Rightarrow> [] | Some h \<Rightarrow> h))
           \<noteq> ''application/json''
      then Inl ''json required''
      else
        (case rw_json raw of
           Some (PDict payload) \<Rightarrow>
             if rw_headers raw HEADER \<noteq> None then Inl ''invalid count request''
             else
               (case cs_validate cs payload of
                  None \<Rightarrow> Inl ''invalid count request''
                | Some rq \<Rightarrow>
                    if \<not> accepts sv rq then Inl ''unsupported count request''
                    else if cs_invalid cs rq then Inl ''invalid chat request''
                    else
                      res_bind (guard_conversion env original instance_id sv rq (Some raw)) (\<lambda>(ad, normalized).
                      res_bind (count_adapted env sv normalized ad instance_id) (\<lambda>receipt.
                      res_bind (canonical_sha256 env (PDict payload)) (\<lambda>digest.
                      Inr (receipt @ [(''request_sha256'', PStr digest)])))))
         | _ \<Rightarrow> Inl ''invalid count request''))"

definition budget_error :: "string \<Rightarrow> string \<Rightarrow> pyval" where
  "budget_error type message = PDict [(''error'', PDict [(''type'', PStr type), (''message'', PStr message)])]"

text \<open>The status and the body of the answer.\<close>

definition count_endpoint :: "budget_env \<Rightarrow> chat_schema \<Rightarrow> conversion \<Rightarrow> string \<Rightarrow> serving \<Rightarrow> raw_request \<Rightarrow>
  nat \<times> pyval" where
  "count_endpoint env cs original instance_id sv raw =
     (case authorize env sv raw of
        Inl e \<Rightarrow> (403, budget_error ''AuthenticationError'' ''SFX budget authorization failed'')
      | Inr _ \<Rightarrow>
          (case count env cs original instance_id sv raw of
             Inl e \<Rightarrow> (400, budget_error ''BadRequestError''
                              ''SFX exact chat budgeting is unavailable for this request'')
           | Inr result \<Rightarrow> (200, PDict result)))"

section \<open>Installation\<close>

text \<open>What is installed in the process: the version, the source files, the routes.\<close>

record installed =
  in_version :: string
  in_serving_chat :: string
  in_tokenizer_manager :: string
  in_routes :: "string list"

definition install :: "budget_env \<Rightarrow> installed \<Rightarrow> string \<Rightarrow> string + (string, pyval) dict" where
  "install env sys uuid =
     (if in_version sys \<noteq> VERSION then Inl ''SFX budgeting requires pinned SGLang 0.5.8''
      else if be_sha256 env (in_serving_chat sys) \<noteq> RENDERER_SHA256
        \<or> be_sha256 env (in_tokenizer_manager sys) \<noteq> TOKENIZER_MANAGER_SHA256
      then Inl ''SFX budgeting installed serving source changed''
      else if ROUTE \<in> set (in_routes sys) then Inl ''SFX budgeting is already installed''
      else Inr [(''protocol'', PStr PROTOCOL), (''server_instance_id'', PStr uuid),
                (''renderer_sha256'', PStr RENDERER_SHA256), (''sglang_version'', PStr VERSION)])"

record server_args =
  ag_host :: string
  ag_api_key :: pyval
  ag_tokenizer_worker_num :: pyval
  ag_grpc_mode :: pyval
  ag_encoder_only :: pyval
  ag_allow_auto_truncate :: pyval

definition may_launch :: "budget_env \<Rightarrow> server_args \<Rightarrow> bool" where
  "may_launch env args \<longleftrightarrow>
     loopback env (ag_host args) \<and> py_truthy (ag_api_key args) \<and> py_eq (ag_tokenizer_worker_num args) (PInt 1) \<and>
     \<not> py_truthy (ag_grpc_mode args) \<and> \<not> py_truthy (ag_encoder_only args) \<and>
     \<not> py_truthy (ag_allow_auto_truncate args)"

section \<open>What the guard promises\<close>

lemma count_adapted_Inr:
  assumes "count_adapted env sv rq ad i = Inr d"
  obtains ids limit reserved prompt where
    "token_ids (ad_input_ids ad) = Some ids" "server_limits sv = Some (limit, reserved)"
    "canonical_sha256 env (PList ids) = Inr prompt" "supported sv rq ad"
    "d = receipt_of i (cq_model rq) (length ids) prompt reserved limit"
  using assms unfolding count_adapted_def
  by (auto simp: res_bind_Inr_iff split: if_splits option.splits)

lemma int_of_simps [simp]: "int_of (PInt i) = Some i" "int_of v = Some i \<longleftrightarrow> v = PInt i"
  by (cases v; auto simp: int_of_def)+

lemma token_ids_Some: "token_ids v = Some ids \<Longrightarrow> v = PList ids \<and> (\<forall>t \<in> set ids. is_int_from 0 t)"
  by (auto simp: token_ids_def list_all_iff is_int_from_def split: pyval.splits if_splits)

lemma entry_simps [simp]:
  "entry [] k = PNone"
  "entry ((j, v) # d) k = (if k = j then v else entry d k)"
  by (auto simp: entry_def opt_val_def)

lemma py_eq_PInt: "py_eq (PInt a) v \<Longrightarrow> is_int_from 1 v \<Longrightarrow> v = PInt a \<and> 1 \<le> a"
  by (cases v) (auto simp: py_eq_def is_int_from_def)

text \<open>
  C30: a chat request that carries a budget receipt reaches the server's queue only when it came
  from a loopback client with the server's key and its exactly rendered prompt, the tokens the
  server reserves and all the tokens it may generate fit in the model's context together.
\<close>

theorem guarded_request_fits:
  assumes "guard_conversion env original i sv rq (Some raw) = Inr (ad, rq1)"
    and "rw_headers raw HEADER = Some header"
  shows "authorize env sv raw = Inr () \<and>
    (\<exists>ids limit reserved maximum.
       ad_input_ids ad = PList ids \<and> sv_context_len sv = PInt limit \<and> sv_num_reserved_tokens sv = PInt reserved \<and>
       dict_get (ad_sampling_params ad) ''max_new_tokens'' = Some (PInt maximum) \<and>
       1 \<le> maximum \<and> 0 \<le> reserved \<and> int (length ids) + reserved + maximum + 1 \<le> limit)"
proof -
  from assms obtain receipt actual where receipt: "read_receipt env sv raw header = Inr receipt"
    and actual: "count_adapted env sv rq1 ad i = Inr actual" and ok: "check_receipt receipt actual ad"
    by (auto simp: guard_conversion_def res_bind_Inr_iff split: if_splits)
  from receipt have auth: "authorize env sv raw = Inr ()"
    and least: "is_int_from 1 (entry receipt ''max_tokens'')"
    by (auto simp: read_receipt_def res_bind_Inr_iff split: if_splits option.splits pyval.splits)
  obtain ids limit reserved prompt where
    ids: "token_ids (ad_input_ids ad) = Some ids" and limits: "server_limits sv = Some (limit, reserved)"
    and "canonical_sha256 env (PList ids) = Inr prompt" "supported sv rq1 ad"
    and a: "actual = receipt_of i (cq_model rq1) (length ids) prompt reserved limit"
    by (rule count_adapted_Inr [OF actual])
  from limits have lims: "sv_context_len sv = PInt limit" "sv_num_reserved_tokens sv = PInt reserved" "0 \<le> reserved"
    by (auto simp: server_limits_def split: option.splits if_splits)
  from ok obtain maximum where m: "entry (ad_sampling_params ad) ''max_new_tokens'' = PInt maximum"
    and eq: "py_eq (PInt maximum) (entry receipt ''max_tokens'')"
    and le: "maximum \<le> limit - int (length ids) - reserved - 1"
    by (auto simp: check_receipt_def receipt_of_def a split: option.splits)
  from m have "dict_get (ad_sampling_params ad) ''max_new_tokens'' = Some (PInt maximum)"
    by (auto simp: entry_def opt_val_def split: option.splits)
  moreover have "1 \<le> maximum" using py_eq_PInt [OF eq least] by simp
  ultimately show ?thesis using auth lims token_ids_Some [OF ids] le by auto
qed

end
