(* ===== verification/Model_Stream.thy ===== *)
theory Model_Stream
  imports Token_Budget
begin

text \<open>
  eval/model_stream.py: the client of a chat-completions endpoint. A generator is the list of
  what it did - requests posted, events yielded, responses closed - with how it ended. The HTTP
  library is an argument: \<open>post\<close> answers a request with a response or fails with a text.
\<close>

section \<open>Generators\<close>

datatype stream_error =
    Model_error string "(string, pyval) dict option"
  | Budget_exceeded "(string, pyval) dict"
  | Value_error string
  | Transport_error string

datatype stream_event =
    Budget_event "(string, pyval) dict"
  | Delta_event string "string option"
  | Usage_event "(string, pyval) dict"
  | Done_event string

datatype 'e action =
    Post string "(string, string) dict" "(string, pyval) dict"
  | Yield 'e
  | Closed

type_synonym ('e, 'a) gen = "'e action list \<times> (stream_error + 'a)"

definition gen_return :: "'a \<Rightarrow> ('e, 'a) gen" where
  "gen_return x = ([], Inr x)"

definition gen_raise :: "stream_error \<Rightarrow> ('e, 'a) gen" where
  "gen_raise e = ([], Inl e)"

definition gen_do :: "'e action \<Rightarrow> ('e, unit) gen" where
  "gen_do a = ([a], Inr ())"

definition gen_bind :: "('e, 'a) gen \<Rightarrow> ('a \<Rightarrow> ('e, 'b) gen) \<Rightarrow> ('e, 'b) gen" where
  "gen_bind g k =
     (case g of
        (acts, Inl e) \<Rightarrow> (acts, Inl e)
      | (acts, Inr x) \<Rightarrow> (case k x of (acts1, r) \<Rightarrow> (acts @ acts1, r)))"

text \<open>\<^verbatim>\<open>raise ModelStreamError(message)\<close>, unless the condition holds.\<close>

definition gen_fail :: "string \<Rightarrow> ('e, 'a) gen" where
  "gen_fail message = gen_raise (Model_error message None)"

definition gen_check :: "bool \<Rightarrow> string \<Rightarrow> ('e, unit) gen" where
  "gen_check b message = (if b then gen_return () else gen_fail message)"

text \<open>\<^verbatim>\<open>try: g finally: response.close()\<close>\<close>

definition closing :: "('e, 'a) gen \<Rightarrow> ('e, 'a) gen" where
  "closing g = (case g of (acts, r) \<Rightarrow> (acts @ [Closed], r))"

lemma gen_bind_simps [simp]:
  "gen_bind (gen_return x) k = k x"
  "gen_bind (gen_raise e) k = gen_raise e"
  "gen_bind (gen_fail m) k = gen_fail m"
  by (simp_all add: gen_bind_def gen_return_def gen_raise_def gen_fail_def split: prod.split)

lemma gen_bind_do: "gen_bind (gen_do a) k = (a # fst (k ()), snd (k ()))"
  by (simp add: gen_bind_def gen_do_def split: prod.split)

lemma closing_eq: "closing g = (fst g @ [Closed], snd g)"
  by (simp add: closing_def split: prod.split)

lemma gen_bind_check: "gen_bind (gen_check b m) k = (if b then k () else gen_fail m)"
  by (simp add: gen_check_def)

section \<open>Error diagnostics\<close>

definition ERROR_TEXT_LIMIT :: nat where
  "ERROR_TEXT_LIMIT = 16384"

text \<open>\<^verbatim>\<open>(?P<name>[0-9]{1,12})\<close>\<close>

definition number_group :: "string \<Rightarrow> re" where
  "number_group name = Group name (Seq Digit (upto_times 11 Digit))"

definition CONTEXT_TOTAL_ERROR :: re where
  "CONTEXT_TOTAL_ERROR = seqs
     [lit ''Requested token count exceeds the model's maximum context length of '',
      number_group ''context_length'', lit '' tokens. You requested a total of '',
      number_group ''requested_total_tokens'', lit '' tokens: '',
      number_group ''prompt_tokens'', lit '' tokens from the input messages and '',
      number_group ''requested_completion_tokens'', lit '' tokens for the completion. '',
      lit ''Please reduce the number of tokens in the input messages or the completion '',
      lit ''to fit within the limit.'']"

definition CONTEXT_INPUT_ERROR :: re where
  "CONTEXT_INPUT_ERROR = seqs
     [lit ''The input ('', number_group ''prompt_tokens'', lit '' tokens) is longer than the '',
      lit ''model's context length ('', number_group ''context_length'', lit '' tokens).'']"

definition SAFE_ERROR_VALUES :: "(string, string list) dict" where
  "SAFE_ERROR_VALUES =
     [(''type'', [''BadRequest'', ''BadRequestError'', ''InvalidRequestError'', ''InternalServerError'',
                  ''AuthenticationError'', ''PermissionDeniedError'', ''NotFoundError'',
                  ''RateLimitError'', ''ServiceUnavailableError'', ''invalid_request_error'',
                  ''server_error'', ''authentication_error'', ''rate_limit_error'']),
      (''code'', [''context_length_exceeded'', ''model_not_found'', ''invalid_api_key'',
                  ''rate_limit_exceeded'', ''invalid_request_error'', ''server_error'']),
      (''param'', [''messages'', ''model'', ''max_tokens'', ''max_completion_tokens'', ''stream''])]"

definition SAFE_BUDGET_MESSAGES :: "string list" where
  "SAFE_BUDGET_MESSAGES =
     [''SFX budget authorization failed'',
      ''SFX exact chat budgeting is unavailable for this request'',
      ''SFX context budget receipt is invalid'',
      ''SFX context budget receipt no longer matches the serving request'',
      ''SFX budget endpoint requires a loopback client'',
      ''SFX budget endpoint requires server API-key authentication'',
      ''SFX budget counting requires the supported text-only serving configuration'',
      ''SFX budget server limits are invalid'']"

definition is_status :: "pyval \<Rightarrow> bool" where
  "is_status v \<longleftrightarrow> (case v of PInt n \<Rightarrow> 100 \<le> n \<and> n \<le> 599 | _ \<Rightarrow> False)"

definition safe_field :: "(string, pyval) dict \<Rightarrow> string \<times> string list \<Rightarrow> (string, pyval) dict" where
  "safe_field d entry_allowed =
     (case entry_allowed of (field, allowed) \<Rightarrow>
        (let item = entry d field
         in if (case item of PStr s \<Rightarrow> s \<in> set allowed | _ \<Rightarrow> False) \<or> (field = ''code'' \<and> is_status item)
            then [(field, item)] else []))"

definition context_error :: "pyval \<Rightarrow> place option" where
  "context_error message =
     (case message of
        PStr s \<Rightarrow>
          (case re_fullmatch CONTEXT_TOTAL_ERROR s of
             Some m \<Rightarrow> Some m | None \<Rightarrow> re_fullmatch CONTEXT_INPUT_ERROR s)
      | _ \<Rightarrow> None)"

definition safe_message :: "pyval \<Rightarrow> (string, pyval) dict" where
  "safe_message message =
     (case context_error message of
        Some m \<Rightarrow>
          [(''category'', PStr ''context_length_exceeded''),
           (''context_budget'', PDict (map (\<lambda>(key, number). (key, PInt (int (digits_value number)))) (groups m))),
           (''message'', message)]
      | None \<Rightarrow>
          if message \<in> set (map PStr [''OOM'', ''CUDA out of memory'', ''CUDA out of memory.''])
          then [(''category'', PStr ''out_of_memory''), (''message'', message)]
          else if message \<in> set (map PStr SAFE_BUDGET_MESSAGES)
          then [(''category'', PStr ''context_budget_preflight_error''), (''message'', message)]
          else [(''message'', PStr ''[unrecognized endpoint message redacted]'')])"

text \<open>The object that describes the error, when the body has one.\<close>

definition message_object :: "pyval \<Rightarrow> pyval" where
  "message_object v = (case v of PStr s \<Rightarrow> PDict [(''message'', v)] | _ \<Rightarrow> v)"

definition error_object :: "pyval \<Rightarrow> (string, pyval) dict option" where
  "error_object v =
     (let v1 = (case v of PStr s \<Rightarrow> (case json_loads s of Some w \<Rightarrow> w | None \<Rightarrow> message_object v) | _ \<Rightarrow> v);
          v2 = (case v1 of PDict d \<Rightarrow> (case dict_get d ''error'' of Some e \<Rightarrow> e | None \<Rightarrow> v1) | _ \<Rightarrow> v1)
      in case message_object v2 of PDict d \<Rightarrow> Some d | _ \<Rightarrow> None)"

definition error_body :: "budget_env \<Rightarrow> pyval \<Rightarrow> string" where
  "error_body env v =
     encode_replace (case v of PStr s \<Rightarrow> s
                     | _ \<Rightarrow> json_dumps ((default_style (be_float env))\<lparr>js_ascii := False\<rparr>) v)"

definition endpoint_error_diagnostic :: "budget_env \<Rightarrow> pyval \<Rightarrow> pyval \<Rightarrow> (string, pyval) dict" where
  "endpoint_error_diagnostic env v http_status =
     (let encoded = error_body env v;
          diagnostic =
            [(''body_sha256'', PStr (be_sha256 env encoded)), (''body_bytes'', PInt (int (length encoded))),
             (''body_hash_scope'', PStr ''utf8_error_data''), (''body_redacted'', PBool True)] @
            (if is_status http_status then [(''http_status'', http_status)] else [])
      in if ERROR_TEXT_LIMIT < length encoded
         then diagnostic @ [(''reason'', PStr ''oversized_error_body_redacted'')]
         else
           (case error_object v of
              None \<Rightarrow> diagnostic @ [(''reason'', PStr ''unrecognized_error_body_redacted'')]
            | Some d \<Rightarrow>
                diagnostic @
                [(''error'', PDict (concat (map (safe_field d) SAFE_ERROR_VALUES) @ safe_message (entry d ''message'')))]))"

text \<open>\<^verbatim>\<open>str(exc)\<close>\<close>

definition error_text :: "budget_env \<Rightarrow> stream_error \<Rightarrow> string" where
  "error_text env e =
     (let dumps = (\<lambda>d. json_dumps (default_style (be_float env)) (sort_keys (PDict d)))
      in case e of
           Model_error message None \<Rightarrow> message
         | Model_error message (Some d) \<Rightarrow> message @ ''; endpoint_error='' @ dumps d
         | Budget_exceeded budget \<Rightarrow> ''Model context budget exhausted; context_budget='' @ dumps budget
         | Value_error message \<Rightarrow> message
         | Transport_error message \<Rightarrow> message)"

section \<open>Responses\<close>

datatype sse_line = Bytes string | Text string | Not_text

text \<open>
  A response: its status, the chunks of its body and whether reading them failed at last, its
  body as JSON, and its lines with the error that ended them, if one did.
\<close>

record http_response =
  hr_status :: int
  hr_chunks :: "string list"
  hr_chunks_fail :: bool
  hr_json :: "pyval option"
  hr_lines :: "sse_line list"
  hr_broken :: "string option"

type_synonym post = "string \<Rightarrow> (string, string) dict \<Rightarrow> (string, pyval) dict \<Rightarrow> string + http_response"

text \<open>The bounded copy of an error body.\<close>

fun read_chunks :: "string \<Rightarrow> string list \<Rightarrow> bool \<Rightarrow> string" where
  "read_chunks body [] fails = (if fails then [] else body)"
| "read_chunks body (chunk # chunks) fails =
     (let body1 = body @ take (ERROR_TEXT_LIMIT + 1 - length body) chunk
      in if ERROR_TEXT_LIMIT < length body1 then body1 else read_chunks body1 chunks fails)"

definition http_error :: "budget_env \<Rightarrow> http_response \<Rightarrow> stream_error option" where
  "http_error env response =
     (if hr_status response < 400 \<or> 600 \<le> hr_status response then None
      else
        (let body = read_chunks [] (hr_chunks response) (hr_chunks_fail response);
             diagnostic = endpoint_error_diagnostic env (PStr (decode_replace [] [] body)) (PInt (hr_status response))
         in Some (Model_error ''Endpoint returned an HTTP error'' (Some
              (if ERROR_TEXT_LIMIT < length body
               then dict_set ''body_hash_scope'' (PStr ''captured_utf8_error_data_prefix'')
                      (dict_set ''body_truncated'' (PBool True) diagnostic)
               else diagnostic)))))"

definition http_status :: "budget_env \<Rightarrow> http_response \<Rightarrow> ('e, unit) gen" where
  "http_status env response = (case http_error env response of None \<Rightarrow> gen_return () | Some e \<Rightarrow> gen_raise e)"

text \<open>\<^verbatim>\<open>requests.post\<close>, and then \<open>body\<close> with the response, which is closed in the end.\<close>

definition with_response :: "post \<Rightarrow> string \<Rightarrow> (string, string) dict \<Rightarrow> (string, pyval) dict \<Rightarrow>
  (http_response \<Rightarrow> ('e, 'a) gen) \<Rightarrow> ('e, 'a) gen" where
  "with_response post url headers payload body =
     gen_bind (gen_do (Post url headers payload)) (\<lambda>_.
     case post url headers payload of
       Inl e \<Rightarrow> gen_raise (Transport_error e)
     | Inr response \<Rightarrow> closing (body response))"

definition rstrip_slash :: "string \<Rightarrow> string" where
  "rstrip_slash s = rev (dropWhile (\<lambda>c. c = CHR ''/'') (rev s))"

definition remove_suffix :: "string \<Rightarrow> string \<Rightarrow> string" where
  "remove_suffix u s = (if ends_with u s then take (length s - length u) s else s)"

definition remove_prefix :: "string \<Rightarrow> string \<Rightarrow> string" where
  "remove_prefix u s = (if starts_with u s then drop (length u) s else s)"

section \<open>The context budget\<close>

definition is_hex :: "nat \<Rightarrow> pyval \<Rightarrow> bool" where
  "is_hex n v \<longleftrightarrow>
     (case v of
        PStr s \<Rightarrow> length s = n \<and> list_all (\<lambda>c. digit_char c \<or> (CHR ''a'' \<le> c \<and> c \<le> CHR ''f'')) s
      | _ \<Rightarrow> False)"

definition receipt_matches :: "budget_env \<Rightarrow> (string, pyval) dict \<Rightarrow> (string, pyval) dict \<Rightarrow> string + bool" where
  "receipt_matches env payload receipt =
     (if set (map fst receipt) \<noteq> set (''request_sha256'' # RECEIPT_FIELDS)
        \<or> entry receipt ''protocol'' \<noteq> PStr PROTOCOL \<or> entry receipt ''renderer_sha256'' \<noteq> PStr RENDERER_SHA256
        \<or> \<not> py_eq (entry receipt ''model'') (entry payload ''model'')
      then Inr False
      else
        res_bind (canonical_sha256 env (PDict payload)) (\<lambda>digest.
        Inr (entry receipt ''request_sha256'' = PStr digest \<and> is_hex 32 (entry receipt ''server_instance_id'') \<and>
             is_hex 64 (entry receipt ''prompt_sha256''))))"

definition receipt_limits :: "(string, pyval) dict \<Rightarrow> (int \<times> int \<times> int) option" where
  "receipt_limits receipt =
     (case (int_of (entry receipt ''prompt_tokens''), int_of (entry receipt ''reserved_tokens''),
            int_of (entry receipt ''context_length''), int_of (entry receipt ''safety_margin_tokens'')) of
        (Some prompt, Some reserved, Some context, Some margin) \<Rightarrow>
          if prompt < 0 \<or> reserved < 0 \<or> context \<le> 1 \<or> margin \<noteq> 1 \<or> context \<le> reserved then None
          else Some (prompt, reserved, context)
      | _ \<Rightarrow> None)"

definition copy_of :: "string list \<Rightarrow> (string, pyval) dict \<Rightarrow> (string, pyval) dict" where
  "copy_of keys d = map (\<lambda>k. (k, entry d k)) keys"

definition budget_of :: "(string, pyval) dict \<Rightarrow> int \<Rightarrow> int \<Rightarrow> (string, pyval) dict" where
  "budget_of receipt requested effective =
     (''provider'', PStr ''sglang'') #
     copy_of [''protocol'', ''request_sha256'', ''server_instance_id'', ''renderer_sha256'',
              ''prompt_tokens'', ''reserved_tokens'', ''context_length'', ''safety_margin_tokens''] receipt @
     [(''requested_max_tokens'', PInt requested), (''effective_max_tokens'', PInt effective)]"

definition proof_of :: "budget_env \<Rightarrow> (string, pyval) dict \<Rightarrow> int \<Rightarrow> string" where
  "proof_of env receipt effective =
     json_dumps (compact_style (be_float env))
       (sort_keys (PDict (copy_of RECEIPT_FIELDS receipt @ [(''max_tokens'', PInt effective)])))"

definition effective_tokens :: "int \<Rightarrow> int \<times> int \<times> int \<Rightarrow> int" where
  "effective_tokens requested limits =
     (case limits of (prompt, reserved, context) \<Rightarrow> min requested (max 0 (context - prompt - reserved - 1)))"

text \<open>The budget, the tokens it allows and the headers that carry the proof.\<close>

definition read_budget :: "budget_env \<Rightarrow> (string, string) dict \<Rightarrow> (string, pyval) dict \<Rightarrow> int \<Rightarrow> pyval \<Rightarrow>
  ('e, (string, pyval) dict \<times> int \<times> (string, string) dict) gen" where
  "read_budget env headers payload requested body =
     (case body of
        PDict receipt \<Rightarrow>
          (case receipt_matches env payload receipt of
             Inl e \<Rightarrow> gen_raise (Value_error e)
           | Inr False \<Rightarrow> gen_fail ''Context budget response does not match the requested model and input''
           | Inr True \<Rightarrow>
               (case receipt_limits receipt of
                  None \<Rightarrow> gen_fail ''Context budget response contains invalid token limits''
                | Some limits \<Rightarrow>
                    (let effective = effective_tokens requested limits
                     in gen_return (budget_of receipt requested effective, effective,
                          dict_set HEADER (proof_of env receipt effective) headers))))
      | _ \<Rightarrow> gen_fail ''Context budget response does not match the requested model and input'')"

definition context_budget_preflight :: "budget_env \<Rightarrow> post \<Rightarrow> string \<Rightarrow> (string, string) dict \<Rightarrow> (string, pyval) dict \<Rightarrow>
  int \<Rightarrow> ('e, (string, pyval) dict \<times> int \<times> (string, string) dict) gen" where
  "context_budget_preflight env post base_url headers payload requested =
     gen_bind
       (with_response post (remove_suffix ''/v1'' (rstrip_slash base_url) @ ROUTE) headers payload (\<lambda>response.
          gen_bind (http_status env response) (\<lambda>_.
          case hr_json response of
            None \<Rightarrow> gen_fail ''Invalid context budget response JSON''
          | Some body \<Rightarrow> gen_return body)))
       (read_budget env headers payload requested)"

section \<open>Server-sent events\<close>

definition line_text :: "sse_line \<Rightarrow> string + string" where
  "line_text line =
     (case line of
        Bytes s \<Rightarrow> if utf8_ok s then Inr s else Inl ''SSE response is not valid UTF-8''
      | Text s \<Rightarrow> Inr s
      | Not_text \<Rightarrow> Inl ''SSE line must be text'')"

text \<open>\<^verbatim>\<open>f"{s!r}"\<close>, for printable or ASCII text.\<close>

definition repr_char :: "char \<Rightarrow> char \<Rightarrow> string" where
  "repr_char quote c =
     (if c = quote \<or> c = CHR 0x5C then [CHR 0x5C, c]
      else if c = CHR 0x0A then [CHR 0x5C, CHR ''n'']
      else if c = CHR 0x0D then [CHR 0x5C, CHR ''r'']
      else if c = CHR 0x09 then [CHR 0x5C, CHR ''t'']
      else if code c < 32 \<or> code c = 127
      then [CHR 0x5C, CHR ''x'', hex_char (code c div 16), hex_char (code c mod 16)]
      else [c])"

definition py_repr :: "string \<Rightarrow> string" where
  "py_repr s =
     (let quote = (if CHR 0x27 \<in> set s \<and> CHR 0x22 \<notin> set s then CHR 0x22 else CHR 0x27)
      in quote # concat (map (repr_char quote) s) @ [quote])"

text \<open>The field and the value of a line.\<close>

definition sse_field :: "string \<Rightarrow> string \<times> string" where
  "sse_field line =
     (let field = before_first (CHR '':'') line
      in (field, remove_prefix '' '' (drop (Suc (length field)) line)))"

text \<open>
  What a line does to the frame being read: it ends the stream, completes the frame, or adds to
  its data and its event name.
\<close>

datatype sse_step = Sse_stop stream_error | Sse_frame "string list" | Sse_more "string list" "string option"

definition sse_step :: "budget_env \<Rightarrow> string list \<Rightarrow> string option \<Rightarrow> sse_line \<Rightarrow> sse_step" where
  "sse_step env data event_name l =
     (case line_text l of
        Inl e \<Rightarrow> Sse_stop (Model_error e None)
      | Inr line \<Rightarrow>
          if line = [] then
            (if event_name = Some ''error'' then
               Sse_stop (Model_error ''Endpoint sent an SSE error event''
                 (Some (endpoint_error_diagnostic env (PStr (join_with [CHR 0x0A] data)) PNone)))
             else Sse_frame (if data = [] then [] else [join_with [CHR 0x0A] data]))
          else if starts_with '':'' line then Sse_more data event_name
          else
            (let field = fst (sse_field line); v = snd (sse_field line) in
             if field = ''data'' then Sse_more (data @ [v]) event_name
             else if field = ''event'' then Sse_more data (Some v)
             else if field \<in> {''id'', ''retry''} then Sse_more data event_name
             else Sse_stop (Model_error (''Unexpected SSE field: '' @ py_repr field) None)))"

text \<open>The data of the complete frames, and the error that ends them if one does.\<close>

fun sse_data :: "budget_env \<Rightarrow> string list \<Rightarrow> string option \<Rightarrow> sse_line list \<Rightarrow> string option \<Rightarrow>
  string list \<times> stream_error option" where
  "sse_data env data event_name [] broken =
     ([], case broken of
            Some e \<Rightarrow> Some (Transport_error e)
          | None \<Rightarrow> if data \<noteq> [] \<or> event_name \<notin> {None, Some []}
                    then Some (Model_error ''SSE response ended inside an event'' None) else None)"
| "sse_data env data event_name (l # ls) broken =
     (case sse_step env data event_name l of
        Sse_stop e \<Rightarrow> ([], Some e)
      | Sse_frame items \<Rightarrow> map_prod ((@) items) id (sse_data env [] None ls broken)
      | Sse_more data1 event_name1 \<Rightarrow> sse_data env data1 event_name1 ls broken)"

section \<open>The chat stream\<close>

text \<open>\<^verbatim>\<open>_usage\<close>: the first wrong count names the error.\<close>

definition usage :: "pyval \<Rightarrow> string + (string, pyval) dict" where
  "usage v =
     (case v of
        PDict d \<Rightarrow>
          (case find (\<lambda>name. case dict_get d name of None \<Rightarrow> False | Some n \<Rightarrow> \<not> is_int_from 0 n)
                  [''completion_tokens'', ''prompt_tokens'', ''total_tokens''] of
             Some name \<Rightarrow> Inl (''Invalid usage.'' @ name)
           | None \<Rightarrow> Inr d)
      | _ \<Rightarrow> Inl ''Usage must be an object'')"

definition yield_usage :: "((string, pyval) dict \<Rightarrow> 'e) \<Rightarrow> pyval \<Rightarrow> ('e, unit) gen" where
  "yield_usage usage_event v =
     (if v = PNone then gen_return ()
      else (case usage v of Inl e \<Rightarrow> gen_fail e | Inr d \<Rightarrow> gen_do (Yield (usage_event d))))"

definition get_default :: "(string, pyval) dict \<Rightarrow> string \<Rightarrow> pyval \<Rightarrow> pyval" where
  "get_default d k v = (case dict_get d k of None \<Rightarrow> v | Some w \<Rightarrow> w)"

definition is_text_or_none :: "pyval \<Rightarrow> bool" where
  "is_text_or_none v \<longleftrightarrow> (case v of PNone \<Rightarrow> True | PStr _ \<Rightarrow> True | _ \<Rightarrow> False)"

definition text_of :: "pyval \<Rightarrow> string option" where
  "text_of v = (case v of PStr s \<Rightarrow> Some s | _ \<Rightarrow> None)"

text \<open>The reasoning text under its new or its old name.\<close>

definition reasoning_of :: "(string, pyval) dict \<Rightarrow> pyval" where
  "reasoning_of delta =
     (if entry delta ''reasoning'' = PNone then entry delta ''reasoning_content'' else entry delta ''reasoning'')"

definition reasoning_conflict :: "(string, pyval) dict \<Rightarrow> bool" where
  "reasoning_conflict delta \<longleftrightarrow>
     entry delta ''reasoning'' \<noteq> PNone \<and> entry delta ''reasoning_content'' \<noteq> PNone \<and>
     \<not> py_eq (entry delta ''reasoning'') (entry delta ''reasoning_content'')"

text \<open>The checks of the text fields that both transports make.\<close>

definition check_texts :: "(string, pyval) dict \<Rightarrow> ('e, unit) gen" where
  "check_texts delta =
     gen_bind (gen_check (\<not> reasoning_conflict delta) ''Conflicting reasoning delta fields'') (\<lambda>_.
     gen_bind (gen_check (is_text_or_none (entry delta ''content'')) ''Streaming content must be text'') (\<lambda>_.
     gen_check (is_text_or_none (reasoning_of delta)) ''Streaming reasoning must be text''))"

definition yield_delta :: "pyval \<Rightarrow> pyval \<Rightarrow> (stream_event, unit) gen" where
  "yield_delta content reasoning =
     (if content = PNone \<and> reasoning = PNone then gen_return ()
      else gen_do (Yield (Delta_event (case text_of content of None \<Rightarrow> [] | Some s \<Rightarrow> s) (text_of reasoning))))"

text \<open>The finish reason after a choice.\<close>

definition next_finish :: "string option \<Rightarrow> (string, pyval) dict \<Rightarrow> ('e, string option) gen" where
  "next_finish finish choice =
     (case entry choice ''finish_reason'' of
        PNone \<Rightarrow> gen_return finish
      | PStr r \<Rightarrow> if r = [] \<or> finish \<noteq> None then gen_fail ''Invalid or duplicate finish reason''
                  else gen_return (Some r)
      | _ \<Rightarrow> gen_fail ''Invalid or duplicate finish reason'')"

definition chat_delta :: "string option \<Rightarrow> (string, pyval) dict \<Rightarrow> (string, pyval) dict \<Rightarrow> (stream_event, string option) gen" where
  "chat_delta finish choice delta =
     gen_bind (gen_check (\<not> py_truthy (entry delta ''tool_calls'') \<and> \<not> py_truthy (entry delta ''function_call''))
                 ''Structured tool calls are not supported by this bash agent'') (\<lambda>_.
     gen_bind (check_texts delta) (\<lambda>_.
     let content = entry delta ''content''; reasoning = reasoning_of delta in
     gen_bind (gen_check (\<not> (finish \<noteq> None \<and> (py_truthy content \<or> py_truthy reasoning)))
                 ''Text arrived after the finish reason'') (\<lambda>_.
     gen_bind (yield_delta content reasoning) (\<lambda>_.
     next_finish finish choice))))"

definition chat_choice :: "string option \<Rightarrow> pyval \<Rightarrow> (stream_event, string option) gen" where
  "chat_choice finish choice =
     (case choice of
        PDict c \<Rightarrow>
          gen_bind (gen_check (py_eq (get_default c ''index'' (PInt 0)) (PInt 0)) ''Unexpected streaming choice index'') (\<lambda>_.
          case entry c ''delta'' of
            PDict delta \<Rightarrow> chat_delta finish c delta
          | _ \<Rightarrow> gen_fail ''Streaming delta must be an object'')
      | _ \<Rightarrow> gen_fail ''Unexpected streaming choice index'')"

text \<open>A chunk: its zero or one choice and its usage.\<close>

definition read_chunk :: "(string \<Rightarrow> (string, pyval) dict option) \<Rightarrow> string \<Rightarrow> ('e, pyval option \<times> pyval) gen" where
  "read_chunk diagnose data =
     (case json_loads data of
        None \<Rightarrow> gen_fail ''Malformed SSE JSON''
      | Some (PDict chunk) \<Rightarrow>
          if dict_get chunk ''error'' \<noteq> None
          then gen_raise (Model_error ''Endpoint reported a streaming error'' (diagnose data))
          else
            (case entry chunk ''choices'' of
               PList choices \<Rightarrow>
                 if 1 < length choices then gen_fail ''Expected zero or one streaming choice''
                 else if choices = [] \<and> entry chunk ''usage'' = PNone then gen_fail ''Empty streaming chunk has no usage''
                 else gen_return (if choices = [] then None else Some (hd choices), entry chunk ''usage'')
             | _ \<Rightarrow> gen_fail ''Expected zero or one streaming choice'')
      | Some _ \<Rightarrow> gen_fail ''SSE JSON must be an object'')"

definition chat_chunk :: "budget_env \<Rightarrow> string option \<Rightarrow> string \<Rightarrow> (stream_event, string option) gen" where
  "chat_chunk env finish data =
     gen_bind (read_chunk (\<lambda>d. Some (endpoint_error_diagnostic env (PStr d) PNone)) data) (\<lambda>(choice, used).
     gen_bind (case choice of None \<Rightarrow> gen_return finish | Some c \<Rightarrow> chat_choice finish c) (\<lambda>finish1.
     gen_bind (yield_usage Usage_event used) (\<lambda>_. gen_return finish1)))"

fun chat_loop :: "budget_env \<Rightarrow> string option \<Rightarrow> string list \<Rightarrow> stream_error option \<Rightarrow> (stream_event, unit) gen" where
  "chat_loop env finish [] broken =
     (case broken of Some e \<Rightarrow> gen_raise e | None \<Rightarrow> gen_fail ''SSE response ended without [DONE]'')"
| "chat_loop env finish (data # items) broken =
     (if data = ''[DONE]'' then
        (case finish of
           None \<Rightarrow> gen_fail ''SSE [DONE] is missing a finish reason''
         | Some r \<Rightarrow> gen_do (Yield (Done_event r)))
      else gen_bind (chat_chunk env finish data) (\<lambda>finish1. chat_loop env finish1 items broken))"

definition response_items :: "budget_env \<Rightarrow> http_response \<Rightarrow> string list \<times> stream_error option" where
  "response_items env response = sse_data env [] None (hr_lines response) (hr_broken response)"

definition send_chat :: "budget_env \<Rightarrow> post \<Rightarrow> string \<Rightarrow> (string, string) dict \<Rightarrow> (string, pyval) dict \<Rightarrow>
  (stream_event, unit) gen" where
  "send_chat env post base_url headers payload =
     with_response post (rstrip_slash base_url @ ''/chat/completions'') headers payload (\<lambda>response.
     gen_bind (http_status env response) (\<lambda>_.
     case response_items env response of (items, broken) \<Rightarrow> chat_loop env None items broken))"

record chat_args =
  ca_model :: string
  ca_messages :: pyval
  ca_temperature :: pyval
  ca_seed :: pyval
  ca_max_tokens :: pyval
  ca_context_budget :: pyval

definition chat_payload :: "chat_args \<Rightarrow> (string, pyval) dict" where
  "chat_payload a =
     [(''model'', PStr (ca_model a)), (''messages'', ca_messages a), (''temperature'', ca_temperature a),
      (''seed'', ca_seed a), (''max_tokens'', ca_max_tokens a), (''stream'', PBool True),
      (''stream_options'', PDict [(''include_usage'', PBool True)])]"

definition auth_headers :: "string \<Rightarrow> (string, string) dict" where
  "auth_headers api_key = [(''Authorization'', ''Bearer '' @ api_key)]"

definition stream_chat_completion :: "budget_env \<Rightarrow> post \<Rightarrow> string \<Rightarrow> string \<Rightarrow> chat_args \<Rightarrow> (stream_event, unit) gen" where
  "stream_chat_completion env post base_url api_key a =
     (case ca_max_tokens a of
        PInt requested \<Rightarrow>
          (let headers = auth_headers api_key; payload = chat_payload a in
           if requested < 1 then gen_raise (Value_error ''max_tokens must be a positive integer'')
           else if ca_context_budget a \<notin> {PNone, PStr ''sglang''}
           then gen_raise (Value_error (''context_budget must be None or '' @ py_repr ''sglang''))
           else if ca_context_budget a = PNone then send_chat env post base_url headers payload
           else
             gen_bind (context_budget_preflight env post base_url headers payload requested)
               (\<lambda>(budget, effective, headers1).
             gen_bind (gen_do (Yield (Budget_event budget))) (\<lambda>_.
             if effective = 0 then gen_raise (Budget_exceeded budget)
             else send_chat env post base_url headers1 (dict_set ''max_tokens'' (PInt effective) payload))))
      | _ \<Rightarrow> gen_raise (Value_error ''max_tokens must be a positive integer''))"

section \<open>What a finished stream shows\<close>

text \<open>A generator that yields no event of a kind.\<close>

definition never :: "('e \<Rightarrow> bool) \<Rightarrow> ('e, 'a) gen \<Rightarrow> bool" where
  "never P g \<longleftrightarrow> (\<forall>e. Yield e \<in> set (fst g) \<longrightarrow> \<not> P e)"

lemma fst_gen_bind: "fst (gen_bind g k) = fst g @ (case snd g of Inl e \<Rightarrow> [] | Inr x \<Rightarrow> fst (k x))"
  by (cases g) (auto simp: gen_bind_def split: sum.splits prod.splits)

lemma snd_gen_bind: "snd (gen_bind g k) = (case snd g of Inl e \<Rightarrow> Inl e | Inr x \<Rightarrow> snd (k x))"
  by (cases g) (auto simp: gen_bind_def split: sum.splits prod.splits)

lemma gen_bind_InrD: "snd (gen_bind g k) = Inr y \<Longrightarrow> \<exists>x. snd g = Inr x \<and> snd (k x) = Inr y"
  by (auto simp: snd_gen_bind split: sum.splits)

lemma never_simps [simp]:
  "never P (gen_return x)" "never P (gen_raise err)" "never P (gen_fail m)" "never P (gen_check b m)"
  "never P (gen_do (Yield e)) \<longleftrightarrow> \<not> P e" "never P (gen_do (Post u h p))" "never P (gen_do Closed)"
  by (auto simp: never_def gen_return_def gen_raise_def gen_fail_def gen_check_def gen_do_def)

lemma never_bind: "never P g \<Longrightarrow> (\<And>x. snd g = Inr x \<Longrightarrow> never P (k x)) \<Longrightarrow> never P (gen_bind g k)"
  by (cases "snd g") (auto simp: never_def fst_gen_bind)

lemma never_http_status [simp]: "never P (http_status env response)"
  by (auto simp: http_status_def split: option.splits)

lemma never_with_response: "(\<And>r. never P (body r)) \<Longrightarrow> never P (with_response post url headers payload body)"
  by (auto simp: with_response_def gen_bind_do never_def closing_eq gen_raise_def split: sum.splits)

lemma never_read_budget [simp]: "never P (read_budget env headers payload requested body)"
  by (auto simp: read_budget_def Let_def split: pyval.splits sum.splits option.splits bool.splits)

lemma never_preflight [simp]: "never P (context_budget_preflight env post base_url headers payload requested)"
  unfolding context_budget_preflight_def
  by (intro never_bind never_with_response) (auto split: option.splits)

fun is_done :: "stream_event \<Rightarrow> bool" where
  "is_done (Done_event r) = True"
| "is_done _ = False"

lemma never_yield_usage: "(\<And>d. \<not> P (f d)) \<Longrightarrow> never P (yield_usage f v)"
  by (auto simp: yield_usage_def split: sum.splits)

lemma never_check_texts [simp]: "never P (check_texts delta)"
  unfolding check_texts_def by (intro never_bind) auto

lemma never_next_finish [simp]: "never P (next_finish finish choice)"
  by (auto simp: next_finish_def split: pyval.splits)

lemma never_read_chunk [simp]: "never P (read_chunk diagnose data)"
  by (auto simp: read_chunk_def split: option.splits pyval.splits)

lemma never_chat_chunk: "never is_done (chat_chunk env finish data)"
  unfolding chat_chunk_def
proof (intro never_bind, simp_all split: prod.splits, intro allI impI never_bind, goal_cases)
  case (1 c v)
  then show ?case
    by (auto simp: chat_choice_def chat_delta_def yield_delta_def Let_def split: option.splits pyval.splits
        intro!: never_bind)
qed (auto intro!: never_bind never_yield_usage)

text \<open>A chunk that gives its one choice this finish reason.\<close>

definition states_finish :: "string \<Rightarrow> string \<Rightarrow> bool" where
  "states_finish data r \<longleftrightarrow>
     (\<exists>chunk choice. json_loads data = Some (PDict chunk) \<and> entry chunk ''choices'' = PList [PDict choice] \<and>
        entry choice ''finish_reason'' = PStr r)"

lemma next_finish_Inr:
  "snd (next_finish finish choice) = Inr fin1 \<Longrightarrow>
     fin1 = finish \<or> (\<exists>r. fin1 = Some r \<and> entry choice ''finish_reason'' = PStr r)"
  by (auto simp: next_finish_def gen_return_def gen_fail_def gen_raise_def split: pyval.splits if_splits)

lemma chat_choice_Inr:
  assumes "snd (chat_choice finish c) = Inr fin1"
  shows "fin1 = finish \<or> (\<exists>choice r. c = PDict choice \<and> fin1 = Some r \<and> entry choice ''finish_reason'' = PStr r)"
proof -
  from assms obtain choice where c: "c = PDict choice"
    by (cases c) (simp_all add: chat_choice_def gen_fail_def gen_raise_def)
  from assms obtain delta where "snd (chat_delta finish choice delta) = Inr fin1"
    unfolding c chat_choice_def
    by (auto dest!: gen_bind_InrD simp: gen_fail_def gen_raise_def split: pyval.splits)
  then have "snd (next_finish finish choice :: (stream_event, string option) gen) = Inr fin1"
    unfolding chat_delta_def Let_def by (auto dest!: gen_bind_InrD)
  then show ?thesis using next_finish_Inr c by blast
qed

lemma single: "xs \<noteq> [] \<Longrightarrow> \<not> Suc 0 < length xs \<Longrightarrow> xs = [hd xs]"
  by (cases xs) auto

lemma read_chunk_Inr:
  assumes "snd (read_chunk diagnose data) = Inr (Some c, u)"
  shows "\<exists>chunk. json_loads data = Some (PDict chunk) \<and> entry chunk ''choices'' = PList [c]"
  using assms
  by (auto simp: read_chunk_def gen_return_def gen_fail_def gen_raise_def intro: single
      split: option.splits pyval.splits if_splits)

lemma chat_chunk_Inr:
  assumes "snd (chat_chunk env finish data) = Inr fin1"
  shows "fin1 = finish \<or> (\<exists>r. fin1 = Some r \<and> states_finish data r)"
proof -
  from gen_bind_InrD [OF assms [unfolded chat_chunk_def]] obtain choice u where
    one: "snd (read_chunk (\<lambda>d. Some (endpoint_error_diagnostic env (PStr d) PNone)) data
      :: (stream_event, pyval option \<times> pyval) gen) = Inr (choice, u)"
    and two: "snd (gen_bind (case choice of None \<Rightarrow> gen_return finish | Some c \<Rightarrow> chat_choice finish c)
       (\<lambda>finish1. gen_bind (yield_usage Usage_event u) (\<lambda>_. gen_return finish1))) = Inr fin1"
    by auto
  from gen_bind_InrD [OF two] obtain fin2 where
    three: "snd (case choice of None \<Rightarrow> gen_return finish | Some c \<Rightarrow> chat_choice finish c) = Inr fin2"
    and four: "snd (gen_bind (yield_usage Usage_event u) (\<lambda>_. gen_return fin2)) = Inr fin1" by auto
  from gen_bind_InrD [OF four] have same: "fin1 = fin2" by (simp add: gen_return_def)
  show ?thesis
  proof (cases choice)
    case None
    with three same show ?thesis by (simp add: gen_return_def)
  next
    case (Some c)
    with read_chunk_Inr one obtain chunk where
      "json_loads data = Some (PDict chunk)" "entry chunk ''choices'' = PList [c]" by blast
    then show ?thesis using chat_choice_Inr [of finish c fin1] three same Some
      by (auto simp: states_finish_def)
  qed
qed

text \<open>How the loop can end.\<close>

lemma chat_loop_cases:
  "(\<exists>e. snd (chat_loop env finish items broken) = Inl e) \<and> never is_done (chat_loop env finish items broken) \<or>
   (\<exists>acts reason pre post.
      chat_loop env finish items broken = (acts @ [Yield (Done_event reason)], Inr ()) \<and>
      (\<forall>r. Yield (Done_event r) \<notin> set acts) \<and> items = pre @ ''[DONE]'' # post \<and>
      (finish = Some reason \<or> (\<exists>d \<in> set pre. states_finish d reason)))"
proof (induction env finish items broken rule: chat_loop.induct)
  case (1 env finish broken)
  then show ?case by (auto simp: gen_raise_def gen_fail_def never_def split: option.splits)
next
  case (2 env finish data items broken)
  show ?case
  proof (cases "data = ''[DONE]''")
    case True
    show ?thesis
    proof (cases finish)
      case None
      with True show ?thesis by (auto simp: gen_fail_def gen_raise_def never_def)
    next
      case (Some r)
      have "chat_loop env finish (data # items) broken = ([] @ [Yield (Done_event r)], Inr ())"
        using True Some by (simp add: gen_do_def)
      moreover have "data # items = [] @ ''[DONE]'' # items" using True by simp
      ultimately show ?thesis using Some by fastforce
    qed
  next
    case False
    then have loop: "chat_loop env finish (data # items) broken =
        gen_bind (chat_chunk env finish data) (\<lambda>finish1. chat_loop env finish1 items broken)" by simp
    show ?thesis
    proof (cases "snd (chat_chunk env finish data)")
      case (Inl e)
      then show ?thesis unfolding loop using never_chat_chunk [of env finish data]
        by (auto simp: snd_gen_bind intro!: never_bind)
    next
      case (Inr fin1)
      from "2.IH" [OF False, of fin1] show ?thesis
      proof
        assume "(\<exists>e. snd (chat_loop env fin1 items broken) = Inl e) \<and> never is_done (chat_loop env fin1 items broken)"
        then show ?thesis unfolding loop using Inr never_chat_chunk [of env finish data]
          by (auto simp: snd_gen_bind intro!: never_bind)
      next
        assume "\<exists>acts reason pre post.
          chat_loop env fin1 items broken = (acts @ [Yield (Done_event reason)], Inr ()) \<and>
          (\<forall>r. Yield (Done_event r) \<notin> set acts) \<and> items = pre @ ''[DONE]'' # post \<and>
          (fin1 = Some reason \<or> (\<exists>d \<in> set pre. states_finish d reason))"
        then obtain acts reason pre post where
          rest: "chat_loop env fin1 items broken = (acts @ [Yield (Done_event reason)], Inr ())"
          and quiet: "\<forall>r. Yield (Done_event r) \<notin> set acts" and items: "items = pre @ ''[DONE]'' # post"
          and said: "fin1 = Some reason \<or> (\<exists>d \<in> set pre. states_finish d reason)" by blast
        let ?acts = "fst (chat_chunk env finish data) @ acts"
        have "chat_loop env finish (data # items) broken = (?acts @ [Yield (Done_event reason)], Inr ())"
          unfolding loop using Inr rest by (intro prod_eqI) (simp_all add: fst_gen_bind snd_gen_bind)
        moreover have "\<forall>r. Yield (Done_event r) \<notin> set ?acts"
          using quiet never_chat_chunk [of env finish data] by (auto simp: never_def)
        moreover have "data # items = (data # pre) @ ''[DONE]'' # post" using items by simp
        moreover have "finish = Some reason \<or> (\<exists>d \<in> set (data # pre). states_finish d reason)"
          using said chat_chunk_Inr [OF Inr] by auto
        ultimately show ?thesis by blast
      qed
    qed
  qed
qed

text \<open>The same for the request around the loop.\<close>

definition finishes :: "budget_env \<Rightarrow> post \<Rightarrow> stream_event action list \<Rightarrow> string \<Rightarrow> bool" where
  "finishes env post acts reason \<longleftrightarrow>
     (\<exists>before url headers payload response pre rest.
        acts = before @ [Yield (Done_event reason), Closed] \<and> (\<forall>r. Yield (Done_event r) \<notin> set before) \<and>
        Post url headers payload \<in> set before \<and> post url headers payload = Inr response \<and>
        fst (response_items env response) = pre @ ''[DONE]'' # rest \<and> (\<exists>d \<in> set pre. states_finish d reason))"

definition ends_well :: "budget_env \<Rightarrow> post \<Rightarrow> (stream_event, unit) gen \<Rightarrow> bool" where
  "ends_well env post g \<longleftrightarrow>
     ((\<exists>e. snd g = Inl e) \<and> never is_done g) \<or> (snd g = Inr () \<and> (\<exists>reason. finishes env post (fst g) reason))"

lemma ends_well_raise [simp]: "ends_well env post (gen_raise e)"
  by (simp add: ends_well_def, simp add: gen_raise_def)

lemma ends_well_bind:
  assumes "never is_done g" and "\<And>x. snd g = Inr x \<Longrightarrow> ends_well env post (k x)"
  shows "ends_well env post (gen_bind g k)"
proof (cases "snd g")
  case (Inl e)
  then show ?thesis using assms(1) by (auto simp: ends_well_def snd_gen_bind intro!: never_bind)
next
  case (Inr x)
  show ?thesis
  proof (cases "\<exists>e. snd (k x) = Inl e")
    case True
    with assms(2) [OF Inr] have "never is_done (k x)" by (auto simp: ends_well_def)
    then show ?thesis using assms(1) Inr True by (auto simp: ends_well_def snd_gen_bind intro!: never_bind)
  next
    case False
    with assms(2) [OF Inr] obtain reason where ok: "snd (k x) = Inr ()" "finishes env post (fst (k x)) reason"
      by (auto simp: ends_well_def)
    from ok(2) obtain before url headers payload response pre rest where f:
      "fst (k x) = before @ [Yield (Done_event reason), Closed]" "\<forall>r. Yield (Done_event r) \<notin> set before"
      "Post url headers payload \<in> set before" "post url headers payload = Inr response"
      "fst (response_items env response) = pre @ ''[DONE]'' # rest" "\<exists>d \<in> set pre. states_finish d reason"
      unfolding finishes_def by blast
    have "fst (gen_bind g k) = (fst g @ before) @ [Yield (Done_event reason), Closed]"
      using Inr f(1) by (simp add: fst_gen_bind)
    moreover have "\<forall>r. Yield (Done_event r) \<notin> set (fst g @ before)"
      using assms(1) f(2) by (auto simp: never_def)
    moreover have "Post url headers payload \<in> set (fst g @ before)" using f(3) by simp
    ultimately have "finishes env post (fst (gen_bind g k)) reason" unfolding finishes_def using f(4-6) by blast
    then show ?thesis using ok(1) Inr by (auto simp: ends_well_def snd_gen_bind)
  qed
qed

lemma ends_well_request: "ends_well env post (send_chat env post base_url headers payload)"
proof -
  let ?url = "rstrip_slash base_url @ ''/chat/completions''"
  let ?g = "send_chat env post base_url headers payload"
  show ?thesis
  proof (cases "post ?url headers payload")
    case (Inl e)
    then show ?thesis
      by (auto simp: send_chat_def with_response_def gen_bind_do ends_well_def gen_raise_def never_def)
  next
    case (Inr response)
    obtain items broken where items: "response_items env response = (items, broken)" by fastforce
    have g: "?g = (Post ?url headers payload # fst (gen_bind (http_status env response)
        (\<lambda>_. chat_loop env None items broken)) @ [Closed],
        snd (gen_bind (http_status env response) (\<lambda>_. chat_loop env None items broken)))"
      by (simp add: send_chat_def with_response_def gen_bind_do Inr closing_eq items)
    have quiet: "never is_done ?g" if "never is_done (chat_loop env None items broken)"
      unfolding send_chat_def with_response_def using that
      by (auto simp: gen_bind_do never_def Inr closing_eq items fst_gen_bind http_status_def gen_raise_def
          gen_return_def split: option.splits sum.splits)
    show ?thesis
    proof (cases "http_error env response")
      case (Some e)
      then have "?g = (Post ?url headers payload # fst (gen_raise e :: (stream_event, unit) gen) @ [Closed],
          snd (gen_raise e :: (stream_event, unit) gen))" unfolding g by (simp add: http_status_def)
      then show ?thesis by (auto simp: ends_well_def gen_raise_def never_def)
    next
      case None
      then have g1: "?g = (Post ?url headers payload # fst (chat_loop env None items broken) @ [Closed],
          snd (chat_loop env None items broken))" unfolding g by (simp add: http_status_def)
      from chat_loop_cases [of env None items broken] show ?thesis
      proof
        assume "(\<exists>e. snd (chat_loop env None items broken) = Inl e) \<and> never is_done (chat_loop env None items broken)"
        then show ?thesis using quiet g1 by (auto simp: ends_well_def)
      next
        assume "\<exists>acts reason pre post.
          chat_loop env None items broken = (acts @ [Yield (Done_event reason)], Inr ()) \<and>
          (\<forall>r. Yield (Done_event r) \<notin> set acts) \<and> items = pre @ ''[DONE]'' # post \<and>
          (None = Some reason \<or> (\<exists>d \<in> set pre. states_finish d reason))"
        then obtain acts reason pre rest where
          loop: "chat_loop env None items broken = (acts @ [Yield (Done_event reason)], Inr ())"
          and f: "\<forall>r. Yield (Done_event r) \<notin> set acts" "items = pre @ ''[DONE]'' # rest"
            "None = Some reason \<or> (\<exists>d \<in> set pre. states_finish d reason)" by blast
        from f(3) have said: "\<exists>d \<in> set pre. states_finish d reason" by simp
        have "fst ?g = (Post ?url headers payload # acts) @ [Yield (Done_event reason), Closed]"
          unfolding g1 loop by simp
        moreover have "Post ?url headers payload \<in> set (Post ?url headers payload # acts)" by simp
        moreover have "\<forall>r. Yield (Done_event r) \<notin> set (Post ?url headers payload # acts)" using f(1) by simp
        moreover have "fst (response_items env response) = pre @ ''[DONE]'' # rest" using items f(2) by simp
        ultimately have "finishes env post (fst ?g) reason" unfolding finishes_def using Inr said by blast
        then show ?thesis unfolding ends_well_def g1 loop by auto
      qed
    qed
  qed
qed

lemma ends_well_stream: "ends_well env post (stream_chat_completion env post base_url api_key a)"
  unfolding stream_chat_completion_def Let_def
  by (auto intro!: ends_well_bind ends_well_request split: pyval.splits)

text \<open>
  C31: the terminal event of a model stream means what it says. It is the last stream_event, it is given
  exactly when the stream ends without an error, and only after a chunk of this very response
  gave that finish reason and the end marker followed; an interrupted or failed response yields
  no terminal stream_event, and the response is closed.
\<close>

theorem finished_stream_is_complete:
  assumes "stream_chat_completion env post base_url api_key a = (acts, r)"
  shows "(r = Inr () \<longleftrightarrow> (\<exists>reason. Yield (Done_event reason) \<in> set acts)) \<and>
    (\<forall>reason. Yield (Done_event reason) \<in> set acts \<longrightarrow> finishes env post acts reason)"
proof -
  from ends_well_stream [of env post base_url api_key a] assms consider
      (bad) e where "r = Inl e" "\<forall>s. Yield (Done_event s) \<notin> set acts"
    | (good) reason where "r = Inr ()" "finishes env post acts reason"
    by (fastforce simp: ends_well_def never_def)
  then show ?thesis
  proof cases
    case bad
    then show ?thesis by auto
  next
    case good
    from good(2) obtain before where acts: "acts = before @ [Yield (Done_event reason), Closed]"
      "\<forall>s. Yield (Done_event s) \<notin> set before" unfolding finishes_def by blast
    then have "s = reason" if "Yield (Done_event s) \<in> set acts" for s using that by auto
    then show ?thesis using good acts by auto
  qed
qed

end
