(* ===== verification/Stream_Properties.thy ===== *)
theory Stream_Properties
  imports Model_Stream
begin

text \<open>
  What the stream client promises: a diagnostic repeats nothing of the endpoint's text but known
  words and numbers, a budgeted request fits in the context the server reported, and the server
  accepts the proof that goes with it.
\<close>

section \<open>Diagnostics\<close>

text \<open>The texts in a value, keys included.\<close>

primrec texts :: "pyval \<Rightarrow> string set" where
  "texts PNone = {}"
| "texts (PBool b) = {}"
| "texts (PInt i) = {}"
| "texts (PFloat x) = {}"
| "texts (PStr s) = {s}"
| "texts (PList xs) = \<Union> (set (map texts xs))"
| "texts (PTuple xs) = \<Union> (set (map texts xs))"
| "texts (PDict kvs) = fst ` set kvs \<union> \<Union> (snd ` set (map (map_prod id texts) kvs))"

text \<open>The words a diagnostic is made of.\<close>

definition diagnostic_keys :: "string list" where
  "diagnostic_keys =
     [''body_sha256'', ''body_bytes'', ''body_hash_scope'', ''body_redacted'', ''http_status'', ''reason'', ''error'',
      ''type'', ''code'', ''param'', ''category'', ''context_budget'', ''message'', ''context_length'',
      ''requested_total_tokens'', ''prompt_tokens'', ''requested_completion_tokens'']"

definition diagnostic_words :: "string list" where
  "diagnostic_words =
     [''utf8_error_data'', ''oversized_error_body_redacted'', ''unrecognized_error_body_redacted'',
      ''context_length_exceeded'', ''out_of_memory'', ''context_budget_preflight_error'',
      ''[unrecognized endpoint message redacted]'', ''OOM'', ''CUDA out of memory'', ''CUDA out of memory.''] @
     SAFE_BUDGET_MESSAGES @ concat (map snd SAFE_ERROR_VALUES)"

lemma texts_PDict: "texts (PDict kvs) = (\<Union>p \<in> set kvs. insert (fst p) (texts (snd p)))"
  by (auto simp: image_iff)

lemma groups_named:
  "q \<in> set (matches r p) \<Longrightarrow> fst ` set (groups q) \<subseteq> fst ` set (groups p) \<union> group_names r"
proof (induction r arbitrary: p q)
  case (Cls f)
  then show ?case by (auto split: list.splits if_splits)
next
  case (Seq r s)
  then obtain t where t: "t \<in> set (matches r p)" "q \<in> set (matches s t)" by auto
  show ?case using Seq.IH(1) [OF t(1)] Seq.IH(2) [OF t(2)] by (simp, blast)
next
  case (Alt r s)
  then show ?case using Alt.IH by (simp, blast)
next
  case (Rep r)
  have "fst ` set (groups b) \<subseteq> fst ` set (groups p) \<union> group_names r"
    if "b \<in> set (matches r a)" "fst ` set (groups a) \<subseteq> fst ` set (groups p) \<union> group_names r" for a b
    using Rep.IH [OF that(1)] that(2) by blast
  then show ?case
    using turns_keep [of "matches r" "\<lambda>x. fst ` set (groups x) \<subseteq> fst ` set (groups p) \<union> group_names r" q
        "length (after p)" p] Rep.prems by simp
next
  case (Group m r)
  then obtain b u where b: "b \<in> set (matches r p)" "groups q = dict_set m u (groups b)" by auto
  then show ?case using Group.IH [OF b(1)] by (simp add: dom_update, blast)
qed (auto split: if_splits option.splits)

lemma fullmatch_lang:
  assumes "re_fullmatch r s = Some q" and "plain r"
  shows "s \<in> lang r" and "fst ` set (groups q) \<subseteq> group_names r"
proof -
  from assms(1) have q: "q \<in> set (matches r (start_of s))" "after q = []"
    by (auto simp: re_fullmatch_def find_Some_iff)
  then have "[] \<in> rests (lang r) s"
    using matches_rests [OF assms(2), of "start_of s"] by (force simp: start_of_def)
  then show "s \<in> lang r" by (simp add: rests_def)
  show "fst ` set (groups q) \<subseteq> group_names r" using groups_named [OF q(1)] by (simp add: start_of_def)
qed

lemma plain_lit [simp]: "plain (lit s)" "group_names (lit s) = {}"
  by (induction s) auto

lemma plain_upto [simp]: "plain (upto_times n r) = (n = 0 \<or> plain r)" "group_names (upto_times n r) = (if n = 0 then {} else group_names r)"
  by (induction n) auto

lemma plain_errors: "plain CONTEXT_TOTAL_ERROR" "plain CONTEXT_INPUT_ERROR"
  by (simp_all add: CONTEXT_TOTAL_ERROR_def CONTEXT_INPUT_ERROR_def number_group_def Digit_def del: lit.simps)

lemma names_errors:
  "group_names CONTEXT_TOTAL_ERROR \<subseteq> set diagnostic_keys" "group_names CONTEXT_INPUT_ERROR \<subseteq> set diagnostic_keys"
  by (simp_all add: CONTEXT_TOTAL_ERROR_def CONTEXT_INPUT_ERROR_def number_group_def Digit_def diagnostic_keys_def
      del: lit.simps)


definition safe_text :: "string \<Rightarrow> bool" where
  "safe_text s \<longleftrightarrow> s \<in> set diagnostic_keys \<or> s \<in> set diagnostic_words \<or>
     s \<in> lang CONTEXT_TOTAL_ERROR \<or> s \<in> lang CONTEXT_INPUT_ERROR"

lemma context_error_safe:
  assumes "context_error v = Some m"
  shows "\<exists>s. v = PStr s \<and> safe_text s" and "fst ` set (groups m) \<subseteq> set diagnostic_keys"
proof -
  from assms obtain s where s: "v = PStr s"
    "re_fullmatch CONTEXT_TOTAL_ERROR s = Some m \<or> re_fullmatch CONTEXT_INPUT_ERROR s = Some m"
    by (auto simp: context_error_def split: pyval.splits option.splits)
  from s(2) show "fst ` set (groups m) \<subseteq> set diagnostic_keys"
    using fullmatch_lang(2) [OF _ plain_errors(1)] fullmatch_lang(2) [OF _ plain_errors(2)] names_errors by blast
  from s(2) have "safe_text s"
    unfolding safe_text_def using fullmatch_lang(1) [OF _ plain_errors(1)] fullmatch_lang(1) [OF _ plain_errors(2)] by blast
  with s(1) show "\<exists>s. v = PStr s \<and> safe_text s" by blast
qed

lemma safe_words:
  "s \<in> set diagnostic_keys \<Longrightarrow> safe_text s" "s \<in> set diagnostic_words \<Longrightarrow> safe_text s"
  by (simp_all add: safe_text_def)

definition safe_entry :: "string \<times> pyval \<Rightarrow> bool" where
  "safe_entry p \<longleftrightarrow> (\<forall>s \<in> insert (fst p) (texts (snd p)). safe_text s)"

lemma safe_field_safe: "fa \<in> set SAFE_ERROR_VALUES \<Longrightarrow> p \<in> set (safe_field d fa) \<Longrightarrow> safe_entry p"
proof -
  assume fa: "fa \<in> set SAFE_ERROR_VALUES" and p: "p \<in> set (safe_field d fa)"
  obtain f allowed where f: "fa = (f, allowed)" by (cases fa)
  have "f \<in> set diagnostic_keys" using fa f by (auto simp: SAFE_ERROR_VALUES_def diagnostic_keys_def)
  moreover have "s \<in> set diagnostic_words" if "s \<in> set allowed" for s
    using fa that unfolding f diagnostic_words_def by force
  moreover have "p = (f, entry d f) \<and> ((\<exists>s. entry d f = PStr s \<and> s \<in> set allowed) \<or> is_status (entry d f))"
    using p unfolding f safe_field_def by (auto simp: Let_def split: if_splits pyval.splits)
  ultimately show ?thesis
    by (auto simp: safe_entry_def safe_words is_status_def split: pyval.splits)
qed

lemma safe_message_safe: "p \<in> set (safe_message v) \<Longrightarrow> safe_entry p"
proof (cases "context_error v")
  case (Some m)
  assume p: "p \<in> set (safe_message v)"
  let ?numbers = "map (\<lambda>(key, number). (key, PInt (int (digits_value number)))) (groups m)"
  have "texts (PDict ?numbers) \<subseteq> set diagnostic_keys"
    using context_error_safe(2) [OF Some] by (auto simp: texts_PDict)
  then have "safe_text s" if "s \<in> texts (PDict ?numbers)" for s
    using that safe_words(1) by blast
  moreover have "safe_text ''category''" "safe_text ''context_budget''" "safe_text ''message''"
    "safe_text ''context_length_exceeded''"
    by (simp_all add: safe_text_def diagnostic_keys_def diagnostic_words_def)
  moreover from context_error_safe(1) [OF Some] obtain s where "v = PStr s" "safe_text s" by blast
  moreover have "safe_message v = [(''category'', PStr ''context_length_exceeded''), (''context_budget'', PDict ?numbers), (''message'', v)]"
    by (simp add: safe_message_def Some)
  ultimately show ?thesis using p by (auto simp: safe_entry_def simp del: texts.simps(8))
next
  case None
  assume p: "p \<in> set (safe_message v)"
  have words: "safe_text ''category''" "safe_text ''message''" "safe_text ''out_of_memory''"
    "safe_text ''context_budget_preflight_error''" "safe_text ''[unrecognized endpoint message redacted]''"
    "safe_text ''OOM''" "safe_text ''CUDA out of memory''" "safe_text ''CUDA out of memory.''"
    by (simp_all add: safe_text_def diagnostic_keys_def diagnostic_words_def)
  have budget: "safe_text s" if "s \<in> set SAFE_BUDGET_MESSAGES" for s
    using that by (simp add: safe_text_def diagnostic_words_def)
  consider "v \<in> set (map PStr [''OOM'', ''CUDA out of memory'', ''CUDA out of memory.''])"
    | s where "v = PStr s" "s \<in> set SAFE_BUDGET_MESSAGES" "v \<notin> set (map PStr [''OOM'', ''CUDA out of memory'', ''CUDA out of memory.''])"
    | "v \<notin> set (map PStr SAFE_BUDGET_MESSAGES)" "v \<notin> set (map PStr [''OOM'', ''CUDA out of memory'', ''CUDA out of memory.''])"
    by auto
  then show ?thesis
  proof cases
    case 1
    then show ?thesis using p words by (auto simp: safe_message_def None safe_entry_def)
  next
    case 2
    then have "safe_message v = [(''category'', PStr ''context_budget_preflight_error''), (''message'', v)]"
      unfolding safe_message_def None by (simp del: list.map)
    then show ?thesis using p words budget [OF 2(2)] 2(1) by (auto simp: safe_entry_def)
  next
    case 3
    then have "safe_message v = [(''message'', PStr ''[unrecognized endpoint message redacted]'')]"
      unfolding safe_message_def None by (simp del: list.map)
    then show ?thesis using p words by (auto simp: safe_entry_def)
  qed
qed

text \<open>
  C32: an error diagnostic repeats nothing of what the endpoint sent, whatever it sent - prompts,
  headers, paths or keys. Besides the digest of the body every text in it is one of a fixed list of
  words or one of the two known sentences about the context length, which leave room for numbers only.
\<close>

theorem diagnostic_reveals_nothing:
  "texts (PDict (endpoint_error_diagnostic env v status)) \<subseteq> {be_sha256 env (error_body env v)} \<union> {s. safe_text s}"
proof
  fix s assume s: "s \<in> texts (PDict (endpoint_error_diagnostic env v status))"
  define base where "base = [(''body_sha256'', PStr (be_sha256 env (error_body env v))), (''body_bytes'', PInt (int (length (error_body env v)))),
     (''body_hash_scope'', PStr ''utf8_error_data''), (''body_redacted'', PBool True)] @
     (if is_status status then [(''http_status'', status)] else [])"
  have words: "safe_text ''body_sha256''" "safe_text ''body_bytes''" "safe_text ''body_hash_scope''"
    "safe_text ''body_redacted''" "safe_text ''http_status''" "safe_text ''reason''" "safe_text ''error''"
    "safe_text ''utf8_error_data''" "safe_text ''oversized_error_body_redacted''"
    "safe_text ''unrecognized_error_body_redacted''"
    by (simp_all add: safe_text_def diagnostic_keys_def diagnostic_words_def)
  have base: "s = be_sha256 env (error_body env v) \<or> safe_text s" if "s \<in> texts (PDict base)" for s
    using that words by (auto simp: base_def texts_PDict is_status_def split: if_splits pyval.splits simp del: texts.simps(8))
  have split: "texts (PDict (a @ b)) = texts (PDict a) \<union> texts (PDict b)" for a b by (auto simp: texts_PDict)
  have one: "texts (PDict [(k, w)]) = insert k (texts w)" for k w by (simp add: texts_PDict)
  have "s = be_sha256 env (error_body env v) \<or> safe_text s"
  proof (cases "ERROR_TEXT_LIMIT < length (error_body env v)")
    case True
    then have "endpoint_error_diagnostic env v status = base @ [(''reason'', PStr ''oversized_error_body_redacted'')]"
      by (simp add: endpoint_error_diagnostic_def Let_def base_def)
    then have "s \<in> texts (PDict base) \<or> s \<in> {''reason'', ''oversized_error_body_redacted''}"
      using s by (simp only: split one texts.simps(5) Un_iff)
    then show ?thesis using base words by blast
  next
    case small: False
    show ?thesis
    proof (cases "error_object v")
      case None
      then have "endpoint_error_diagnostic env v status = base @ [(''reason'', PStr ''unrecognized_error_body_redacted'')]"
        using small by (simp add: endpoint_error_diagnostic_def Let_def base_def)
      then have "s \<in> texts (PDict base) \<or> s \<in> {''reason'', ''unrecognized_error_body_redacted''}"
        using s by (simp only: split one texts.simps(5) Un_iff)
      then show ?thesis using base words by blast
    next
      case (Some d)
      let ?safe = "concat (map (safe_field d) SAFE_ERROR_VALUES) @ safe_message (entry d ''message'')"
      have eq: "endpoint_error_diagnostic env v status = base @ [(''error'', PDict ?safe)]"
        using small Some by (simp add: endpoint_error_diagnostic_def Let_def base_def)
      have "safe_entry p" if "p \<in> set ?safe" for p
        using that by (auto intro: safe_field_safe safe_message_safe)
      then have safe: "safe_text s" if "s \<in> texts (PDict ?safe)" for s
        using that unfolding texts_PDict safe_entry_def by blast
      have "s \<in> texts (PDict base) \<or> s = ''error'' \<or> s \<in> texts (PDict ?safe)"
        using s unfolding eq by (simp only: split one Un_iff insert_iff)
      then show ?thesis using base words safe by blast
    qed
  qed
  then show "s \<in> {be_sha256 env (error_body env v)} \<union> {s. safe_text s}" by simp
qed

section \<open>The budget\<close>

text \<open>The requests a generator posts.\<close>

definition posts :: "('e, 'a) gen \<Rightarrow> (string \<times> (string, string) dict \<times> (string, pyval) dict) set" where
  "posts g = {(u, h, p). Post u h p \<in> set (fst g)}"

lemma posts_simps [simp]:
  "posts (gen_return x) = {}" "posts (gen_raise err) = {}" "posts (gen_fail m) = {}" "posts (gen_check b m) = {}"
  "posts (gen_do (Yield e)) = {}" "posts (gen_do (Post u h p)) = {(u, h, p)}"
  by (auto simp: posts_def gen_return_def gen_raise_def gen_fail_def gen_check_def gen_do_def)

lemma posts_bind: "posts (gen_bind g k) = posts g \<union> (case snd g of Inl e \<Rightarrow> {} | Inr x \<Rightarrow> posts (k x))"
  by (auto simp: posts_def fst_gen_bind split: sum.splits)

lemma posts_bind_none: "posts g = {} \<Longrightarrow> (\<And>x. posts (k x) = {}) \<Longrightarrow> posts (gen_bind g k) = {}"
  by (auto simp: posts_bind split: sum.splits)

lemma snd_gen_do [simp]: "snd (gen_do a) = Inr ()"
  by (simp add: gen_do_def)

lemma posts_closing [simp]: "posts (closing g) = posts g"
  by (auto simp: posts_def closing_eq)

lemma posts_http_status [simp]: "posts (http_status env response) = {}"
  by (auto simp: http_status_def split: option.splits)

lemma posts_parts [simp]:
  "posts (yield_usage f v) = {}" "posts (yield_delta content reasoning) = {}"
  "posts (next_finish finish choice) = {}" "posts (read_chunk diagnose data) = {}"
  by (auto simp: yield_usage_def yield_delta_def next_finish_def read_chunk_def
      split: option.splits pyval.splits sum.splits)

lemma posts_check_texts [simp]: "posts (check_texts delta) = {}"
  unfolding check_texts_def by (intro posts_bind_none) simp_all

lemma posts_chat_delta [simp]: "posts (chat_delta finish choice delta) = {}"
  unfolding chat_delta_def Let_def by (intro posts_bind_none) simp_all

lemma posts_chat_choice [simp]: "posts (chat_choice finish choice) = {}"
proof (cases choice)
  case (PDict c)
  have "posts (case entry c ''delta'' of PDict delta \<Rightarrow> chat_delta finish c delta
      | _ \<Rightarrow> gen_fail ''Streaming delta must be an object'') = {}" by (cases "entry c ''delta''") simp_all
  then show ?thesis unfolding chat_choice_def PDict by (simp add: posts_bind_none)
qed (simp_all add: chat_choice_def)

lemma posts_chat_chunk: "posts (chat_chunk env finish data) = {}"
  unfolding chat_chunk_def by (intro posts_bind_none) (auto intro!: posts_bind_none split: option.splits)

lemma posts_chat_loop: "posts (chat_loop env finish items broken) = {}"
proof (induction env finish items broken rule: chat_loop.induct)
  case (2 env finish data items broken)
  then show ?case
    by (cases "data = ''[DONE]''") (auto simp: posts_chat_chunk split: option.splits intro!: posts_bind_none)
qed (auto split: option.splits)

lemma posts_with_response:
  "posts (with_response post url headers payload body) =
     insert (url, headers, payload) (case post url headers payload of Inl e \<Rightarrow> {} | Inr response \<Rightarrow> posts (body response))"
  by (auto simp: with_response_def posts_bind gen_do_def split: sum.splits) (auto simp: posts_def)

lemma posts_send_chat:
  "posts (send_chat env post base_url headers payload) = {(rstrip_slash base_url @ ''/chat/completions'', headers, payload)}"
  by (auto simp: send_chat_def posts_with_response posts_bind posts_chat_loop split: sum.splits prod.splits)

lemma posts_read_budget [simp]: "posts (read_budget env headers payload requested body) = {}"
  by (auto simp: read_budget_def Let_def split: pyval.splits sum.splits option.splits bool.splits)

lemma receipt_limits_Some:
  assumes "receipt_limits receipt = Some (prompt, reserved, limit)"
  shows "entry receipt ''prompt_tokens'' = PInt prompt" "entry receipt ''reserved_tokens'' = PInt reserved"
    "entry receipt ''context_length'' = PInt limit"
  using assms by (auto simp: receipt_limits_def split: option.splits if_splits)

lemma read_budget_Inr:
  assumes "snd (read_budget env headers payload requested body) = Inr (budget, maximum, headers1)"
  obtains receipt digest prompt reserved limit where
    "body = PDict receipt" "canonical_sha256 env (PDict payload) = Inr digest"
    "receipt_matches env payload receipt = Inr True"
    "receipt_limits receipt = Some (prompt, reserved, limit)"
    "entry receipt ''request_sha256'' = PStr digest" "is_hex 32 (entry receipt ''server_instance_id'')"
    "is_hex 64 (entry receipt ''prompt_sha256'')" "py_eq (entry receipt ''model'') (entry payload ''model'')"
    "maximum = effective_tokens requested (prompt, reserved, limit)"
    "headers1 = dict_set HEADER (proof_of env receipt maximum) headers"
proof -
  from assms obtain receipt where body: "body = PDict receipt"
    by (cases body) (auto simp: read_budget_def gen_fail_def gen_raise_def)
  with assms have m: "receipt_matches env payload receipt = Inr True"
    by (auto simp: read_budget_def gen_fail_def gen_raise_def split: sum.splits bool.splits)
  with assms body obtain prompt reserved limit where l: "receipt_limits receipt = Some (prompt, reserved, limit)"
    and r: "maximum = effective_tokens requested (prompt, reserved, limit)"
      "headers1 = dict_set HEADER (proof_of env receipt maximum) headers"
    by (auto simp: read_budget_def gen_fail_def gen_raise_def gen_return_def Let_def split: option.splits)
  from m obtain digest where "canonical_sha256 env (PDict payload) = Inr digest"
    "entry receipt ''request_sha256'' = PStr digest" "is_hex 32 (entry receipt ''server_instance_id'')"
    "is_hex 64 (entry receipt ''prompt_sha256'')" "py_eq (entry receipt ''model'') (entry payload ''model'')"
    by (auto simp: receipt_matches_def res_bind_Inr_iff split: if_splits)
  with that body m l r show ?thesis by blast
qed

lemma effective_tokens_bounds:
  assumes "effective_tokens requested (prompt, reserved, limit) = maximum" and "maximum \<noteq> 0" and "1 \<le> requested"
  shows "1 \<le> maximum" "maximum \<le> requested" "prompt + reserved + maximum + 1 \<le> limit"
  using assms by (auto simp: effective_tokens_def)

lemma urls_differ: "remove_suffix ''/v1'' u @ ROUTE \<noteq> v @ ''/chat/completions''"
proof
  assume "remove_suffix ''/v1'' u @ ROUTE = v @ ''/chat/completions''"
  then have "last (remove_suffix ''/v1'' u @ ROUTE) = last (v @ ''/chat/completions'')" by simp
  then show False by (simp add: ROUTE_def)
qed

text \<open>
  C33: with a context budget, a generation is only requested with a number of tokens that is
  positive, at most what the caller asked for, and fits in the model's context together with the
  prompt the server counted for this very payload and the tokens the server reserves.
\<close>

theorem budget_bounds_generation:
  assumes "stream_chat_completion env post base_url api_key a = (acts, r)"
    and "ca_context_budget a = PStr ''sglang''" and "ca_max_tokens a = PInt requested"
    and "Post (rstrip_slash base_url @ ''/chat/completions'') headers payload \<in> set acts"
  shows "\<exists>response receipt digest prompt reserved limit maximum.
    post (remove_suffix ''/v1'' (rstrip_slash base_url) @ ROUTE) (auth_headers api_key) (chat_payload a) = Inr response \<and>
    hr_json response = Some (PDict receipt) \<and> canonical_sha256 env (PDict (chat_payload a)) = Inr digest \<and>
    entry receipt ''request_sha256'' = PStr digest \<and> entry receipt ''prompt_tokens'' = PInt prompt \<and>
    entry receipt ''reserved_tokens'' = PInt reserved \<and> entry receipt ''context_length'' = PInt limit \<and>
    payload = dict_set ''max_tokens'' (PInt maximum) (chat_payload a) \<and>
    headers = dict_set HEADER (proof_of env receipt maximum) (auth_headers api_key) \<and>
    1 \<le> maximum \<and> maximum \<le> requested \<and> prompt + reserved + maximum + 1 \<le> limit"
proof -
  let ?u = "rstrip_slash base_url @ ''/chat/completions''"
  let ?pre = "context_budget_preflight env post base_url (auth_headers api_key) (chat_payload a) requested
    :: (stream_event, (string, pyval) dict \<times> int \<times> (string, string) dict) gen"
  have positive: "1 \<le> requested"
    using assms by (auto simp: stream_chat_completion_def gen_raise_def Let_def split: if_splits)
  have g: "stream_chat_completion env post base_url api_key a = gen_bind ?pre (\<lambda>(budget, effective, headers1).
      gen_bind (gen_do (Yield (Budget_event budget))) (\<lambda>_.
      if effective = 0 then gen_raise (Budget_exceeded budget)
      else send_chat env post base_url headers1 (dict_set ''max_tokens'' (PInt effective) (chat_payload a))))"
    using assms(2,3) positive by (simp add: stream_chat_completion_def Let_def)
  from assms(1,4) have "(?u, headers, payload) \<in> posts (stream_chat_completion env post base_url api_key a)"
    by (simp add: posts_def)
  moreover have "(?u, headers, payload) \<notin> posts ?pre"
    using urls_differ [symmetric] by (auto simp: context_budget_preflight_def posts_bind posts_with_response split: sum.splits option.splits)
  ultimately obtain budget maximum headers1 where pre: "snd ?pre = Inr (budget, maximum, headers1)"
    and h: "maximum \<noteq> 0" "headers = headers1" "payload = dict_set ''max_tokens'' (PInt maximum) (chat_payload a)"
    unfolding g by (auto simp: posts_bind posts_send_chat split: sum.splits if_splits)
  from gen_bind_InrD [OF pre [unfolded context_budget_preflight_def]] obtain body where
    one: "snd (with_response post (remove_suffix ''/v1'' (rstrip_slash base_url) @ ROUTE) (auth_headers api_key) (chat_payload a)
      (\<lambda>response. gen_bind (http_status env response) (\<lambda>_. case hr_json response of
         None \<Rightarrow> gen_fail ''Invalid context budget response JSON'' | Some body \<Rightarrow> gen_return body))
      :: (stream_event, pyval) gen) = Inr body"
    and two: "snd (read_budget env (auth_headers api_key) (chat_payload a) requested body
      :: (stream_event, (string, pyval) dict \<times> int \<times> (string, string) dict) gen) = Inr (budget, maximum, headers1)" by blast
  from one obtain response where response:
    "post (remove_suffix ''/v1'' (rstrip_slash base_url) @ ROUTE) (auth_headers api_key) (chat_payload a) = Inr response"
    "hr_json response = Some body"
    by (auto simp: with_response_def gen_bind_do closing_eq gen_raise_def gen_fail_def gen_return_def snd_gen_bind
        split: sum.splits option.splits)
  from two show ?thesis
  proof (rule read_budget_Inr)
    fix receipt digest prompt reserved limit
    assume f: "body = PDict receipt" "canonical_sha256 env (PDict (chat_payload a)) = Inr digest"
      "receipt_limits receipt = Some (prompt, reserved, limit)" "entry receipt ''request_sha256'' = PStr digest"
      "maximum = effective_tokens requested (prompt, reserved, limit)"
      "headers1 = dict_set HEADER (proof_of env receipt maximum) (auth_headers api_key)"
    from effective_tokens_bounds [OF f(5) [symmetric] h(1) positive] receipt_limits_Some [OF f(3)]
    show ?thesis using response f h by blast
  qed
qed

section \<open>Client and server together\<close>

definition ascii :: "string \<Rightarrow> bool" where
  "ascii s \<longleftrightarrow> list_all (\<lambda>c. code c < 128) s"

lemma hex_ascii: "is_hex n (PStr s) \<Longrightarrow> ascii s"
proof -
  assume "is_hex n (PStr s)"
  moreover have "code c < 128" if "digit_char c \<or> (CHR ''a'' \<le> c \<and> c \<le> CHR ''f'')" for c
    using that by (auto simp: digit_char_def code_def less_eq_char_def)
  ultimately show ?thesis by (auto simp: is_hex_def ascii_def list_all_iff)
qed

lemma sort_keys_atoms: "\<forall>p \<in> set kvs. sort_keys (snd p) = snd p \<Longrightarrow> sort_keys (PDict kvs) = PDict (sort_key fst kvs)"
proof -
  assume "\<forall>p \<in> set kvs. sort_keys (snd p) = snd p"
  then have "map (map_prod id sort_keys) kvs = kvs" by (induction kvs) (auto simp: prod_eq_iff)
  then show ?thesis by simp
qed

lemma same_value_refl: "same_value v v"
  by (cases v) (simp_all add: same_value_def)

text \<open>The server reads from the header the very receipt it gave, with the client's token count.\<close>

lemma receipt_read_back:
  assumes "authorize env sv raw = Inr ()" and "length (proof_of env receipt maximum) \<le> 2048" and "1 \<le> maximum"
    and "receipt = receipt_of i (PStr model) n prompt reserved limit @ extra"
    and "ascii i" and "ascii model" and "ascii prompt"
  obtains rc where "read_receipt env sv raw (proof_of env receipt maximum) = Inr rc"
    and "entry rc ''max_tokens'' = PInt maximum"
    and "list_all (\<lambda>(key, v). same_value (entry rc key) v) (receipt_of i (PStr model) n prompt reserved limit)"
proof -
  let ?kvs = "copy_of RECEIPT_FIELDS receipt @ [(''max_tokens'', PInt maximum)]"
  have kvs: "?kvs = receipt_of i (PStr model) n prompt reserved limit @ [(''max_tokens'', PInt maximum)]"
    unfolding assms(4) by (simp add: copy_of_def RECEIPT_FIELDS_def receipt_of_def)
  let ?rc = "sort_key fst ?kvs"
  have sorted: "sort_keys (PDict ?kvs) = PDict ?rc"
    by (rule sort_keys_atoms) (simp add: kvs receipt_of_def)
  have distinct: "distinct (map fst ?kvs)" unfolding kvs by (simp add: receipt_of_def)
  have same: "dict_get ?rc k = dict_get ?kvs k" for k by (simp only: map_of_sort_key_fst [OF distinct])
  have "json_ok True (PDict ?kvs)"
    using assms(5-7) by (simp add: kvs receipt_of_def text_ok_def ascii_def PROTOCOL_def RENDERER_SHA256_def code_def)
  then have "json_ok True (PDict ?rc)" using json_ok_sort_keys sorted by metis
  then have "json_loads (proof_of env receipt maximum) = Some (PDict ?rc)"
    unfolding proof_of_def sorted by (intro loads_dumps) (simp_all add: compact_style_def style_ok_def)
  moreover have "set (map fst ?rc) = set (''max_tokens'' # RECEIPT_FIELDS)"
    unfolding kvs by (auto simp: receipt_of_def RECEIPT_FIELDS_def)
  moreover have e: "entry ?rc k = entry ?kvs k" for k unfolding entry_def same ..
  moreover have "entry ?kvs ''max_tokens'' = PInt maximum" unfolding kvs by (simp add: receipt_of_def)
  ultimately have "read_receipt env sv raw (proof_of env receipt maximum) = Inr ?rc" "entry ?rc ''max_tokens'' = PInt maximum"
    using assms(1-3) by (simp_all add: read_receipt_def is_int_from_def)
  moreover have "list_all (\<lambda>(key, v). same_value (entry ?rc key) v) (receipt_of i (PStr model) n prompt reserved limit)"
    unfolding e kvs by (simp add: receipt_of_def same_value_refl)
  ultimately show ?thesis by (rule that)
qed

text \<open>
  C34: the two ends of the budget protocol agree. When the client accepts the receipt that the
  server counted and computes a positive number of tokens from it, the server's guard lets the
  generation through as long as it renders the request to the same tokens as when it counted.
\<close>

theorem budgeted_request_accepted:
  assumes counted: "count_adapted env sv rq0 ad0 i = Inr counted"
    and accepted: "snd (read_budget env headers payload requested (PDict (counted @ [(''request_sha256'', d)]))
          :: (stream_event, (string, pyval) dict \<times> int \<times> (string, string) dict) gen) = Inr (budget, maximum, headers1)"
    and positive: "maximum \<noteq> 0" "1 \<le> requested"
    and model: "cq_model rq0 = PStr model" "ascii model"
    and sent: "rw_headers raw HEADER = dict_get headers1 HEADER" "authorize env sv raw = Inr ()"
      "length (proof_of env (counted @ [(''request_sha256'', d)]) maximum) \<le> 2048"
    and rendered: "original sv rq (Some raw) = Inr (ad, rq1)" "supported sv rq1 ad" "cq_model rq1 = cq_model rq0"
      "ad_input_ids ad = ad_input_ids ad0" "dict_get (ad_sampling_params ad) ''max_new_tokens'' = Some (PInt maximum)"
  shows "guard_conversion env original i sv rq (Some raw) = Inr (ad, rq1)"
proof -
  obtain ids limit reserved prompt where c: "token_ids (ad_input_ids ad0) = Some ids" "server_limits sv = Some (limit, reserved)"
    "canonical_sha256 env (PList ids) = Inr prompt" "supported sv rq0 ad0"
    "counted = receipt_of i (cq_model rq0) (length ids) prompt reserved limit"
    by (rule count_adapted_Inr [OF counted])
  let ?receipt = "counted @ [(''request_sha256'', d)]"
  have entries: "entry ?receipt ''prompt_tokens'' = PInt (int (length ids))" "entry ?receipt ''reserved_tokens'' = PInt reserved"
    "entry ?receipt ''context_length'' = PInt limit" "entry ?receipt ''server_instance_id'' = PStr i"
    "entry ?receipt ''prompt_sha256'' = PStr prompt"
    by (simp_all add: c(5) receipt_of_def)
  from accepted have client: "is_hex 32 (PStr i) \<and> is_hex 64 (PStr prompt) \<and> 1 \<le> maximum \<and>
      int (length ids) + reserved + maximum + 1 \<le> limit \<and> headers1 = dict_set HEADER (proof_of env ?receipt maximum) headers"
  proof (rule read_budget_Inr)
    fix receipt digest p l r
    assume f: "PDict ?receipt = PDict receipt" "receipt_limits receipt = Some (p, r, l)"
      "is_hex 32 (entry receipt ''server_instance_id'')" "is_hex 64 (entry receipt ''prompt_sha256'')"
      "maximum = effective_tokens requested (p, r, l)" "headers1 = dict_set HEADER (proof_of env receipt maximum) headers"
    from f(1) have r: "receipt = ?receipt" by simp
    from receipt_limits_Some [OF f(2)] entries have "p = int (length ids)" "r = reserved" "l = limit" unfolding r by simp_all
    with effective_tokens_bounds [OF f(5) [symmetric] positive] f(3,4,6) entries
    show "is_hex 32 (PStr i) \<and> is_hex 64 (PStr prompt) \<and> 1 \<le> maximum \<and>
      int (length ids) + reserved + maximum + 1 \<le> limit \<and> headers1 = dict_set HEADER (proof_of env ?receipt maximum) headers"
      unfolding r by simp
  qed
  then have ids: "ascii i" "ascii prompt" and room: "1 \<le> maximum" "int (length ids) + reserved + maximum + 1 \<le> limit"
    and header: "headers1 = dict_set HEADER (proof_of env ?receipt maximum) headers" using hex_ascii by blast+
  have eq: "?receipt = receipt_of i (PStr model) (length ids) prompt reserved limit @ [(''request_sha256'', d)]"
    using c(5) model(1) by simp
  obtain rc where rc: "read_receipt env sv raw (proof_of env ?receipt maximum) = Inr rc" "entry rc ''max_tokens'' = PInt maximum"
    "list_all (\<lambda>(key, v). same_value (entry rc key) v) (receipt_of i (PStr model) (length ids) prompt reserved limit)"
    by (rule receipt_read_back [OF sent(2,3) room(1) eq ids(1) model(2) ids(2)])
  have actual: "count_adapted env sv rq1 ad i = Inr (receipt_of i (PStr model) (length ids) prompt reserved limit)"
    using c rendered(2-4) model(1) by (simp add: count_adapted_def)
  have "check_receipt rc (receipt_of i (PStr model) (length ids) prompt reserved limit) ad"
    unfolding check_receipt_def using rc(2,3) room(2) rendered(5)
    by (simp add: receipt_of_def entry_def [of "ad_sampling_params ad"] opt_val_def)
  moreover have "rw_headers raw HEADER = Some (proof_of env ?receipt maximum)"
    using sent(1) header by (simp add: dict_get_set)
  ultimately show ?thesis using rc(1) rendered(1) actual by (simp add: guard_conversion_def)
qed

section \<open>Concrete runs\<close>

definition demo_env :: budget_env where
  "demo_env = \<lparr>be_sha256 = \<lambda>_. replicate 64 CHR ''a'', be_float = \<lambda>_. ''0.5'', be_ip_is_loopback = \<lambda>_. Some True\<rparr>"

definition demo_serving :: serving where
  "demo_serving = \<lparr>sv_is_multimodal = False, sv_served_model_name = PStr ''m'', sv_tokenizer_worker_num = PInt 1,
     sv_allow_auto_truncate = PBool False, sv_validate_total_tokens = PBool True, sv_context_len = PInt 100,
     sv_num_reserved_tokens = PInt 5, sv_api_key = PStr ''k''\<rparr>"

definition demo_rq :: chat_request where
  "demo_rq = \<lparr>cq_model = PStr ''m'', cq_contents = [PStr ''hi''], cq_lora_path = PNone, cq_n = PNone\<rparr>"

definition demo_adapted :: adapted where
  "demo_adapted = \<lparr>ad_input_ids = PList [PInt 7, PInt 8], ad_lora_path = PNone,
     ad_sampling_params = [(''max_new_tokens'', PInt 64)]\<rparr>"

definition demo_instance :: string where "demo_instance = replicate 32 CHR ''b''"

definition demo_counted :: "(string, pyval) dict" where
  "demo_counted = receipt_of demo_instance (PStr ''m'') 2 (replicate 64 CHR ''a'') 5 100"

definition demo_receipt :: "(string, pyval) dict" where
  "demo_receipt = demo_counted @ [(''request_sha256'', PStr (replicate 64 CHR ''a''))]"

definition demo_chat :: chat_args where
  "demo_chat = \<lparr>ca_model = ''m'', ca_messages = PList [], ca_temperature = PInt 0, ca_seed = PInt 0,
     ca_max_tokens = PInt 64, ca_context_budget = PStr ''sglang''\<rparr>"

definition demo_chunk :: string where
  "demo_chunk = json_dumps (default_style (\<lambda>_. [])) (PDict [(''choices'', PList [PDict
     [(''delta'', PDict [(''content'', PStr ''hi'')]), (''finish_reason'', PStr ''stop'')]])])"

definition demo_post :: post where
  "demo_post url headers payload = Inr \<lparr>hr_status = 200, hr_chunks = [], hr_chunks_fail = False,
     hr_json = Some (PDict demo_receipt),
     hr_lines = [Text (''data: '' @ demo_chunk), Text [], Bytes ''data: [DONE]'', Bytes []], hr_broken = None\<rparr>"

definition demo_raw :: raw_request where
  "demo_raw = \<lparr>rw_client = Some ''127.0.0.1'',
     rw_headers = (\<lambda>h. if h = ''authorization'' then Some ''Bearer k''
                      else if h = HEADER then Some (proof_of demo_env demo_receipt 64) else None),
     rw_json = None\<rparr>"

definition demo_convert :: conversion where
  "demo_convert sv rq raw = Inr (demo_adapted, rq)"

lemma demo_guard: "guard_conversion demo_env demo_convert demo_instance demo_serving demo_rq (Some demo_raw) = Inr (demo_adapted, demo_rq)"
  by code_simp

lemma demo_stream:
  "stream_chat_completion demo_env demo_post ''http://h/v1'' ''k'' demo_chat =
     ([Post ''http://h/sfx/chat-token-count'' (auth_headers ''k'') (chat_payload demo_chat), Closed,
       Yield (Budget_event (budget_of demo_receipt 64 64)),
       Post ''http://h/v1/chat/completions'' (dict_set HEADER (proof_of demo_env demo_receipt 64) (auth_headers ''k''))
         (chat_payload demo_chat),
       Yield (Delta_event ''hi'' None), Yield (Done_event ''stop''), Closed], Inr ())"
  by code_simp

theorem finished_stream_is_complete_witness:
  "finishes demo_env demo_post (fst (stream_chat_completion demo_env demo_post ''http://h/v1'' ''k'' demo_chat)) ''stop''"
  using finished_stream_is_complete [OF demo_stream] unfolding demo_stream by simp

theorem budget_bounds_generation_witness:
  "\<exists>maximum. chat_payload demo_chat = dict_set ''max_tokens'' (PInt maximum) (chat_payload demo_chat) \<and>
     1 \<le> maximum \<and> maximum \<le> 64"
proof -
  have url: "''http://h/v1/chat/completions'' = rstrip_slash ''http://h/v1'' @ ''/chat/completions''" by code_simp
  have sglang: "ca_context_budget demo_chat = PStr ''sglang''" "ca_max_tokens demo_chat = PInt 64"
    by (simp_all add: demo_chat_def)
  have "Post (rstrip_slash ''http://h/v1'' @ ''/chat/completions'')
      (dict_set HEADER (proof_of demo_env demo_receipt 64) (auth_headers ''k'')) (chat_payload demo_chat)
    \<in> set (fst (stream_chat_completion demo_env demo_post ''http://h/v1'' ''k'' demo_chat))"
    unfolding demo_stream url by simp
  from budget_bounds_generation [OF prod.collapse [symmetric] sglang this] show ?thesis by blast
qed

lemma demo_counts:
  "count_adapted demo_env demo_serving demo_rq demo_adapted demo_instance = Inr demo_counted"
  by code_simp

theorem guarded_request_fits_witness:
  "\<exists>maximum. dict_get (ad_sampling_params demo_adapted) ''max_new_tokens'' = Some (PInt maximum) \<and> 2 + 5 + maximum + 1 \<le> 100"
proof -
  have "rw_headers demo_raw HEADER = Some (proof_of demo_env demo_receipt 64)"
    by (simp add: demo_raw_def HEADER_def)
  from guarded_request_fits [OF demo_guard this] show ?thesis by (auto simp: demo_adapted_def demo_serving_def)
qed

theorem budgeted_request_accepted_witness:
  "guard_conversion demo_env demo_convert demo_instance demo_serving demo_rq (Some demo_raw) = Inr (demo_adapted, demo_rq)"
proof (rule budgeted_request_accepted [OF demo_counts])
  let ?headers = "dict_set HEADER (proof_of demo_env demo_receipt 64) (auth_headers ''k'')"
  show "snd (read_budget demo_env (auth_headers ''k'') (chat_payload demo_chat) 64
      (PDict (demo_counted @ [(''request_sha256'', PStr (replicate 64 CHR ''a''))]))
      :: (stream_event, (string, pyval) dict \<times> int \<times> (string, string) dict) gen) =
      Inr (budget_of demo_receipt 64 64, 64, ?headers)" by code_simp
  show "rw_headers demo_raw HEADER = dict_get ?headers HEADER" by code_simp
  show "authorize demo_env demo_serving demo_raw = Inr ()" by code_simp
  show "length (proof_of demo_env (demo_counted @ [(''request_sha256'', PStr (replicate 64 CHR ''a''))]) 64) \<le> 2048"
    by code_simp
  show "ascii ''m''" by code_simp
qed (simp_all add: demo_rq_def demo_convert_def demo_adapted_def supported_def demo_serving_def)

text \<open>What an endpoint sends as a field of an event can appear in the text of the error.\<close>

lemma unexpected_field_reveals:
  "sse_data env [] None [Text ''sk-secret''] None =
     ([], Some (Model_error (''Unexpected SSE field: '' @ [CHR 0x27] @ ''sk-secret'' @ [CHR 0x27]) None))"
  by (simp add: sse_step_def line_text_def starts_with_def sse_field_def before_first_def py_repr_def repr_char_def code_def Let_def)

end
