(* ===== verification/Model_Tools.thy ===== *)
theory Model_Tools
  imports Model_Stream
begin

text \<open>
  eval/model_tools.py: the transport in which a command is a native tool call. Only a complete
  and validated call becomes a command, in a canonical wrapper that is taken off again without
  a change to the command.
\<close>

section \<open>The canonical wrapper\<close>

definition BASH_PREFIX :: string where
  "BASH_PREFIX = ''```bash'' @ [CHR 0x0A]"

definition BASH_SUFFIX :: string where
  "BASH_SUFFIX = [CHR 0x0A] @ ''```''"

definition canonical_bash :: "pyval \<Rightarrow> string + string" where
  "canonical_bash command =
     (case command of
        PStr s \<Rightarrow>
          if strip s = [] \<or> CHR 0x00 \<in> set s
          then Inl ''Native Bash command must be nonempty text without NUL''
          else Inr (BASH_PREFIX @ s @ BASH_SUFFIX)
      | _ \<Rightarrow> Inl ''Native Bash command must be nonempty text without NUL'')"

text \<open>The command between prefix and suffix; \<^verbatim>\<open>None\<close> for the end of the task.\<close>

definition parse_native_action :: "pyval \<Rightarrow> string + string option" where
  "parse_native_action act =
     (if act = PStr ''DONE'' then Inr None
      else
        (case act of
           PStr s \<Rightarrow>
             if \<not> starts_with BASH_PREFIX s \<or> \<not> ends_with BASH_SUFFIX s
             then Inl ''Native action is missing its exact canonical wrapper''
             else
               (let command = drop (length BASH_PREFIX) (take (length s - length BASH_SUFFIX) s) in
                res_bind (canonical_bash (PStr command)) (\<lambda>t.
                if t \<noteq> s then Inl ''Native action is not canonical'' else Inr (Some command)))
         | _ \<Rightarrow> Inl ''Native action is missing its exact canonical wrapper''))"

section \<open>The history\<close>

text \<open>\<^verbatim>\<open>f"sfx_call_{n:06d}"\<close>\<close>

definition call_alias :: "nat \<Rightarrow> string" where
  "call_alias n = ''sfx_call_'' @ replicate (6 - length (nat_str n)) (CHR ''0'') @ nat_str n"

definition tool_call :: "(rat \<Rightarrow> string) \<Rightarrow> string \<Rightarrow> string \<Rightarrow> pyval" where
  "tool_call fl alias command = PDict
     [(''role'', PStr ''assistant''), (''content'', PNone),
      (''tool_calls'', PList [PDict
        [(''id'', PStr alias), (''type'', PStr ''function''),
         (''function'', PDict
           [(''name'', PStr ''execute_bash''),
            (''arguments'', PStr (json_dumps ((default_style fl)\<lparr>js_ascii := False\<rparr>)
               (PDict [(''command'', PStr command)])))])]])]"

definition tool_output :: "string \<Rightarrow> string \<Rightarrow> pyval" where
  "tool_output alias content =
     PDict [(''role'', PStr ''tool''), (''tool_call_id'', PStr alias), (''content'', PStr content)]"

text \<open>\<open>pending\<close> is the call that waits for its output, \<open>n\<close> counts the calls.\<close>

fun native_messages :: "(rat \<Rightarrow> string) \<Rightarrow> string option \<Rightarrow> nat \<Rightarrow> pyval list \<Rightarrow> string + pyval list" where
  "native_messages fl pending n [] =
     (case pending of None \<Rightarrow> Inr [] | Some _ \<Rightarrow> Inl ''Canonical tool call is missing its output message'')"
| "native_messages fl pending n (message # messages) =
     (case message of
        PDict m \<Rightarrow>
          (case entry m ''content'' of
             PStr content \<Rightarrow>
               (case pending of
                  Some alias \<Rightarrow>
                    if entry m ''role'' \<noteq> PStr ''user'' \<or> \<not> starts_with (''Output:'' @ [CHR 0x0A]) content
                    then Inl ''Canonical tool call is missing its output message''
                    else res_bind (native_messages fl None n messages) (\<lambda>rest. Inr (tool_output alias content # rest))
                | None \<Rightarrow>
                    if entry m ''role'' = PStr ''assistant'' then
                      res_bind (parse_native_action (PStr content)) (\<lambda>action.
                      case action of
                        None \<Rightarrow> Inl ''Native history cannot continue after DONE''
                      | Some command \<Rightarrow>
                          res_bind (native_messages fl (Some (call_alias n)) (Suc n) messages)
                            (\<lambda>rest. Inr (tool_call fl (call_alias n) command # rest)))
                    else if entry m ''role'' \<in> {PStr ''system'', PStr ''user''} then
                      res_bind (native_messages fl None n messages) (\<lambda>rest. Inr (message # rest))
                    else Inl ''Unexpected role in canonical agent history'')
           | _ \<Rightarrow> Inl ''Native transport requires text message history'')
      | _ \<Rightarrow> Inl ''Native transport requires text message history'')"

definition native_bash_messages :: "(rat \<Rightarrow> string) \<Rightarrow> pyval list \<Rightarrow> string + pyval list" where
  "native_bash_messages fl messages = native_messages fl None 0 messages"

section \<open>The call\<close>

text \<open>
  The text of the arguments is read by \<^verbatim>\<open>json.loads\<close> with a hook that refuses a repeated key. The
  model does not tell a repeated key from other malformed text: both end the stream with an error.
\<close>

record native_call =
  nc_id :: string
  nc_name :: string
  nc_arguments :: string

definition canonical_call :: "native_call \<Rightarrow> string + string" where
  "canonical_call call =
     (if nc_id call = [] \<or> nc_name call \<notin> {''execute_bash'', ''finish''}
      then Inl ''Missing native tool ID or unsupported tool name''
      else
        (case json_loads_unique (nc_arguments call) of
           None \<Rightarrow> Inl ''Malformed native tool arguments''
         | Some (PDict arguments) \<Rightarrow>
             if nc_name call = ''finish'' then
               (if set (map fst arguments) \<noteq> {''done''} \<or> entry arguments ''done'' \<noteq> PBool True
                then Inl ''finish requires exactly done=true'' else Inr ''DONE'')
             else if set (map fst arguments) \<noteq> {''command''}
             then Inl ''execute_bash requires exactly the command argument''
             else canonical_bash (entry arguments ''command'')
         | Some _ \<Rightarrow> Inl ''Native tool arguments must be an object''))"

text \<open>A text field of a delta: absent, or text.\<close>

definition delta_text :: "(string, pyval) dict \<Rightarrow> string \<Rightarrow> string + string" where
  "delta_text d field =
     (case entry d field of
        PNone \<Rightarrow> Inr []
      | PStr s \<Rightarrow> Inr s
      | _ \<Rightarrow> Inl (''Native tool '' @ field @ '' delta must be text''))"

definition extend_id :: "native_call \<Rightarrow> pyval \<Rightarrow> string + native_call" where
  "extend_id call identifier =
     (case identifier of
        PNone \<Rightarrow> Inr call
      | PStr s \<Rightarrow>
          if s = [] then Inl ''Native tool ID must be nonempty text''
          else if nc_id call \<noteq> [] \<and> nc_id call \<noteq> s then Inl ''Multiple native tool IDs are not allowed''
          else Inr (call\<lparr>nc_id := s\<rparr>)
      | _ \<Rightarrow> Inl ''Native tool ID must be nonempty text'')"

definition extend_call :: "native_call \<Rightarrow> pyval \<Rightarrow> string + native_call" where
  "extend_call call delta =
     (case delta of
        PDict d \<Rightarrow>
          if entry d ''index'' \<noteq> PInt 0 then Inl ''Expected exactly one native tool call at index zero''
          else if entry d ''type'' \<notin> {PNone, PStr ''function''} then Inl ''Native tool call must have function type''
          else
            res_bind (extend_id call (entry d ''id'')) (\<lambda>call1.
            case get_default d ''function'' (PDict []) of
              PDict f \<Rightarrow>
                res_bind (delta_text f ''name'') (\<lambda>name.
                res_bind (delta_text f ''arguments'') (\<lambda>arguments.
                Inr (call1\<lparr>nc_name := nc_name call1 @ name, nc_arguments := nc_arguments call1 @ arguments\<rparr>)))
            | _ \<Rightarrow> Inl ''Native function delta must be an object'')
      | _ \<Rightarrow> Inl ''Expected exactly one native tool call at index zero'')"

section \<open>The stream\<close>

datatype native_event =
    Chunk_event "string option" "string option" "pyval option"
  | Action_event string "native_call option"
  | Native_usage "(string, pyval) dict"
  | Native_done string

record native_state =
  ns_finish :: "string option"
  ns_content :: string
  ns_call :: "native_call option"

definition native_start :: native_state where
  "native_start = \<lparr>ns_finish = None, ns_content = [], ns_call = None\<rparr>"

definition empty_call :: native_call where
  "empty_call = \<lparr>nc_id = [], nc_name = [], nc_arguments = []\<rparr>"

definition gen_of :: "string + 'a \<Rightarrow> ('e, 'a) gen" where
  "gen_of r = (case r of Inl e \<Rightarrow> gen_fail e | Inr x \<Rightarrow> gen_return x)"

text \<open>\<^verbatim>\<open>delta.get("tool_calls")\<close>: absent, or a list of at most one delta.\<close>

definition tool_delta :: "(string, pyval) dict \<Rightarrow> string + pyval option" where
  "tool_delta delta =
     (case entry delta ''tool_calls'' of
        PNone \<Rightarrow> Inr None
      | PList [] \<Rightarrow> Inr None
      | PList [d] \<Rightarrow> Inr (Some d)
      | _ \<Rightarrow> Inl ''Expected exactly one native tool call'')"

definition add_tool_delta :: "native_call option \<Rightarrow> pyval option \<Rightarrow> string + native_call option" where
  "add_tool_delta call td =
     (case td of
        None \<Rightarrow> Inr call
      | Some d \<Rightarrow>
          res_bind (extend_call (case call of None \<Rightarrow> empty_call | Some c \<Rightarrow> c) d) (\<lambda>c. Inr (Some c)))"

definition native_delta :: "native_state \<Rightarrow> (string, pyval) dict \<Rightarrow> (string, pyval) dict \<Rightarrow>
  (native_event, native_state) gen" where
  "native_delta st choice delta =
     gen_bind (gen_check (entry delta ''function_call'' = PNone) ''Legacy function_call deltas are not supported'') (\<lambda>_.
     gen_bind (check_texts delta) (\<lambda>_.
     let content = entry delta ''content''; reasoning = reasoning_of delta in
     gen_bind (gen_of (tool_delta delta)) (\<lambda>td.
     gen_bind (gen_check (\<not> (ns_finish st \<noteq> None \<and> (py_truthy content \<or> py_truthy reasoning \<or> td \<noteq> None)))
                 ''Data arrived after the finish reason'') (\<lambda>_.
     gen_bind (gen_of (add_tool_delta (ns_call st) td)) (\<lambda>call.
     gen_bind (if content = PNone \<and> reasoning = PNone \<and> td = None then gen_return ()
               else gen_do (Yield (Chunk_event (text_of content) (text_of reasoning) td))) (\<lambda>_.
     gen_bind (next_finish (ns_finish st) choice) (\<lambda>finish.
     gen_return \<lparr>ns_finish = finish,
       ns_content = ns_content st @ (case text_of content of None \<Rightarrow> [] | Some s \<Rightarrow> s), ns_call = call\<rparr>)))))))"

definition native_choice :: "native_state \<Rightarrow> pyval \<Rightarrow> (native_event, native_state) gen" where
  "native_choice st choice =
     (case choice of
        PDict c \<Rightarrow>
          if get_default c ''index'' (PInt 0) \<noteq> PInt 0 then gen_fail ''Unexpected streaming choice index''
          else (case entry c ''delta'' of
                  PDict delta \<Rightarrow> native_delta st c delta
                | _ \<Rightarrow> gen_fail ''Streaming delta must be an object'')
      | _ \<Rightarrow> gen_fail ''Unexpected streaming choice index'')"

definition native_chunk :: "native_state \<Rightarrow> string \<Rightarrow> (native_event, native_state) gen" where
  "native_chunk st data =
     gen_bind (read_chunk (\<lambda>_. None) data) (\<lambda>(choice, used).
     gen_bind (case choice of None \<Rightarrow> gen_return st | Some c \<Rightarrow> native_choice st c) (\<lambda>st1.
     gen_bind (yield_usage Native_usage used) (\<lambda>_. gen_return st1)))"

text \<open>The action of a complete response.\<close>

definition final_action :: "native_state \<Rightarrow> string \<Rightarrow> string + string" where
  "final_action st finish =
     (case ns_call st of
        Some call \<Rightarrow>
          if finish \<noteq> ''tool_calls'' then Inl ''Native tool call is missing tool_calls finish''
          else canonical_call call
      | None \<Rightarrow>
          if finish = ''stop'' \<and> strip (ns_content st) = ''DONE'' then Inr ''DONE''
          else Inl ''Response has no native action or exact DONE final'')"

definition native_end :: "native_state \<Rightarrow> (native_event, unit) gen" where
  "native_end st =
     (case ns_finish st of
        None \<Rightarrow> gen_fail ''SSE [DONE] is missing a finish reason''
      | Some finish \<Rightarrow>
          if finish \<notin> {''stop'', ''tool_calls''} then gen_do (Yield (Native_done finish))
          else
            gen_bind (gen_of (final_action st finish)) (\<lambda>action.
            gen_bind (gen_do (Yield (Action_event action (ns_call st)))) (\<lambda>_.
            gen_do (Yield (Native_done finish)))))"

fun native_loop :: "native_state \<Rightarrow> string list \<Rightarrow> stream_error option \<Rightarrow> (native_event, unit) gen" where
  "native_loop st [] broken =
     (case broken of Some e \<Rightarrow> gen_raise e | None \<Rightarrow> gen_fail ''SSE response ended without [DONE]'')"
| "native_loop st (data # items) broken =
     (if data = ''[DONE]'' then native_end st
      else gen_bind (native_chunk st data) (\<lambda>st1. native_loop st1 items broken))"

definition native_function :: "string \<Rightarrow> string \<Rightarrow> string \<Rightarrow> (string, pyval) dict \<Rightarrow> pyval" where
  "native_function name description field schema = PDict
     [(''type'', PStr ''function''),
      (''function'', PDict
        [(''name'', PStr name), (''description'', PStr description),
         (''parameters'', PDict
           [(''type'', PStr ''object''), (''properties'', PDict [(field, PDict schema)]),
            (''required'', PList [PStr field]), (''additionalProperties'', PBool False)])])]"

definition NATIVE_BASH_TOOLS :: pyval where
  "NATIVE_BASH_TOOLS = PList
     [native_function ''execute_bash'' ''Execute one Bash command in the task workspace.'' ''command''
        [(''type'', PStr ''string''), (''description'', PStr ''The Bash command to execute.'')],
      native_function ''finish'' ''Finish when the task and its submission requirements are complete.'' ''done''
        [(''type'', PStr ''boolean''), (''const'', PBool True)]]"

definition native_payload :: "chat_args \<Rightarrow> pyval list \<Rightarrow> (string, pyval) dict" where
  "native_payload a messages =
     [(''model'', PStr (ca_model a)), (''messages'', PList messages), (''tools'', NATIVE_BASH_TOOLS),
      (''tool_choice'', PStr ''required''), (''parallel_tool_calls'', PBool False),
      (''temperature'', ca_temperature a), (''seed'', ca_seed a), (''max_tokens'', ca_max_tokens a),
      (''stream'', PBool True), (''no_stop_trim'', PBool True),
      (''stream_options'', PDict [(''include_usage'', PBool True)])]"

text \<open>\<^verbatim>\<open>response.raise_for_status()\<close>; what the exception says is not modelled.\<close>

definition raise_for_status :: "http_response \<Rightarrow> ('e, unit) gen" where
  "raise_for_status response =
     (if hr_status response < 400 \<or> 600 \<le> hr_status response then gen_return ()
      else gen_raise (Transport_error ''HTTPError''))"

definition stream_native_bash :: "budget_env \<Rightarrow> post \<Rightarrow> string \<Rightarrow> string \<Rightarrow> chat_args \<Rightarrow> pyval list \<Rightarrow>
  (native_event, unit) gen" where
  "stream_native_bash env post base_url api_key a messages =
     gen_bind (gen_of (native_bash_messages (be_float env) messages)) (\<lambda>converted.
     with_response post (rstrip_slash base_url @ ''/chat/completions'') (auth_headers api_key)
       (native_payload a converted) (\<lambda>response.
     gen_bind (raise_for_status response) (\<lambda>_.
     case response_items env response of (items, broken) \<Rightarrow> native_loop native_start items broken)))"

section \<open>What an action shows\<close>

text \<open>
  C35: the wrapper is exact. A text is read as a command precisely when it is the canonical text of
  that command, so what the shell gets is byte for byte what the model's call named.
\<close>

theorem native_action_roundtrip:
  "parse_native_action (PStr t) = Inr (Some command) \<longleftrightarrow> canonical_bash (PStr command) = Inr t"
proof
  assume "parse_native_action (PStr t) = Inr (Some command)"
  then show "canonical_bash (PStr command) = Inr t"
    by (auto simp: parse_native_action_def Let_def res_bind_Inr_iff split: if_splits)
next
  assume c: "canonical_bash (PStr command) = Inr t"
  then have t: "t = BASH_PREFIX @ command @ BASH_SUFFIX" by (auto simp: canonical_bash_def split: if_splits)
  have "t \<noteq> ''DONE''" unfolding t by (simp add: BASH_PREFIX_def)
  moreover have "starts_with BASH_PREFIX t" unfolding t by (simp add: starts_with_def)
  moreover have "ends_with BASH_SUFFIX t" unfolding t by (simp add: ends_with_def)
  moreover have "drop (length BASH_PREFIX) (take (length t - length BASH_SUFFIX) t) = command" unfolding t by simp
  ultimately show "parse_native_action (PStr t) = Inr (Some command)"
    using c by (simp add: parse_native_action_def)
qed

lemma replayed_call:
  "canonical_call \<lparr>nc_id = call_alias n, nc_name = ''execute_bash'',
     nc_arguments = json_dumps ((default_style fl)\<lparr>js_ascii := False\<rparr>) (PDict [(''command'', PStr command)])\<rparr> =
   canonical_bash (PStr command)"
proof -
  let ?st = "(default_style fl)\<lparr>js_ascii := False\<rparr>"
  have "style_ok ?st" by (simp add: style_ok_def default_style_def)
  moreover have "json_ok (js_ascii ?st) (PDict [(''command'', PStr command)])" by (simp add: text_ok_def)
  ultimately have "json_loads_unique (json_dumps ?st (PDict [(''command'', PStr command)])) = Some (PDict [(''command'', PStr command)])"
    by (rule loads_dumps)
  then show ?thesis by (simp add: canonical_call_def call_alias_def)
qed

lemma final_action_parses: "final_action st finish = Inr action \<Longrightarrow> \<exists>x. parse_native_action (PStr action) = Inr x"
proof -
  assume "final_action st finish = Inr action"
  then have "action = ''DONE'' \<or> (\<exists>v. canonical_bash v = Inr action)"
    by (auto simp: final_action_def canonical_call_def split: option.splits if_splits pyval.splits)
  then show ?thesis
  proof
    assume "action = ''DONE''"
    then show ?thesis by (simp add: parse_native_action_def)
  next
    assume "\<exists>v. canonical_bash v = Inr action"
    then obtain v where v: "canonical_bash v = Inr action" by blast
    then obtain s where "v = PStr s" by (cases v) (simp_all add: canonical_bash_def)
    with v show ?thesis using native_action_roundtrip by blast
  qed
qed

text \<open>The part of the call's arguments that a chunk carries.\<close>

definition tool_argument :: "pyval \<Rightarrow> string" where
  "tool_argument d =
     (case d of
        PDict e \<Rightarrow>
          (case get_default e ''function'' (PDict []) of
             PDict f \<Rightarrow> (case text_of (entry f ''arguments'') of None \<Rightarrow> [] | Some s \<Rightarrow> s)
           | _ \<Rightarrow> [])
      | _ \<Rightarrow> [])"

definition argument_text :: "string \<Rightarrow> string" where
  "argument_text data =
     (case json_loads data of
        Some (PDict chunk) \<Rightarrow>
          (case entry chunk ''choices'' of
             PList [PDict choice] \<Rightarrow>
               (case entry choice ''delta'' of
                  PDict delta \<Rightarrow>
                    (case entry delta ''tool_calls'' of PList [d] \<Rightarrow> tool_argument d | _ \<Rightarrow> [])
                | _ \<Rightarrow> [])
           | _ \<Rightarrow> [])
      | _ \<Rightarrow> [])"

definition call_arguments :: "native_state \<Rightarrow> string" where
  "call_arguments st = (case ns_call st of None \<Rightarrow> [] | Some c \<Rightarrow> nc_arguments c)"

lemma delta_text_Inr: "delta_text d k = Inr s \<Longrightarrow> s = (case text_of (entry d k) of None \<Rightarrow> [] | Some t \<Rightarrow> t)"
  by (auto simp: delta_text_def text_of_def split: pyval.splits)

lemma extend_call_Inr:
  assumes "extend_call call d = Inr c"
  shows "nc_arguments c = nc_arguments call @ tool_argument d"
proof -
  from assms obtain e where d: "d = PDict e" by (cases d) (simp_all add: extend_call_def)
  from assms obtain call1 where c1: "extend_id call (entry e ''id'') = Inr call1"
    and c: "(case get_default e ''function'' (PDict []) of
              PDict f \<Rightarrow>
                res_bind (delta_text f ''name'') (\<lambda>name.
                res_bind (delta_text f ''arguments'') (\<lambda>arguments.
                Inr (call1\<lparr>nc_name := nc_name call1 @ name, nc_arguments := nc_arguments call1 @ arguments\<rparr>)))
            | _ \<Rightarrow> Inl ''Native function delta must be an object'') = Inr c"
    by (auto simp: d extend_call_def res_bind_Inr_iff split: if_splits)
  from c1 have "nc_arguments call1 = nc_arguments call"
    by (auto simp: extend_id_def split: pyval.splits if_splits)
  moreover from c obtain f where f: "get_default e ''function'' (PDict []) = PDict f"
    by (cases "get_default e ''function'' (PDict [])") simp_all
  moreover from c f obtain s where "delta_text f ''arguments'' = Inr s" "nc_arguments c = nc_arguments call1 @ s"
    by (auto simp: res_bind_Inr_iff)
  ultimately show ?thesis using delta_text_Inr by (simp add: d tool_argument_def)
qed

lemma gen_of_Inr: "snd (gen_of r) = Inr x \<longleftrightarrow> r = Inr x"
  by (auto simp: gen_of_def gen_fail_def gen_raise_def gen_return_def split: sum.splits)

lemma gen_check_Inr: "snd (gen_check b m) = Inr x \<longleftrightarrow> b"
  by (auto simp: gen_check_def gen_fail_def gen_raise_def gen_return_def)

lemma add_tool_delta_Inr:
  assumes "tool_delta delta = Inr td" and "add_tool_delta call td = Inr call1"
  shows "(case call1 of None \<Rightarrow> [] | Some c \<Rightarrow> nc_arguments c) = (case call of None \<Rightarrow> [] | Some c \<Rightarrow> nc_arguments c) @
    (case entry delta ''tool_calls'' of PList [d] \<Rightarrow> tool_argument d | _ \<Rightarrow> [])"
proof (cases td)
  case None
  then have "\<nexists>d. entry delta ''tool_calls'' = PList [d]" using assms(1) by (auto simp: tool_delta_def)
  then have "(case entry delta ''tool_calls'' of PList [d] \<Rightarrow> tool_argument d | _ \<Rightarrow> []) = []"
    by (auto split: pyval.splits list.splits)
  then show ?thesis using None assms(2) by (simp add: add_tool_delta_def)
next
  case (Some d)
  then have "entry delta ''tool_calls'' = PList [d]"
    using assms(1) by (auto simp: tool_delta_def split: pyval.splits list.splits)
  moreover from assms(2) Some obtain c where "extend_call (case call of None \<Rightarrow> empty_call | Some c \<Rightarrow> c) d = Inr c" "call1 = Some c"
    by (auto simp: add_tool_delta_def res_bind_Inr_iff)
  ultimately show ?thesis using extend_call_Inr by (cases call) (auto simp: empty_call_def)
qed

lemma native_delta_Inr:
  assumes "snd (native_delta st choice delta) = Inr st1"
  shows "call_arguments st1 = call_arguments st @
    (case entry delta ''tool_calls'' of PList [d] \<Rightarrow> tool_argument d | _ \<Rightarrow> [])"
proof -
  from assms obtain td call finish where td: "tool_delta delta = Inr td" and call: "add_tool_delta (ns_call st) td = Inr call"
    and st1: "st1 = \<lparr>ns_finish = finish,
       ns_content = ns_content st @ (case text_of (entry delta ''content'') of None \<Rightarrow> [] | Some s \<Rightarrow> s), ns_call = call\<rparr>"
    unfolding native_delta_def Let_def
    by (auto dest!: gen_bind_InrD simp: gen_of_Inr) (auto simp: gen_return_def)
  show ?thesis using add_tool_delta_Inr [OF td call] by (simp add: call_arguments_def st1)
qed

lemma native_chunk_Inr:
  assumes "snd (native_chunk st data) = Inr st1"
  shows "call_arguments st1 = call_arguments st @ argument_text data"
proof -
  from gen_bind_InrD [OF assms [unfolded native_chunk_def]] obtain choice u where
    one: "snd (read_chunk (\<lambda>_. None) data :: (native_event, pyval option \<times> pyval) gen) = Inr (choice, u)"
    and two: "snd (gen_bind (case choice of None \<Rightarrow> gen_return st | Some c \<Rightarrow> native_choice st c)
       (\<lambda>st1. gen_bind (yield_usage Native_usage u) (\<lambda>_. gen_return st1))) = Inr st1"
    by auto
  from gen_bind_InrD [OF two] obtain st2 where
    three: "snd (case choice of None \<Rightarrow> gen_return st | Some c \<Rightarrow> native_choice st c) = Inr st2"
    and four: "snd (gen_bind (yield_usage Native_usage u) (\<lambda>_. gen_return st2)) = Inr st1" by auto
  from gen_bind_InrD [OF four] have same: "st1 = st2" by (simp add: gen_return_def)
  show ?thesis
  proof (cases choice)
    case None
    with one have "argument_text data = []"
      by (auto simp: read_chunk_def argument_text_def gen_return_def gen_fail_def gen_raise_def
          split: option.splits pyval.splits if_splits)
    with None three same show ?thesis by (simp add: gen_return_def)
  next
    case (Some c)
    with read_chunk_Inr one obtain chunk where chunk:
      "json_loads data = Some (PDict chunk)" "entry chunk ''choices'' = PList [c]" by blast
    from three Some obtain ch delta where "c = PDict ch" "entry ch ''delta'' = PDict delta"
      "snd (native_delta st ch delta) = Inr st2"
      by (cases c) (auto simp: native_choice_def gen_fail_def gen_raise_def split: if_splits pyval.splits)
    then show ?thesis using native_delta_Inr [of st ch delta st2] chunk same by (simp add: argument_text_def)
  qed
qed

fun is_action :: "native_event \<Rightarrow> bool" where
  "is_action (Action_event a c) = True"
| "is_action _ = False"

lemma never_gen_of [simp]: "never P (gen_of r)"
  by (simp add: gen_of_def split: sum.split)

lemma never_native_delta [simp]: "never is_action (native_delta st choice delta)"
  unfolding native_delta_def Let_def by (intro never_bind) auto

lemma never_native_choice [simp]: "never is_action (native_choice st choice)"
proof (cases choice)
  case (PDict c)
  then show ?thesis by (cases "entry c ''delta''") (simp_all add: native_choice_def)
qed (simp_all add: native_choice_def)

lemma never_native_chunk: "never is_action (native_chunk st data)"
  unfolding native_chunk_def
  by (intro never_bind) (auto intro!: never_bind never_yield_usage split: option.splits)

text \<open>The action of a stream whose items were \<open>pre\<close> up to the end marker.\<close>

definition acted :: "native_state \<Rightarrow> string list \<Rightarrow> string \<Rightarrow> native_call option \<Rightarrow> string \<Rightarrow> bool" where
  "acted st0 pre action call reason \<longleftrightarrow>
     (\<exists>st. call = ns_call st \<and> final_action st reason = Inr action \<and>
        call_arguments st = call_arguments st0 @ concat (map argument_text pre))"

lemma native_end_cases:
  "never is_action (native_end st) \<or>
   (\<exists>action reason. native_end st = ([Yield (Action_event action (ns_call st)), Yield (Native_done reason)], Inr ()) \<and>
      final_action st reason = Inr action)"
proof (cases "ns_finish st")
  case None
  then show ?thesis by (simp add: native_end_def)
next
  case (Some finish)
  show ?thesis
  proof (cases "final_action st finish")
    case (Inl e)
    with Some show ?thesis by (simp add: native_end_def gen_of_def)
  next
    case (Inr action)
    show ?thesis
    proof (cases "finish \<in> {''stop'', ''tool_calls''}")
      case True
      with Some Inr have "native_end st = gen_bind (gen_do (Yield (Action_event action (ns_call st)))) (\<lambda>_.
          gen_do (Yield (Native_done finish)))" by (simp add: native_end_def gen_of_def)
      then have "native_end st = ([Yield (Action_event action (ns_call st)), Yield (Native_done finish)], Inr ())"
        unfolding gen_bind_do by (simp add: gen_do_def)
      with Inr show ?thesis by blast
    next
      case False
      with Some show ?thesis by (simp add: native_end_def)
    qed
  qed
qed

lemma native_loop_cases:
  "never is_action (native_loop st items broken) \<or>
   (\<exists>acts action call reason pre rest.
      native_loop st items broken = (acts @ [Yield (Action_event action call), Yield (Native_done reason)], Inr ()) \<and>
      (\<forall>x y. Yield (Action_event x y) \<notin> set acts) \<and> items = pre @ ''[DONE]'' # rest \<and>
      acted st pre action call reason)"
proof (induction st items broken rule: native_loop.induct)
  case (1 st broken)
  then show ?case by (auto split: option.splits)
next
  case (2 st data items broken)
  show ?case
  proof (cases "data = ''[DONE]''")
    case True
    then have loop: "native_loop st (data # items) broken = native_end st" by simp
    from native_end_cases [of st] show ?thesis
    proof
      assume "never is_action (native_end st)"
      then show ?thesis unfolding loop by simp
    next
      assume "\<exists>action reason. native_end st = ([Yield (Action_event action (ns_call st)), Yield (Native_done reason)], Inr ()) \<and>
        final_action st reason = Inr action"
      then obtain action reason where e: "native_end st = ([] @ [Yield (Action_event action (ns_call st)), Yield (Native_done reason)], Inr ())"
        "final_action st reason = Inr action" by auto
      moreover have "acted st [] action (ns_call st) reason" using e(2) by (auto simp: acted_def)
      moreover have "data # items = [] @ ''[DONE]'' # items" using True by simp
      moreover have "\<forall>x y. Yield (Action_event x y) \<notin> set []" by simp
      ultimately show ?thesis unfolding loop by blast
    qed
  next
    case False
    then have loop: "native_loop st (data # items) broken =
        gen_bind (native_chunk st data) (\<lambda>st1. native_loop st1 items broken)" by simp
    show ?thesis
    proof (cases "snd (native_chunk st data)")
      case (Inl e)
      then show ?thesis unfolding loop using never_native_chunk [of st data] by (auto intro!: never_bind)
    next
      case (Inr st1)
      from "2.IH" [OF False, of st1] show ?thesis
      proof
        assume "never is_action (native_loop st1 items broken)"
        then show ?thesis unfolding loop using Inr never_native_chunk [of st data] by (auto intro!: never_bind)
      next
        assume "\<exists>acts action call reason pre rest.
          native_loop st1 items broken = (acts @ [Yield (Action_event action call), Yield (Native_done reason)], Inr ()) \<and>
          (\<forall>x y. Yield (Action_event x y) \<notin> set acts) \<and> items = pre @ ''[DONE]'' # rest \<and> acted st1 pre action call reason"
        then obtain acts action call reason pre rest where
          l: "native_loop st1 items broken = (acts @ [Yield (Action_event action call), Yield (Native_done reason)], Inr ())"
          and q: "\<forall>x y. Yield (Action_event x y) \<notin> set acts" and items: "items = pre @ ''[DONE]'' # rest"
          and a: "acted st1 pre action call reason" by blast
        let ?acts = "fst (native_chunk st data) @ acts"
        have "native_loop st (data # items) broken =
            (?acts @ [Yield (Action_event action call), Yield (Native_done reason)], Inr ())"
          unfolding loop using Inr l by (intro prod_eqI) (simp_all add: fst_gen_bind snd_gen_bind)
        moreover have "\<forall>x y. Yield (Action_event x y) \<notin> set ?acts"
          using q never_native_chunk [of st data] by (auto simp: never_def)
        moreover have "data # items = (data # pre) @ ''[DONE]'' # rest" using items by simp
        moreover have "acted st (data # pre) action call reason"
          using a native_chunk_Inr [OF Inr] by (auto simp: acted_def)
        ultimately show ?thesis by blast
      qed
    qed
  qed
qed

text \<open>
  C36: no command runs that the model did not finish. A stream that yields an action yields one,
  last but for the terminal event, and ends without an error; the response reached its end marker,
  and a command is the validated call whose arguments are all the argument pieces of the response
  in order. A truncated or failed stream yields no action, even if the arguments were complete.
\<close>

theorem native_action_is_complete:
  assumes "stream_native_bash env post base_url api_key a messages = (acts, r)"
    and "Yield (Action_event action call) \<in> set acts"
  shows "r = Inr () \<and> (\<exists>x. parse_native_action (PStr action) = Inr x) \<and>
    (\<exists>before reason url headers payload response pre rest.
       acts = before @ [Yield (Action_event action call), Yield (Native_done reason), Closed] \<and>
       (\<forall>x y. Yield (Action_event x y) \<notin> set before) \<and>
       Post url headers payload \<in> set before \<and> post url headers payload = Inr response \<and>
       fst (response_items env response) = pre @ ''[DONE]'' # rest \<and>
       (case call of
          None \<Rightarrow> reason = ''stop'' \<and> action = ''DONE''
        | Some c \<Rightarrow> reason = ''tool_calls'' \<and> canonical_call c = Inr action \<and>
            nc_arguments c = concat (map argument_text pre)))"
proof -
  let ?url = "rstrip_slash base_url @ ''/chat/completions''"
  have not_fail: "stream_native_bash env post base_url api_key a messages \<noteq> ([], Inl e)" for e
    using assms by auto
  obtain converted where conv: "native_bash_messages (be_float env) messages = Inr converted"
  proof (cases "native_bash_messages (be_float env) messages")
    case (Inl e)
    then have "stream_native_bash env post base_url api_key a messages = gen_fail e"
      by (simp add: stream_native_bash_def gen_of_def)
    then show ?thesis using not_fail by (simp add: gen_fail_def gen_raise_def)
  qed
  let ?payload = "native_payload a converted"
  have run: "(acts, r) = with_response post ?url (auth_headers api_key) ?payload (\<lambda>response.
      gen_bind (raise_for_status response) (\<lambda>_.
      case response_items env response of (items, broken) \<Rightarrow> native_loop native_start items broken))"
    using assms(1) by (simp add: stream_native_bash_def conv gen_of_def)
  obtain response where response: "post ?url (auth_headers api_key) ?payload = Inr response"
    using run assms(2) by (cases "post ?url (auth_headers api_key) ?payload")
      (auto simp: with_response_def gen_bind_do gen_raise_def)
  obtain items broken where items: "response_items env response = (items, broken)" by fastforce
  have body: "(acts, r) = (Post ?url (auth_headers api_key) ?payload #
      fst (gen_bind (raise_for_status response) (\<lambda>_. native_loop native_start items broken)) @ [Closed],
      snd (gen_bind (raise_for_status response) (\<lambda>_. native_loop native_start items broken)))"
    using run by (simp add: with_response_def gen_bind_do response closing_eq items)
  have ok: "raise_for_status response = (gen_return () :: (native_event, unit) gen)"
  proof (rule ccontr)
    assume "raise_for_status response \<noteq> (gen_return () :: (native_event, unit) gen)"
    then have "raise_for_status response = (gen_raise (Transport_error ''HTTPError'') :: (native_event, unit) gen)"
      by (auto simp: raise_for_status_def split: if_splits)
    with body have "acts = Post ?url (auth_headers api_key) ?payload #
        fst (gen_raise (Transport_error ''HTTPError'') :: (native_event, unit) gen) @ [Closed]" by simp
    with assms(2) show False by (simp add: gen_raise_def)
  qed
  have acts: "acts = Post ?url (auth_headers api_key) ?payload # fst (native_loop native_start items broken) @ [Closed]"
    and r: "r = snd (native_loop native_start items broken)"
    using body by (simp_all add: ok)
  have "\<not> never is_action (native_loop native_start items broken)"
    using assms(2) unfolding acts never_def by auto
  with native_loop_cases [of native_start items broken] obtain before action1 call1 reason pre rest where
    l: "native_loop native_start items broken = (before @ [Yield (Action_event action1 call1), Yield (Native_done reason)], Inr ())"
    and q: "\<forall>x y. Yield (Action_event x y) \<notin> set before" and pre: "items = pre @ ''[DONE]'' # rest"
    and acted: "acted native_start pre action1 call1 reason" by blast
  from assms(2) q have same: "action1 = action" "call1 = call" unfolding acts l by auto
  from acted [unfolded same] obtain st where st: "call = ns_call st" "final_action st reason = Inr action"
    "call_arguments st = concat (map argument_text pre)"
    by (auto simp: acted_def native_start_def call_arguments_def)
  let ?before = "Post ?url (auth_headers api_key) ?payload # before"
  have 1: "acts = ?before @ [Yield (Action_event action call), Yield (Native_done reason), Closed]"
    unfolding acts l same by simp
  have 2: "\<forall>x y. Yield (Action_event x y) \<notin> set ?before" using q by simp
  have 3: "Post ?url (auth_headers api_key) ?payload \<in> set ?before" by simp
  have 4: "fst (response_items env response) = pre @ ''[DONE]'' # rest" using items pre by simp
  have 5: "case call of None \<Rightarrow> reason = ''stop'' \<and> action = ''DONE''
      | Some c \<Rightarrow> reason = ''tool_calls'' \<and> canonical_call c = Inr action \<and> nc_arguments c = concat (map argument_text pre)"
    using st by (auto simp: final_action_def call_arguments_def split: option.splits if_splits)
  have "r = Inr ()" unfolding r l by simp
  moreover note final_action_parses [OF st(2)]
  ultimately show ?thesis using 1 2 3 response 4 5 by blast
qed

definition tool_env :: budget_env where
  "tool_env = \<lparr>be_sha256 = \<lambda>s. s, be_float = \<lambda>_. ''0.5'', be_ip_is_loopback = \<lambda>_. None\<rparr>"

definition tool_args :: chat_args where
  "tool_args = \<lparr>ca_model = ''m'', ca_messages = PNone, ca_temperature = PInt 0, ca_seed = PInt 0,
     ca_max_tokens = PInt 64, ca_context_budget = PNone\<rparr>"

definition tool_chunk :: "(string \<times> pyval) list \<Rightarrow> string \<Rightarrow> pyval \<Rightarrow> sse_line" where
  "tool_chunk head arguments finish = Text (''data: '' @ json_dumps (default_style (\<lambda>_. [])) (PDict
     [(''choices'', PList [PDict
        [(''delta'', PDict [(''tool_calls'', PList [PDict ([(''index'', PInt 0)] @ head @
           [(''function'', PDict [(''name'', if head = [] then PNone else PStr ''execute_bash''), (''arguments'', PStr arguments)])])])]),
         (''finish_reason'', finish)]])]))"

definition tool_post :: post where
  "tool_post url headers payload = Inr \<lparr>hr_status = 200, hr_chunks = [], hr_chunks_fail = False, hr_json = None,
     hr_lines = [tool_chunk [(''id'', PStr ''c1'')] (''{'' @ [CHR 0x22] @ ''comm'') PNone, Text [],
                 tool_chunk [] (''and'' @ [CHR 0x22] @ '': '' @ [CHR 0x22] @ ''ls -l'' @ [CHR 0x22] @ ''}'') (PStr ''tool_calls''), Text [],
                 Text ''data: [DONE]'', Text []],
     hr_broken = None\<rparr>"

lemma tool_stream:
  "snd (stream_native_bash tool_env tool_post ''http://h/v1'' ''k'' tool_args []) = Inr ()"
  "\<exists>call. Yield (Action_event (BASH_PREFIX @ ''ls -l'' @ BASH_SUFFIX) (Some call))
     \<in> set (fst (stream_native_bash tool_env tool_post ''http://h/v1'' ''k'' tool_args []))"
proof -
  show "snd (stream_native_bash tool_env tool_post ''http://h/v1'' ''k'' tool_args []) = Inr ()" by code_simp
  have "Yield (Action_event (BASH_PREFIX @ ''ls -l'' @ BASH_SUFFIX) (Some \<lparr>nc_id = ''c1'', nc_name = ''execute_bash'',
      nc_arguments = ''{'' @ [CHR 0x22] @ ''command'' @ [CHR 0x22] @ '': '' @ [CHR 0x22] @ ''ls -l'' @ [CHR 0x22] @ ''}''\<rparr>))
     \<in> set (fst (stream_native_bash tool_env tool_post ''http://h/v1'' ''k'' tool_args []))" by code_simp
  then show "\<exists>call. Yield (Action_event (BASH_PREFIX @ ''ls -l'' @ BASH_SUFFIX) (Some call))
     \<in> set (fst (stream_native_bash tool_env tool_post ''http://h/v1'' ''k'' tool_args []))" by blast
qed

theorem native_action_is_complete_witness:
  "parse_native_action (PStr (BASH_PREFIX @ ''ls -l'' @ BASH_SUFFIX)) = Inr (Some ''ls -l'') \<and>
   (\<exists>call. canonical_call call = Inr (BASH_PREFIX @ ''ls -l'' @ BASH_SUFFIX))"
proof -
  obtain call where "Yield (Action_event (BASH_PREFIX @ ''ls -l'' @ BASH_SUFFIX) (Some call))
     \<in> set (fst (stream_native_bash tool_env tool_post ''http://h/v1'' ''k'' tool_args []))" using tool_stream(2) by blast
  from native_action_is_complete [OF prod.collapse [symmetric] this]
  have "canonical_call call = Inr (BASH_PREFIX @ ''ls -l'' @ BASH_SUFFIX)" by auto
  moreover have "parse_native_action (PStr (BASH_PREFIX @ ''ls -l'' @ BASH_SUFFIX)) = Inr (Some ''ls -l'')" by code_simp
  ultimately show ?thesis by blast
qed

end
