(* ===== verification/Spec_Worker.thy ===== *)
theory Spec_Worker
  imports Speculation Token_Budget
begin

text \<open>
  eval/spec_worker.py: one speculative job inside the task container. The messages between the
  broker and the worker are checked field by field (\<open>validate_request\<close>, \<open>validate_settings\<close>,
  \<open>valid_response\<close>); \<open>process\<close> runs the job through the guards of \<open>Speculation\<close> and turns every
  failure into one of four categories.
\<close>

section \<open>Messages\<close>

definition MAX_MESSAGE_BYTES :: int where
  "MAX_MESSAGE_BYTES = 8 * 1024 * 1024"

definition KINDS :: "string list" where
  "KINDS = [''read'', ''grep'', ''search'', ''test'', ''lint'', ''typecheck'', ''build'', ''run'']"

definition ADMISSION_TYPES :: "string list" where
  "ADMISSION_TYPES = [''PinnedScriptRequiresFork'', ''ScriptInvocationRejected'', ''ScriptSourceMismatch'']"

definition PREEXEC_DECLINES :: "string list" where
  "PREEXEC_DECLINES =
     [''resolved command is not eligible for speculative execution'',
      ''fork command contains unsupported shell syntax'',
      ''fork command is not a literal invocation'',
      ''fork command exposes its working directory'',
      ''fork command can depend on filesystem metadata not preserved by a copy'',
      ''fork command may follow symlinks'',
      ''fork command contains an unsupported path option'',
      ''fork command contains an unsupported pytest selector'',
      ''fork command path leaves the working tree'',
      ''fork command path contains a symlink'',
      ''contract fork contains aliases'',
      ''declared proot path view is unavailable'',
      ''invalid fork bind path'']"

text \<open>What a job can raise: the two classes of this module, and what the guards and the run raise.\<close>

datatype worker_fault =
    Protocol_violation string
  | Non_reusable
  | Guarded guard_error

definition text_value :: "pyval \<Rightarrow> string option" where
  "text_value v = (case v of PStr s \<Rightarrow> Some s | _ \<Rightarrow> None)"

text \<open>The text of a path in its normal form; a double slash at the start is refused before.\<close>

definition posix_text :: "string \<Rightarrow> string" where
  "posix_text s = ''/'' @ join_with ''/'' (posix_parts s)"

definition absolute_path :: "pyval \<Rightarrow> worker_fault + string" where
  "absolute_path v =
     (case v of
        PStr s \<Rightarrow>
          if s = [] \<or> CHR 0x00 \<in> set s \<or> \<not> posix_absolute s \<or> starts_with ''//'' s \<or> ''..'' \<in> set (posix_parts s)
             \<or> posix_text s \<noteq> s
          then Inl (Protocol_violation ''invalid absolute path'') else Inr s
      | _ \<Rightarrow> Inl (Protocol_violation ''invalid absolute path''))"

definition message_fields :: "pyval \<Rightarrow> string list \<Rightarrow> worker_fault + (string, pyval) dict" where
  "message_fields v expected =
     (case v of
        PDict d \<Rightarrow> if set (map fst d) \<noteq> set expected then Inl (Protocol_violation ''invalid message fields'') else Inr d
      | _ \<Rightarrow> Inl (Protocol_violation ''invalid message fields''))"

text \<open>The kind and the command of an invocation. A lone surrogate cannot be encoded.\<close>

definition invocation_of :: "pyval \<Rightarrow> pyval \<Rightarrow> worker_fault + string \<times> string" where
  "invocation_of kind args =
     res_bind (message_fields args [''cmd'']) (\<lambda>d.
     case (text_value kind, text_value (entry d ''cmd'')) of
       (Some k, Some cmd) \<Rightarrow>
         if k \<notin> set KINDS \<or> cmd = [] \<or> CHR 0x00 \<in> set cmd then Inl (Protocol_violation ''invalid invocation'')
         else if encode_replace cmd \<noteq> cmd
         then Inl (Guarded (Other_error (ValueError ''surrogates not allowed'')))
         else if MAX_MESSAGE_BYTES div 4 < int (length cmd) then Inl (Protocol_violation ''invalid invocation'')
         else Inr (k, cmd)
     | _ \<Rightarrow> Inl (Protocol_violation ''invalid invocation''))"

datatype spec_request =
    Run_request string string
  | Fork_request string string string

text \<open>Whether a path lies strictly below another.\<close>

definition strictly_below :: "string \<Rightarrow> string \<Rightarrow> bool" where
  "strictly_below base path \<longleftrightarrow> parts_below (posix_parts base) (posix_parts path) \<notin> {None, Some []}"

definition hop_of :: "pyval \<Rightarrow> (pyval \<times> pyval) option" where
  "hop_of v =
     (case (case v of PList xs \<Rightarrow> xs | PTuple xs \<Rightarrow> xs | _ \<Rightarrow> []) of
        [kind, verb, args] \<Rightarrow> if verb \<noteq> PStr ''free'' then None else Some (kind, args)
      | _ \<Rightarrow> None)"

definition validate_request :: "pyval \<Rightarrow> pyval \<Rightarrow> worker_fault + spec_request" where
  "validate_request request scratch =
     (case request of
        PDict r \<Rightarrow>
          if entry r ''op'' = PStr ''run'' then
            res_bind (message_fields request [''op'', ''kind'', ''args'']) (\<lambda>_.
            res_bind (invocation_of (entry r ''kind'') (entry r ''args'')) (\<lambda>(kind, cmd).
            Inr (Run_request kind cmd)))
          else if entry r ''op'' = PStr ''run_in_fork'' then
            res_bind (message_fields request [''op'', ''path'', ''hop'']) (\<lambda>_.
            res_bind (absolute_path (entry r ''path'')) (\<lambda>path.
            res_bind (absolute_path scratch) (\<lambda>base.
            if \<not> strictly_below base path then Inl (Protocol_violation ''fork path is outside owned scratch'')
            else
              (case hop_of (entry r ''hop'') of
                 None \<Rightarrow> Inl (Protocol_violation ''invalid hop'')
               | Some (k, a) \<Rightarrow>
                   res_bind (invocation_of k a) (\<lambda>(kind, cmd). Inr (Fork_request path kind cmd))))))
          else Inl (Protocol_violation ''unknown operation'')
      | _ \<Rightarrow> Inl (Protocol_violation ''invalid request''))"

record settings =
  st_repo :: string
  st_scratch :: string
  st_script_contracts :: pyval
  st_fork_path_view :: string

definition overlap :: "string \<Rightarrow> string \<Rightarrow> bool" where
  "overlap a b \<longleftrightarrow> posix_parts a = [] \<or> posix_parts b = [] \<or>
     parts_below (posix_parts a) (posix_parts b) \<noteq> None \<or> parts_below (posix_parts b) (posix_parts a) \<noteq> None"

definition validate_settings :: "pyval \<Rightarrow> worker_fault + settings" where
  "validate_settings v =
     res_bind (message_fields v [''repo'', ''scratch'', ''script_contracts'', ''fork_path_view'']) (\<lambda>d.
     res_bind (absolute_path (entry d ''repo'')) (\<lambda>repo.
     res_bind (absolute_path (entry d ''scratch'')) (\<lambda>scratch.
     if overlap repo scratch then Inl (Protocol_violation ''scratch must be outside the repository'')
     else
       (case text_value (entry d ''fork_path_view'') of
          None \<Rightarrow> Inl (Protocol_violation ''invalid path view'')
        | Some view \<Rightarrow>
            if view \<notin> {''cwd'', ''proot''} then Inl (Protocol_violation ''invalid path view'')
            else
              (case script_contracts (entry d ''script_contracts'') of
                 Inl e \<Rightarrow> Inl (Guarded (Other_error e))
               | Inr _ \<Rightarrow> Inr \<lparr>st_repo = repo, st_scratch = scratch,
                   st_script_contracts = entry d ''script_contracts'', st_fork_path_view = view\<rparr>)))))"

text \<open>\<^verbatim>\<open>strict_loads\<close> refuses repeated keys, numbers that are not finite and long messages.\<close>

definition strict_loads :: "string \<Rightarrow> worker_fault + pyval" where
  "strict_loads data =
     (if MAX_MESSAGE_BYTES < int (length data) then Inl (Protocol_violation ''message too large'')
      else (case json_loads_unique data of
              None \<Rightarrow> Inl (Protocol_violation ''invalid JSON'') | Some v \<Rightarrow> Inr v))"

section \<open>Responses\<close>

definition failure :: "string \<Rightarrow> string \<Rightarrow> pyval" where
  "failure category type = PDict
     [(''ok'', PBool False), (''error'', PDict [(''category'', PStr category), (''type'', PStr type)])]"

definition success :: "pyval \<Rightarrow> pyval" where
  "success result = PDict [(''ok'', PBool True), (''result'', result)]"

definition valid_error :: "pyval \<Rightarrow> bool" where
  "valid_error v \<longleftrightarrow>
     (case message_fields v [''category'', ''type''] of
        Inl _ \<Rightarrow> False
      | Inr e \<Rightarrow>
          (entry e ''category'' = PStr ''admission'' \<and> entry e ''type'' \<in> PStr ` set (''SpeculationDeclined'' # ADMISSION_TYPES)) \<or>
          (entry e ''category'' = PStr ''non_reusable'' \<and> entry e ''type'' = PStr ''NonReusableToolOutput'') \<or>
          (entry e ''category'' = PStr ''worker'' \<and> entry e ''type'' = PStr ''WorkerFailure'') \<or>
          (entry e ''category'' = PStr ''protocol'' \<and> entry e ''type'' = PStr ''ProtocolViolation''))"

definition valid_output :: "pyval \<Rightarrow> bool" where
  "valid_output v \<longleftrightarrow>
     (case (case v of PList xs \<Rightarrow> xs | PTuple xs \<Rightarrow> xs | _ \<Rightarrow> []) of
        [a, b, c] \<Rightarrow> text_value a \<noteq> None \<and> b = PStr [] \<and> int_of c \<noteq> None
      | _ \<Rightarrow> False)"

definition valid_duration :: "pyval \<Rightarrow> bool" where
  "valid_duration v \<longleftrightarrow> (case v of PInt i \<Rightarrow> 0 \<le> i | PFloat x \<Rightarrow> 0 \<le> x | _ \<Rightarrow> False)"

definition valid_result :: "string \<Rightarrow> pyval \<Rightarrow> bool" where
  "valid_result operation v \<longleftrightarrow>
     (case message_fields v (if operation = ''run'' then [''output'', ''duration_ms''] else [''output'', ''status'']) of
        Inl _ \<Rightarrow> False
      | Inr r \<Rightarrow>
          valid_output (entry r ''output'') \<and>
          (if operation = ''run'' then valid_duration (entry r ''duration_ms'')
           else entry r ''status'' \<in> PStr ` set [''OK'', ''ERR'', ''PASS'', ''FAIL'']))"

definition is_ok :: "pyval \<Rightarrow> bool" where
  "is_ok v \<longleftrightarrow> (case v of PDict d \<Rightarrow> entry d ''ok'' = PBool True | _ \<Rightarrow> False)"

definition valid_response :: "pyval \<Rightarrow> string \<Rightarrow> bool" where
  "valid_response response operation \<longleftrightarrow>
     (case response of
        PDict d \<Rightarrow>
          (case entry d ''ok'' of
             PBool False \<Rightarrow> set (map fst d) = {''ok'', ''error''} \<and> valid_error (entry d ''error'')
           | PBool True \<Rightarrow> set (map fst d) = {''ok'', ''result''} \<and> valid_result operation (entry d ''result'')
           | _ \<Rightarrow> False)
      | _ \<Rightarrow> False)"

section \<open>The job\<close>

text \<open>
  What the worker runs in: the process environment and files (\<open>guard_env\<close>), the shell, the scratch
  directory as the guards see it, the context manager of a fork, the scratch directory's inode when
  it is a real directory, and the time a run takes.
\<close>

type_synonym with_handle =
  "string \<Rightarrow> (inum \<Rightarrow> string \<Rightarrow> string \<Rightarrow> fs \<Rightarrow> (guard_error + drained) \<times> fs) \<Rightarrow> fs \<Rightarrow> (guard_error + drained) \<times> fs"

record worker_host =
  wh_guard :: guard_env
  wh_shell :: shell_env
  wh_view :: "scratch_view option"
  wh_with_handle :: with_handle
  wh_scratch :: "inum option"
  wh_duration :: rat
  wh_float :: "rat \<Rightarrow> string"

text \<open>A fork's path names a directory below scratch through real directories only.\<close>

definition private_fork_path :: "fs \<Rightarrow> inum option \<Rightarrow> string \<Rightarrow> string \<Rightarrow> worker_fault + inum" where
  "private_fork_path f scratch_dir scratch path =
     (case (scratch_dir, parts_below (posix_parts scratch) (posix_parts path)) of
        (Some d, Some parts) \<Rightarrow>
          if has_link f d parts then Inl (Protocol_violation ''fork path contains an alias'')
          else
            (case walk f d parts of
               None \<Rightarrow> Inl (Guarded (Other_error (OSError ''No such file or directory'')))
             | Some i \<Rightarrow>
                 if parts = [] \<or> \<not> is_dir f i then Inl (Protocol_violation ''fork path is not an owned directory'')
                 else Inr i)
      | _ \<Rightarrow> Inl (Protocol_violation ''invalid scratch directory''))"

text \<open>\<^verbatim>\<open>os.environ\<close> inside \<^verbatim>\<open>_configured\<close>.\<close>

definition configured :: "(rat \<Rightarrow> string) \<Rightarrow> settings \<Rightarrow> guard_env \<Rightarrow> guard_env" where
  "configured fl st env = env\<lparr>ge_environ := fold (\<lambda>(k, v). dict_set k v)
     [(''SFX_REPO'', st_repo st), (''SFX_SCRATCH'', st_scratch st),
      (''SFX_SCRIPT_CONTRACTS'', json_dumps (default_style fl) (st_script_contracts st)),
      (''SFX_FORK_PATH_VIEW'', st_fork_path_view st), (''SFX_SEPARATE_STDERR'', ''1'')] (ge_environ env)\<rparr>"

definition harbor_output :: "drained \<Rightarrow> worker_fault + pyval" where
  "harbor_output d =
     (case dr_err d of
        None \<Rightarrow> Inl (Protocol_violation ''invalid separate tool result'')
      | Some err \<Rightarrow>
          if err \<noteq> [] then Inl Non_reusable
          else Inr (PList [PStr (dr_out d), PStr err, PInt (dr_code d)]))"

definition run_job :: "worker_host \<Rightarrow> settings \<Rightarrow> spec_request \<Rightarrow> fs \<Rightarrow> (worker_fault + (string, pyval) dict) \<times> fs" where
  "run_job host st request f =
     (let tool_env = Some (ge_environ (wh_guard host));
          env = configured (wh_float host) st (wh_guard host);
          shell = (wh_shell host)\<lparr>se_shell := Some ''/bin/bash''\<rparr>
      in case request of
           Run_request kind cmd \<Rightarrow>
             (case run_real env shell tool_env (wh_view host) (wh_with_handle host) kind [(''cmd'', PStr cmd)] f of
                (Inl e, f1) \<Rightarrow> (Inl (Guarded e), f1)
              | (Inr d, f1) \<Rightarrow>
                  (res_bind (harbor_output d) (\<lambda>output.
                   Inr [(''output'', output), (''duration_ms'', PFloat (wh_duration host))]), f1))
         | Fork_request path kind cmd \<Rightarrow>
             (case private_fork_path f (wh_scratch host) (st_scratch st) path of
                Inl e \<Rightarrow> (Inl e, f)
              | Inr d \<Rightarrow>
                  (case run_in_fork env shell tool_env d path kind [(''cmd'', PStr cmd)] f of
                     (Inl e, f1) \<Rightarrow> (Inl (Guarded e), f1)
                   | (Inr (result, status), f1) \<Rightarrow>
                       (res_bind (harbor_output result) (\<lambda>output.
                        Inr [(''output'', output), (''status'', PStr status)]), f1))))"

definition decline :: "string \<Rightarrow> pyval" where
  "decline message =
     (if message \<in> set PREEXEC_DECLINES then failure ''admission'' ''SpeculationDeclined''
      else failure ''worker'' ''WorkerFailure'')"

definition fault_response :: "worker_fault \<Rightarrow> pyval" where
  "fault_response e =
     (case e of
        Protocol_violation m \<Rightarrow> failure ''protocol'' ''ProtocolViolation''
      | Non_reusable \<Rightarrow> failure ''non_reusable'' ''NonReusableToolOutput''
      | Guarded g \<Rightarrow>
          (case g of
             ScriptInvocationRejected m \<Rightarrow> failure ''admission'' ''ScriptInvocationRejected''
           | ScriptSourceMismatch m \<Rightarrow> failure ''admission'' ''ScriptSourceMismatch''
           | PinnedScriptRequiresFork m \<Rightarrow> failure ''admission'' ''PinnedScriptRequiresFork''
           | Rejected m \<Rightarrow> decline m
           | Other_error p \<Rightarrow>
               (case p of ValueError m \<Rightarrow> decline m | _ \<Rightarrow> failure ''worker'' ''WorkerFailure'')))"

definition operation_of :: "spec_request \<Rightarrow> string" where
  "operation_of request = (case request of Run_request _ _ \<Rightarrow> ''run'' | Fork_request _ _ _ \<Rightarrow> ''run_in_fork'')"

definition admit_job :: "pyval \<Rightarrow> worker_fault + settings \<times> spec_request" where
  "admit_job payload =
     res_bind (message_fields payload [''request'', ''settings'']) (\<lambda>d.
     res_bind (validate_settings (entry d ''settings'')) (\<lambda>st.
     res_bind (validate_request (entry d ''request'') (PStr (st_scratch st))) (\<lambda>request.
     Inr (st, request))))"

definition process :: "worker_host \<Rightarrow> pyval \<Rightarrow> fs \<Rightarrow> pyval \<times> fs" where
  "process host payload f =
     (case admit_job payload of
        Inl e \<Rightarrow> (fault_response e, f)
      | Inr (st, request) \<Rightarrow>
          (case run_job host st request f of
             (Inl e, f1) \<Rightarrow> (fault_response e, f1)
           | (Inr result, f1) \<Rightarrow>
               (let response = success (PDict result)
                in if valid_response response (operation_of request) then response
                   else fault_response (Protocol_violation ''invalid result''), f1)))"

text \<open>The argument is base64 text; the answer is one line of JSON, shortened if it is too long.\<close>

definition answer_line :: "worker_host \<Rightarrow> pyval \<Rightarrow> string" where
  "answer_line host response =
     (let encoded = json_dumps (compact_style (wh_float host)) response
      in if MAX_MESSAGE_BYTES < int (length encoded)
         then json_dumps (compact_style (wh_float host)) (failure ''worker'' ''WorkerFailure'')
         else encoded)"

definition worker_main :: "(string \<Rightarrow> string option) \<Rightarrow> worker_host \<Rightarrow> string list \<Rightarrow> fs \<Rightarrow> string \<times> fs" where
  "worker_main b64decode host argv f =
     (let violation = failure ''protocol'' ''ProtocolViolation''
      in case argv of
           [a] \<Rightarrow>
             if MAX_MESSAGE_BYTES * 2 < int (length a) then (answer_line host violation, f)
             else
               (case b64decode a of
                  None \<Rightarrow> (answer_line host violation, f)
                | Some data \<Rightarrow>
                    (case strict_loads data of
                       Inl _ \<Rightarrow> (answer_line host violation, f)
                     | Inr payload \<Rightarrow>
                         (case process host payload f of (response, f1) \<Rightarrow> (answer_line host response, f1))))
         | _ \<Rightarrow> (answer_line host violation, f))"

section \<open>What a response shows\<close>

lemma valid_failure [simp]:
  "valid_response (failure ''protocol'' ''ProtocolViolation'') operation"
  "valid_response (failure ''non_reusable'' ''NonReusableToolOutput'') operation"
  "valid_response (failure ''worker'' ''WorkerFailure'') operation"
  "valid_response (failure ''admission'' ''SpeculationDeclined'') operation"
  "t \<in> set ADMISSION_TYPES \<Longrightarrow> valid_response (failure ''admission'' t) operation"
  by (auto simp: valid_response_def failure_def valid_error_def message_fields_def)

lemma valid_fault: "valid_response (fault_response e) operation"
  by (auto simp: fault_response_def decline_def ADMISSION_TYPES_def
      split: worker_fault.splits guard_error.splits py_error.splits)

text \<open>
  C37: whatever payload the worker gets and whatever the job does, its answer has the form the broker
  checks for the requested operation: a complete result, or a failure of one of the four categories.
\<close>

theorem worker_response_valid:
  "valid_response (fst (process host payload f))
     (case admit_job payload of Inl e \<Rightarrow> operation | Inr (st, request) \<Rightarrow> operation_of request)"
proof (cases "admit_job payload")
  case (Inl e)
  then show ?thesis by (simp add: process_def valid_fault)
next
  case (Inr p)
  obtain st request where p: "p = (st, request)" by (cases p)
  obtain r f1 where job: "run_job host st request f = (r, f1)" by fastforce
  show ?thesis using Inr job by (cases r) (simp_all add: p process_def valid_fault Let_def)
qed

lemma fault_admission:
  assumes "fault_response e = failure ''admission'' t"
  shows "\<exists>g. e = Guarded g \<and>
    (\<forall>m. g = Rejected m \<or> g = Other_error (ValueError m) \<longrightarrow> m \<in> set PREEXEC_DECLINES) \<and>
    (\<forall>p. g = Other_error p \<longrightarrow> (\<exists>m. p = ValueError m))"
  using assms by (auto simp: fault_response_def failure_def decline_def
      split: worker_fault.splits guard_error.splits py_error.splits if_splits)

text \<open>Taking a snapshot fails with other texts than those of a declined command.\<close>

lemma fold_res_error: "fold_res g xs s = Inl e \<Longrightarrow> \<exists>x \<in> set xs. \<exists>t. g x t = Inl e"
proof (induction xs arbitrary: s)
  case (Cons x xs)
  then show ?case by (cases "g x s") auto
qed simp

lemma visit_error: "visit n sha f rel d snap = Inl e \<Longrightarrow> e = OSError ''too deep'' \<or> e = ValueError ''unsupported workspace entry''"
proof (induction n arbitrary: rel d snap e)
  case 0
  then show ?case by simp
next
  case (Suc n)
  let ?g = "\<lambda>(name, i) (parts, hardlinks).
       if name = ''.git'' then Inr (parts, hardlinks)
       else let path = as_posix (rel @ [name]) in
         case inode_at f i of
           Some (SymLink target) \<Rightarrow> Inr (parts @ [Snap_link path target], hardlinks)
         | Some (Directory es) \<Rightarrow> visit n sha f (rel @ [name]) i (parts @ [Snap_dir path], hardlinks)
         | Some (RegFile contents mode) \<Rightarrow>
             let linked_to = dict_get_default hardlinks i path
             in Inr (parts @ [Snap_file path mode (sha contents) linked_to], dict_set i linked_to hardlinks)
         | _ \<Rightarrow> Inl (ValueError ''unsupported workspace entry'')"
  from fold_res_error [OF Suc.prems [unfolded visit.simps]] obtain name i parts hl where
    step: "?g (name, i) (parts, hl) = Inl e" by auto
  show ?case
  proof (cases "inode_at f i")
    case None
    then show ?thesis using step by (simp split: if_splits)
  next
    case (Some x)
    then show ?thesis using step Suc.IH by (cases x) (auto simp: Let_def split: if_splits)
  qed
qed

lemma fs_hash_error:
  assumes "fs_hash sha digest f d = Inl (ValueError m)"
  shows "m \<notin> set PREEXEC_DECLINES"
proof -
  from assms have "m = ''workspace is not a directory'' \<or> visit (Suc (length (inodes f))) sha f [] d ([], []) = Inl (ValueError m)"
    by (auto simp: fs_hash_def simp del: visit.simps split: if_splits sum.splits)
  then have "m = ''workspace is not a directory'' \<or> m = ''unsupported workspace entry''"
    using visit_error by blast
  then show ?thesis by (auto simp: PREEXEC_DECLINES_def)
qed

text \<open>
  C38: a speculation the worker declines was never run. When a job in a fork is answered as an
  admission failure, which lets the caller go on as if it had not been tried, no command was started
  and every file is as it was; any failure after the command started is answered otherwise. The
  shell's own errors are assumed not to carry one of the texts of a refusal.
\<close>

theorem declined_never_ran:
  assumes "process host payload f = (failure ''admission'' t, f1)"
    and "admit_job payload = Inr (st, Fork_request path kind cmd)"
    and "\<And>line cwd separate m f0 f2. se_drain (wh_shell host) line cwd separate f0 = (Inl (ValueError m), f2) \<Longrightarrow>
           m \<notin> set PREEXEC_DECLINES"
  shows "f1 = f"
proof -
  let ?env = "configured (wh_float host) st (wh_guard host)"
  let ?sh = "(wh_shell host)\<lparr>se_shell := Some ''/bin/bash''\<rparr>"
  let ?tool = "Some (ge_environ (wh_guard host))"
  let ?args = "[(''cmd'', PStr cmd)]"
  obtain r f2 where job: "run_job host st (Fork_request path kind cmd) f = (r, f2)" by fastforce
  have ok: "success x \<noteq> failure ''admission'' t" for x by (simp add: success_def failure_def)
  have pv: "fault_response (Protocol_violation m) \<noteq> failure ''admission'' t" for m by (simp add: fault_response_def failure_def)
  from assms(1,2) job ok pv obtain e where e: "r = Inl e" "fault_response e = failure ''admission'' t" "f2 = f1"
    by (cases r) (auto simp: process_def Let_def split: if_splits)
  from fault_admission [OF e(2)] obtain g where g: "e = Guarded g"
    "\<forall>m. g = Rejected m \<or> g = Other_error (ValueError m) \<longrightarrow> m \<in> set PREEXEC_DECLINES"
    "\<forall>p. g = Other_error p \<longrightarrow> (\<exists>m. p = ValueError m)" by blast
  show ?thesis
  proof (cases "private_fork_path f (wh_scratch host) (st_scratch st) path")
    case (Inl x)
    then show ?thesis using job e(1,3) by (simp add: run_job_def Let_def)
  next
    case (Inr d)
    obtain q f3 where run: "run_in_fork ?env ?sh ?tool d path kind ?args f = (q, f3)" by fastforce
    have f3: "f3 = f1" using job Inr run e(3) by (cases q) (auto simp: run_job_def Let_def)
    from job Inr run e(1) g(1) have "q = Inl g \<or> (\<exists>res. harbor_output res = Inl (Guarded g))"
      by (cases q) (auto simp: run_job_def Let_def res_bind_def split: sum.splits)
    then have q: "q = Inl g" by (auto simp: harbor_output_def split: option.splits if_splits)
    show ?thesis
    proof (cases "prepare_fork_run ?env ?sh ?tool f d path kind ?args")
      case (Inl x)
      then show ?thesis using run f3 by (simp add: run_in_fork_def)
    next
      case prep: (Inr y)
      obtain earlier line where y: "y = (earlier, line)" by (cases y)
      obtain o1 f4 where drain: "se_drain ?sh line path (getenv ?env ''SFX_SEPARATE_STDERR'' [] = ''1'') f = (o1, f4)" by fastforce
      show ?thesis
      proof (cases o1)
        case err: (Inl x)
        then have "g = Other_error x" using run q drain prep y by (simp add: run_in_fork_def)
        with g(2,3) obtain m where "x = ValueError m" "m \<in> set PREEXEC_DECLINES" by blast
        with assms(3) drain err show ?thesis by fastforce
      next
        case fine: (Inr result)
        show ?thesis
        proof (cases earlier)
          case None
          then show ?thesis using run q drain prep y fine by (simp add: run_in_fork_def Let_def)
        next
          case (Some h)
          show ?thesis
          proof (cases "fs_hash (ge_sha256 ?env) (se_digest ?sh) f4 d")
            case (Inl x)
            then have "g = Other_error x" using run q drain prep y fine Some by (simp add: run_in_fork_def Let_def)
            with g(2,3) obtain m where "x = ValueError m" "m \<in> set PREEXEC_DECLINES" by blast
            with fs_hash_error Inl show ?thesis by blast
          next
            case (Inr h1)
            then have "g = Rejected ''declared read-only command changed its fork''"
              using run q drain prep y fine Some by (auto simp: run_in_fork_def Let_def split: if_splits)
            with g(2) show ?thesis by (simp add: PREEXEC_DECLINES_def)
          qed
        qed
      qed
    qed
  qed
qed

text \<open>A fork with one file, and a request whose command writes to the disk.\<close>

definition demo_host :: worker_host where
  "demo_host = \<lparr>wh_guard = demo_guard, wh_shell = demo_shell, wh_view = None,
     wh_with_handle = (\<lambda>path body f. body 0 path path f), wh_scratch = Some 0, wh_duration = 5,
     wh_float = (\<lambda>x. ''0'')\<rparr>"

definition demo_scratch :: fs where
  "demo_scratch = \<lparr>inodes = [(0, Directory [(''f'', 1)]), (1, Directory [(''a.txt'', 2)]), (2, RegFile ''hi'' 420)], next_ino = 3\<rparr>"

definition demo_payload :: "string \<Rightarrow> pyval" where
  "demo_payload cmd = PDict
     [(''settings'', PDict [(''repo'', PStr ''/app''), (''scratch'', PStr ''/s''), (''script_contracts'', PList []),
        (''fork_path_view'', PStr ''cwd'')]),
      (''request'', PDict [(''op'', PStr ''run_in_fork''), (''path'', PStr ''/s/f''),
        (''hop'', PList [PStr ''read'', PStr ''free'', PDict [(''cmd'', PStr cmd)]])])]"

theorem declined_never_ran_witness:
  "snd (process demo_host (demo_payload ''cat ../a'') demo_scratch) = demo_scratch"
proof -
  have "fst (process demo_host (demo_payload ''cat ../a'') demo_scratch) = failure ''admission'' ''SpeculationDeclined''"
    by code_simp
  then have p: "process demo_host (demo_payload ''cat ../a'') demo_scratch =
      (failure ''admission'' ''SpeculationDeclined'', snd (process demo_host (demo_payload ''cat ../a'') demo_scratch))"
    by (simp only: prod_eq_iff fst_conv snd_conv)
  have a: "admit_job (demo_payload ''cat ../a'') =
      Inr (\<lparr>st_repo = ''/app'', st_scratch = ''/s'', st_script_contracts = PList [], st_fork_path_view = ''cwd''\<rparr>,
           Fork_request ''/s/f'' ''read'' ''cat ../a'')"
    by code_simp
  have "se_drain (wh_shell demo_host) line cwd separate f0 \<noteq> (Inl (ValueError m), f2)" for line cwd separate m f0 f2
    by (simp add: demo_host_def demo_shell_def)
  then show ?thesis by (intro declined_never_ran [OF p a]) blast
qed

end
