(* ===== verification/Spec2Isabelle.thy ===== *)
theory Spec2Isabelle
  imports Daemon_Properties Normalize Speculation Protocol Resolver Stream_Properties Model_Tools Spec_Worker
begin

text \<open>
  A model of the speculative tool-execution daemon.
\<close>

end
